(* ===== verification/Prelude.thy ===== *)
theory Prelude
  imports Complex_Main "HOL-Library.AList"
begin

text \<open>
  What the TypeScript client takes from its language, shared by every component theory:
  \<^item> thrown values (the error classes of \<open>client/transfer\<close> and \<open>client/app\<close>) and results
    \<open>thrown + 'a\<close>;
  \<^item> asynchronous code that touches the outside world as state-passing actions over an
    arbitrary world type \<open>'w\<close>: \<open>'w \<Rightarrow> ('a res) \<times> 'w\<close>; a world survives a throw, as
    effects done before an exception do;
  \<^item> the JavaScript \<open>Map\<close> as an association list in insertion order (\<open>AList.update\<close>
    replaces in place or appends, \<open>AList.delete\<close> removes), strings as lists of Latin-1
    code units, numbers that may be fractional or non-finite, and parsed JSON.
\<close>

section \<open>Collections of facts\<close>

named_theorems res_simps \<open>rewriting of results\<close>
named_theorems act_simps \<open>rewriting of actions\<close>
named_theorems js_simps \<open>evaluation of JavaScript strings and numbers\<close>

section \<open>Thrown values\<close>

text \<open>\<open>OccupiedTokenInfo\<close> of \<open>router/registry-client.ts\<close>.\<close>

record occupied_token =
  occ_token :: string
  occ_expiryAt :: string
  occ_blockHash :: "string option"

text \<open>
  One constructor per class of value the client throws. \<open>ErrorObj\<close> and \<open>TypeErrorObj\<close> are the
  built-in classes with their message, \<open>OtherThrow\<close> is a thrown string, which is no \<open>Error\<close>.
\<close>

datatype thrown =
    ErrorObj string
  | TypeErrorObj string
  | TokenPlacementExpiredError string
  | RegistryTokenOccupiedError "occupied_token list"
  | PutRetryExhaustedError int thrown
  | UploadPutError string int thrown
  | UploadTokenReservationExhaustedError int "occupied_token list"
  | OtherThrow string

type_synonym 'a res = "thrown + 'a"

definition is_Error :: "thrown \<Rightarrow> bool" where
  "is_Error e \<longleftrightarrow> (case e of OtherThrow _ \<Rightarrow> False | _ \<Rightarrow> True)"

section \<open>Results\<close>

definition rbind :: "'a res \<Rightarrow> ('a \<Rightarrow> 'b res) \<Rightarrow> 'b res" where
  "rbind r f = (case r of Inl e \<Rightarrow> Inl e | Inr x \<Rightarrow> f x)"

definition is_ok :: "'a res \<Rightarrow> bool" where
  "is_ok r \<longleftrightarrow> (case r of Inl _ \<Rightarrow> False | Inr _ \<Rightarrow> True)"

text \<open>\<open>if (c) throw e;\<close> in front of the rest of a function.\<close>

definition throw_if :: "bool \<Rightarrow> thrown \<Rightarrow> 'a res \<Rightarrow> 'a res" where
  "throw_if c e r = (if c then Inl e else r)"

lemma rbind_simps [simp, res_simps]:
  "rbind (Inl e) f = Inl e"
  "rbind (Inr x) f = f x"
  by (simp_all add: rbind_def)

lemma rbind_Inr_iff: "rbind r f = Inr y \<longleftrightarrow> (\<exists>x. r = Inr x \<and> f x = Inr y)"
  by (cases r) simp_all

lemma rbind_Inl_iff: "rbind r f = Inl e \<longleftrightarrow> r = Inl e \<or> (\<exists>x. r = Inr x \<and> f x = Inl e)"
  by (cases r) simp_all

lemma is_ok_simps [simp, res_simps]:
  "is_ok (Inr x) = True"
  "is_ok (Inl e) = False"
  by (simp_all add: is_ok_def)

lemma is_ok_iff: "is_ok r \<longleftrightarrow> (\<exists>x. r = Inr x)"
  by (cases r) simp_all

lemma throw_if_simps [simp, res_simps]:
  "throw_if True e r = Inl e"
  "throw_if False e r = r"
  by (simp_all add: throw_if_def)

lemma throw_if_Inr_iff: "throw_if c e r = Inr x \<longleftrightarrow> \<not> c \<and> r = Inr x"
  by (simp add: throw_if_def)

text \<open>\<open>Array.prototype.map\<close> with a callback that may throw: the first throw wins.\<close>

fun rmap :: "('a \<Rightarrow> 'b res) \<Rightarrow> 'a list \<Rightarrow> 'b list res" where
  "rmap f [] = Inr []"
| "rmap f (x # xs) = rbind (f x) (\<lambda>y. rbind (rmap f xs) (\<lambda>ys. Inr (y # ys)))"

lemma rmap_Inr_iff: "rmap f xs = Inr ys \<longleftrightarrow> map f xs = map Inr ys"
proof (induction xs arbitrary: ys)
  case Nil
  then show ?case by auto
next
  case (Cons x xs)
  then show ?case by (cases ys) (auto simp: rbind_Inr_iff)
qed

lemma rmap_Inr: "(\<And>x. x \<in> set xs \<Longrightarrow> f x = Inr (g x)) \<Longrightarrow> rmap f xs = Inr (map g xs)"
  by (simp add: rmap_Inr_iff)

section \<open>Actions on the world\<close>

type_synonym ('w, 'a) act = "'w \<Rightarrow> 'a res \<times> 'w"

definition areturn :: "'a \<Rightarrow> ('w, 'a) act" where
  "areturn x w = (Inr x, w)"

definition athrow :: "thrown \<Rightarrow> ('w, 'a) act" where
  "athrow e w = (Inl e, w)"

definition alift :: "'a res \<Rightarrow> ('w, 'a) act" where
  "alift r w = (r, w)"

definition amodify :: "('w \<Rightarrow> 'w) \<Rightarrow> ('w, unit) act" where
  "amodify f w = (Inr (), f w)"

definition aget :: "('w \<Rightarrow> 'a) \<Rightarrow> ('w, 'a) act" where
  "aget f w = (Inr (f w), w)"

definition abind :: "('w, 'a) act \<Rightarrow> ('a \<Rightarrow> ('w, 'b) act) \<Rightarrow> ('w, 'b) act" where
  "abind m f w = (case m w of (Inl e, w') \<Rightarrow> (Inl e, w') | (Inr x, w') \<Rightarrow> f x w')"

text \<open>\<open>try { m } catch (e) { h(e) }\<close> and \<open>try { m } finally { f }\<close>.\<close>

definition acatch :: "('w, 'a) act \<Rightarrow> (thrown \<Rightarrow> ('w, 'a) act) \<Rightarrow> ('w, 'a) act" where
  "acatch m h w = (case m w of (Inl e, w') \<Rightarrow> h e w' | (Inr x, w') \<Rightarrow> (Inr x, w'))"

definition afinally :: "('w, 'a) act \<Rightarrow> ('w \<Rightarrow> 'w) \<Rightarrow> ('w, 'a) act" where
  "afinally m f w = (case m w of (r, w') \<Rightarrow> (r, f w'))"

definition aseq :: "('w, 'a) act \<Rightarrow> ('w, 'b) act \<Rightarrow> ('w, 'b) act" where
  "aseq m n = abind m (\<lambda>_. n)"

lemma act_run [simp, act_simps]:
  "areturn x w = (Inr x, w)"
  "athrow e w = (Inl e, w)"
  "alift r w = (r, w)"
  "amodify f w = (Inr (), f w)"
  "aget g w = (Inr (g w), w)"
  by (simp_all add: areturn_def athrow_def alift_def amodify_def aget_def)

lemma abind_run [simp, act_simps]:
  "m w = (Inr x, w') \<Longrightarrow> abind m f w = f x w'"
  "m w = (Inl e, w') \<Longrightarrow> abind m f w = (Inl e, w')"
  by (simp_all add: abind_def)

lemma aseq_run [simp, act_simps]:
  "m w = (Inr x, w') \<Longrightarrow> aseq m n w = n w'"
  "m w = (Inl e, w') \<Longrightarrow> aseq m n w = (Inl e, w')"
  by (simp_all add: aseq_def)

lemma acatch_run [simp, act_simps]:
  "m w = (Inr x, w') \<Longrightarrow> acatch m h w = (Inr x, w')"
  "m w = (Inl e, w') \<Longrightarrow> acatch m h w = h e w'"
  by (simp_all add: acatch_def)

lemma afinally_run [simp, act_simps]:
  "m w = (r, w') \<Longrightarrow> afinally m f w = (r, f w')"
  by (simp add: afinally_def)

lemma abind_units:
  "abind (areturn x) f = f x"
  "abind (alift (Inr x)) f = f x"
  "abind m areturn = m"
  "aseq (areturn ()) m = m"
  by (rule ext, simp add: abind_def aseq_def split: prod.split sum.split)+

lemma abind_Inr_iff:
  "abind m f w = (Inr y, w'') \<longleftrightarrow> (\<exists>x w'. m w = (Inr x, w') \<and> f x w' = (Inr y, w''))"
  by (auto simp: abind_def split: prod.splits sum.splits)

lemma abind_Inl_iff:
  "abind m f w = (Inl e, w'') \<longleftrightarrow>
     m w = (Inl e, w'') \<or> (\<exists>x w'. m w = (Inr x, w') \<and> f x w' = (Inl e, w''))"
  by (auto simp: abind_def split: prod.splits sum.splits)

text \<open>A \<open>for\<close> loop over a list whose body awaits: the first throw leaves the loop.\<close>

fun afor :: "'a list \<Rightarrow> ('a \<Rightarrow> ('w, unit) act) \<Rightarrow> ('w, unit) act" where
  "afor [] body = areturn ()"
| "afor (x # xs) body = aseq (body x) (afor xs body)"

text \<open>The same with a local variable that the body updates.\<close>

fun afold :: "('x \<Rightarrow> 'a \<Rightarrow> ('w, 'a) act) \<Rightarrow> 'x list \<Rightarrow> 'a \<Rightarrow> ('w, 'a) act" where
  "afold body [] a = areturn a"
| "afold body (x # xs) a = abind (body x a) (afold body xs)"

text \<open>
  An action of the first component of the world, such as the memory of the compiled module, the
  link to a worker or a transport.
\<close>

definition on_memory :: "('m, 'a) act \<Rightarrow> ('m \<times> 'p, 'a) act" where
  "on_memory f mp = (case mp of (m, p) \<Rightarrow> (case f m of (r, m') \<Rightarrow> (r, (m', p))))"

lemma on_memory_run: "f m = (r, m') \<Longrightarrow> on_memory f (m, p) = (r, (m', p))"
  by (simp add: on_memory_def)

subsection \<open>Triples\<close>

text \<open>
  \<open>triple P m Q E\<close>: from a world with \<open>P\<close>, \<open>m\<close> returns with \<open>Q\<close> or throws with \<open>E\<close>.
\<close>

definition triple ::
    "('w \<Rightarrow> bool) \<Rightarrow> ('w, 'a) act \<Rightarrow> ('a \<Rightarrow> 'w \<Rightarrow> bool) \<Rightarrow> ('w \<Rightarrow> bool) \<Rightarrow> bool" where
  "triple P m Q E \<longleftrightarrow> (\<forall>w. P w \<longrightarrow> (case m w of (Inl e, w') \<Rightarrow> E w' | (Inr x, w') \<Rightarrow> Q x w'))"

lemma tripleD:
  assumes "triple P m Q E" "P w" "m w = (r, w')"
  shows "case r of Inl e \<Rightarrow> E w' | Inr x \<Rightarrow> Q x w'"
  using assms by (cases r) (force simp: triple_def)+

lemma tripleI:
  assumes "\<And>w r w'. P w \<Longrightarrow> m w = (r, w') \<Longrightarrow> case r of Inl e \<Rightarrow> E w' | Inr x \<Rightarrow> Q x w'"
  shows "triple P m Q E"
  unfolding triple_def
proof (intro allI impI)
  fix w assume "P w"
  then show "case m w of (Inl e, w') \<Rightarrow> E w' | (Inr x, w') \<Rightarrow> Q x w'"
    using assms [of w "fst (m w)" "snd (m w)"] by (cases "m w"; cases "fst (m w)") auto
qed

lemma triple_bind:
  assumes "triple P m R E" "\<And>x. triple (R x) (f x) Q E"
  shows "triple P (abind m f) Q E"
proof (rule tripleI)
  fix w r w' assume P: "P w" and run: "abind m f w = (r, w')"
  obtain a w1 where a: "m w = (a, w1)" by fastforce
  show "case r of Inl e \<Rightarrow> E w' | Inr x \<Rightarrow> Q x w'"
  proof (cases a)
    case (Inl e)
    with tripleD [OF assms(1) P a] run a show ?thesis by auto
  next
    case (Inr x)
    with tripleD [OF assms(1) P a] have "R x w1" by simp
    moreover have "f x w1 = (r, w')" using run a Inr by simp
    ultimately show ?thesis by (rule tripleD [OF assms(2)])
  qed
qed

lemma triple_seq:
  "triple P m (\<lambda>_. R) E \<Longrightarrow> triple R n Q E \<Longrightarrow> triple P (aseq m n) Q E"
  unfolding aseq_def by (rule triple_bind)

lemma triple_weaken:
  assumes "triple P m Q E" "\<And>w. P' w \<Longrightarrow> P w" "\<And>x w. Q x w \<Longrightarrow> Q' x w" "\<And>w. E w \<Longrightarrow> E' w"
  shows "triple P' m Q' E'"
proof (rule tripleI)
  fix w r w' assume "P' w" "m w = (r, w')"
  then show "case r of Inl e \<Rightarrow> E' w' | Inr x \<Rightarrow> Q' x w'"
    using tripleD [OF assms(1), of w r w'] assms(2-4) by (auto split: sum.splits)
qed

lemma triple_modify: "(\<And>w. P w \<Longrightarrow> Q () (f w)) \<Longrightarrow> triple P (amodify f) Q E"
  by (simp add: triple_def)

lemma triple_basic:
  "(\<And>w. P w \<Longrightarrow> Q x w) \<Longrightarrow> triple P (areturn x) Q E"
  "(\<And>w. P w \<Longrightarrow> E w) \<Longrightarrow> triple P (athrow e) Q E"
  "(\<And>w. P w \<Longrightarrow> case r of Inl e \<Rightarrow> E w | Inr x \<Rightarrow> Q x w) \<Longrightarrow> triple P (alift r) Q E"
  by (simp_all add: triple_def)

lemma triple_if:
  "(c \<Longrightarrow> triple P m Q E) \<Longrightarrow> (\<not> c \<Longrightarrow> triple P n Q E) \<Longrightarrow> triple P (if c then m else n) Q E"
  by simp

lemma triple_let: "triple P (f a) Q E \<Longrightarrow> triple P (let x = a in f x) Q E"
  by simp

text \<open>A loop over consecutive indices, with an assertion for each index.\<close>

lemma triple_afold:
  assumes "\<And>i a. l \<le> i \<Longrightarrow> i < u \<Longrightarrow> triple (I i a) (body i a) (I (i + 1)) E"
  shows "triple (I l a) (afold body [l..u - 1] a) (I (max l u)) E"
  using assms
proof (induction "nat (u - l)" arbitrary: l a)
  case 0
  then have "[l..u - 1] = []" "max l u = l" by simp_all
  moreover have "triple (I l a) (areturn a) (I l) E" by (rule triple_basic(1))
  ultimately show ?case by (simp only: afold.simps)
next
  case (Suc n)
  then have "[l..u - 1] = l # [l + 1..u - 1]" "max (l + 1) u = max l u" by (simp_all add: upto_rec1)
  moreover have "triple (I l a) (body l a) (I (l + 1)) E" using Suc by simp
  moreover have "triple (I (l + 1) b) (afold body [l + 1..u - 1] b) (I (max (l + 1) u)) E" for b
    using Suc by (intro Suc.hyps(1)) auto
  ultimately show ?case by (simp add: triple_bind)
qed

section \<open>Maps in insertion order\<close>

type_synonym ('k, 'v) jsmap = "('k \<times> 'v) list"

abbreviation jm_set :: "'k \<Rightarrow> 'v \<Rightarrow> ('k, 'v) jsmap \<Rightarrow> ('k, 'v) jsmap" where
  "jm_set \<equiv> AList.update"

abbreviation jm_get :: "('k, 'v) jsmap \<Rightarrow> 'k \<Rightarrow> 'v option" where
  "jm_get \<equiv> map_of"

abbreviation jm_delete :: "'k \<Rightarrow> ('k, 'v) jsmap \<Rightarrow> ('k, 'v) jsmap" where
  "jm_delete \<equiv> AList.delete"

abbreviation jm_keys :: "('k, 'v) jsmap \<Rightarrow> 'k list" where
  "jm_keys m \<equiv> map fst m"

definition jm_wf :: "('k, 'v) jsmap \<Rightarrow> bool" where
  "jm_wf m \<longleftrightarrow> distinct (jm_keys m)"

lemma jm_get_set: "jm_get (jm_set k v m) k' = (if k' = k then Some v else jm_get m k')"
  by (simp add: update_conv')

lemma jm_get_delete: "jm_get (jm_delete k m) k' = (if k' = k then None else jm_get m k')"
  by (simp add: delete_conv')

lemma jm_wf_Nil [simp, intro]: "jm_wf []"
  by (simp add: jm_wf_def)

lemma jm_wf_set [simp, intro]: "jm_wf m \<Longrightarrow> jm_wf (jm_set k v m)"
  by (simp add: jm_wf_def distinct_update)

lemma jm_wf_delete [simp, intro]: "jm_wf m \<Longrightarrow> jm_wf (jm_delete k m)"
  by (simp add: jm_wf_def distinct_delete)

lemma jm_keys_set: "set (jm_keys (jm_set k v m)) = insert k (set (jm_keys m))"
  by (simp add: dom_update)

lemma jm_dom_set [simp]: "fst ` set (jm_set k v m) = insert k (fst ` set m)"
  by (simp add: dom_update)

lemma jm_set_new: "k \<notin> set (jm_keys m) \<Longrightarrow> jm_set k v m = m @ [(k, v)]"
  by (induction m) auto

lemma jm_get_None_iff: "jm_get m k = None \<longleftrightarrow> k \<notin> set (jm_keys m)"
  by (simp add: map_of_eq_None_iff)

text \<open>\<open>[...new Set(xs)]\<close>: first occurrences, in order.\<close>

definition js_unique :: "'a list \<Rightarrow> 'a list" where
  "js_unique xs = rev (remdups (rev xs))"

lemma set_js_unique [simp]: "set (js_unique xs) = set xs"
  by (simp add: js_unique_def)

lemma distinct_js_unique [simp]: "distinct (js_unique xs)"
  by (simp add: js_unique_def)

lemma js_unique_distinct [simp]: "distinct xs \<Longrightarrow> js_unique xs = xs"
  by (simp add: js_unique_def distinct_remdups_id)

section \<open>Strings\<close>

definition starts_with :: "string \<Rightarrow> string \<Rightarrow> bool" where
  "starts_with s p \<longleftrightarrow> take (length p) s = p"

definition ends_with :: "string \<Rightarrow> string \<Rightarrow> bool" where
  "ends_with s p \<longleftrightarrow> starts_with (rev s) (rev p)"

fun str_includes :: "string \<Rightarrow> string \<Rightarrow> bool" where
  "str_includes [] p = (p = [])"
| "str_includes (c # s) p = (starts_with (c # s) p \<or> str_includes s p)"

definition lower_char :: "char \<Rightarrow> char" where
  "lower_char c = (if 65 \<le> (of_char c :: nat) \<and> (of_char c :: nat) \<le> 90
                   then char_of (of_char c + (32 :: nat)) else c)"

text \<open>A case-insensitive regular expression made of plain alternatives: \<open>/a|b|c/i.test(s)\<close>.\<close>

definition matches_any_ci :: "string list \<Rightarrow> string \<Rightarrow> bool" where
  "matches_any_ci alts s \<longleftrightarrow>
     list_ex (\<lambda>a. str_includes (map lower_char s) (map lower_char a)) alts"

text \<open>\<open>String.prototype.trim\<close> on Latin-1: tab to carriage return, space, no-break space.\<close>

definition is_space :: "char \<Rightarrow> bool" where
  "is_space c \<longleftrightarrow> (of_char c :: nat) \<in> {9, 10, 11, 12, 13, 32, 160}"

definition trim :: "string \<Rightarrow> string" where
  "trim s = rev (dropWhile is_space (rev (dropWhile is_space s)))"

text \<open>\<open>s.replace(/\/$/, '')\<close>, the client's base URL normalisation.\<close>

definition strip_slash :: "string \<Rightarrow> string" where
  "strip_slash s = (if s \<noteq> [] \<and> last s = CHR ''/'' then butlast s else s)"

definition digit_char :: "nat \<Rightarrow> char" where
  "digit_char d = char_of (48 + d)"

fun dec :: "nat \<Rightarrow> string" where
  "dec n = (if n < 10 then [digit_char n] else dec (n div 10) @ [digit_char (n mod 10)])"

declare dec.simps [simp del]

definition dec_int :: "int \<Rightarrow> string" where
  "dec_int i = (if i < 0 then CHR ''-'' # dec (nat (- i)) else dec (nat i))"

definition is_digit :: "char \<Rightarrow> bool" where
  "is_digit c \<longleftrightarrow> 48 \<le> (of_char c :: nat) \<and> (of_char c :: nat) \<le> 57"

definition digit_val :: "char \<Rightarrow> nat" where
  "digit_val c = of_char c - 48"

lemma starts_with_append [simp]: "starts_with (p @ s) p"
  by (simp add: starts_with_def)

lemma starts_with_iff: "starts_with s p \<longleftrightarrow> (\<exists>r. s = p @ r)"
  by (metis append_eq_conv_conj append_take_drop_id starts_with_def)

lemma includes_iff: "str_includes s p \<longleftrightarrow> (\<exists>a b. s = a @ p @ b)"
proof (induction s)
  case Nil
  then show ?case by simp
next
  case (Cons c s)
  show ?case
  proof
    assume "str_includes (c # s) p"
    then consider "starts_with (c # s) p" | "str_includes s p" by auto
    then show "\<exists>a b. c # s = a @ p @ b"
      by cases (metis append_Nil starts_with_iff, metis Cons.IH append_Cons)
  next
    assume "\<exists>a b. c # s = a @ p @ b"
    then obtain a b where ab: "c # s = a @ p @ b" by blast
    show "str_includes (c # s) p"
    proof (cases a)
      case Nil
      with ab have "starts_with (c # s) p" by simp
      then show ?thesis by simp
    next
      case (Cons x a')
      with ab have "s = a' @ p @ b" by simp
      then show ?thesis using Cons.IH by auto
    qed
  qed
qed

lemma includes_append1: "str_includes s p \<Longrightarrow> str_includes (s @ t) p"
  by (fastforce simp: includes_iff)

lemma includes_append2: "str_includes t p \<Longrightarrow> str_includes (s @ t) p"
proof -
  assume "str_includes t p"
  then obtain a b where "t = a @ p @ b" by (auto simp: includes_iff)
  then have "s @ t = (s @ a) @ p @ b" by simp
  then show ?thesis unfolding includes_iff by blast
qed

lemma strip_slash_simps [simp]:
  "strip_slash [] = []"
  "strip_slash (s @ [c]) = (if c = CHR ''/'' then s else s @ [c])"
  by (simp_all add: strip_slash_def)

section \<open>Numbers\<close>

text \<open>
  A JavaScript number that still has to pass a check (\<open>Number.isFinite\<close>, \<open>Number.isSafeInteger\<close>):
  a rational value, an infinity or NaN. Once checked or truncated it is an \<open>int\<close>.
\<close>

datatype jsnum = NaN | NegInf | Fin rat | PosInf

definition num_isFinite :: "jsnum \<Rightarrow> bool" where
  "num_isFinite n \<longleftrightarrow> (case n of Fin _ \<Rightarrow> True | _ \<Rightarrow> False)"

text \<open>The relational operators: every comparison with NaN is false.\<close>

fun num_less :: "jsnum \<Rightarrow> jsnum \<Rightarrow> bool" where
  "num_less NaN _ = False"
| "num_less _ NaN = False"
| "num_less PosInf _ = False"
| "num_less _ NegInf = False"
| "num_less NegInf _ = True"
| "num_less _ PosInf = True"
| "num_less (Fin a) (Fin b) = (a < b)"

fun num_le :: "jsnum \<Rightarrow> jsnum \<Rightarrow> bool" where
  "num_le NaN _ = False"
| "num_le _ NaN = False"
| "num_le NegInf _ = True"
| "num_le _ PosInf = True"
| "num_le PosInf _ = False"
| "num_le _ NegInf = False"
| "num_le (Fin a) (Fin b) = (a \<le> b)"

text \<open>\<open>Math.trunc\<close> on a finite value, as an integer.\<close>

definition trunc_rat :: "rat \<Rightarrow> int" where
  "trunc_rat r = (if 0 \<le> r then \<lfloor>r\<rfloor> else \<lceil>r\<rceil>)"

definition max_safe_integer :: int where
  "max_safe_integer = 9007199254740991"

definition num_isSafeInteger :: "jsnum \<Rightarrow> bool" where
  "num_isSafeInteger n \<longleftrightarrow> (case n of
     Fin r \<Rightarrow> r \<in> \<int> \<and> \<bar>r\<bar> \<le> of_int max_safe_integer | _ \<Rightarrow> False)"

lemma trunc_rat_of_int [simp]: "trunc_rat (of_int i) = i"
  by (simp add: trunc_rat_def)

lemma trunc_rat_numeral [simp]: "trunc_rat (numeral n) = numeral n"
  by (simp add: trunc_rat_def)

lemma trunc_rat_nonneg: "0 \<le> r \<Longrightarrow> 0 \<le> trunc_rat r"
  by (simp add: trunc_rat_def)

lemma trunc_rat_le: "0 \<le> r \<Longrightarrow> of_int (trunc_rat r) \<le> r"
  by (simp add: trunc_rat_def)

lemma num_isFinite_simps [simp, js_simps]:
  "num_isFinite (Fin r)"
  "\<not> num_isFinite NaN"
  "\<not> num_isFinite PosInf"
  "\<not> num_isFinite NegInf"
  by (simp_all add: num_isFinite_def)

lemma num_isFinite_iff: "num_isFinite n \<longleftrightarrow> (\<exists>r. n = Fin r)"
  by (cases n) simp_all

text \<open>
  \<open>String(n)\<close>: integers below \<open>10^21\<close> in decimal; \<open>print\<close> stands for the exponent and
  fraction notations, of which no proof looks at the digits.
\<close>

definition num_string :: "(rat \<Rightarrow> string) \<Rightarrow> jsnum \<Rightarrow> string" where
  "num_string print n = (case n of
     NaN \<Rightarrow> ''NaN''
   | PosInf \<Rightarrow> ''Infinity''
   | NegInf \<Rightarrow> ''-Infinity''
   | Fin r \<Rightarrow> if of_int \<lfloor>r\<rfloor> = r \<and> \<bar>r\<bar> < 10 ^ 21 then dec_int \<lfloor>r\<rfloor> else print r)"

text \<open>
  \<open>Number.parseInt(s, 10)\<close>: white space, a sign, the longest run of digits. From
  \<open>2^1024 - 2^970\<close> on the digits round to an infinity.
\<close>

definition digits_val :: "string \<Rightarrow> nat" where
  "digits_val ds = foldl (\<lambda>n c. 10 * n + digit_val c) 0 ds"

definition num_overflow :: rat where
  "num_overflow = 2 ^ 1024 - 2 ^ 970"

definition parse_int :: "string \<Rightarrow> jsnum" where
  "parse_int s =
     (let t = dropWhile is_space s;
          neg = starts_with t ''-'';
          u = (if neg \<or> starts_with t ''+'' then tl t else t);
          ds = takeWhile is_digit u;
          v = (of_nat (digits_val ds) :: rat) in
      if ds = [] then NaN
      else if num_overflow \<le> v then (if neg then NegInf else PosInf)
      else Fin (if neg then - v else v))"

lemma is_digit_digit_char: "d < 10 \<Longrightarrow> is_digit (digit_char d) \<and> digit_val (digit_char d) = d"
  by (simp add: is_digit_def digit_char_def digit_val_def of_char_of)

lemma dec_digits: "dec n \<noteq> [] \<and> list_all is_digit (dec n)"
proof (induction n rule: dec.induct)
  case (1 n)
  then show ?case
    using is_digit_digit_char[of n] is_digit_digit_char[of "n mod 10"]
    by (subst (1 2) dec.simps) auto
qed

lemma digits_val_snoc: "digits_val (ds @ [c]) = 10 * digits_val ds + digit_val c"
  by (simp add: digits_val_def)

lemma digits_val_dec [simp]: "digits_val (dec n) = n"
proof (induction n rule: dec.induct)
  case (1 n)
  show ?case
  proof (cases "n < 10")
    case True
    then show ?thesis
      using is_digit_digit_char[of n] by (subst dec.simps) (simp add: digits_val_def)
  next
    case False
    then show ?thesis
      using 1 is_digit_digit_char[of "n mod 10"] by (subst dec.simps) (simp add: digits_val_snoc)
  qed
qed

lemma digit_not_space: "is_digit c \<Longrightarrow> \<not> is_space c \<and> c \<noteq> CHR ''-'' \<and> c \<noteq> CHR ''+''"
  by (auto simp: is_digit_def is_space_def)

lemma parse_int_dec: "of_nat n < num_overflow \<Longrightarrow> parse_int (dec n) = Fin (of_nat n)"
proof -
  assume small: "of_nat n < num_overflow"
  obtain c cs where cs: "dec n = c # cs" "is_digit c" "list_all is_digit (dec n)"
    using dec_digits[of n] by (cases "dec n") auto
  then have "dropWhile is_space (dec n) = dec n" "\<not> starts_with (dec n) ''-''"
      "\<not> starts_with (dec n) ''+''" "takeWhile is_digit (dec n) = dec n"
    using digit_not_space[of c] by (auto simp: starts_with_def takeWhile_eq_all_conv list_all_iff)
  with small cs(1) digits_val_dec[of n, unfolded cs(1)] show ?thesis
    by (simp add: parse_int_def Let_def)
qed

abbreviation MiB :: int where
  "MiB \<equiv> 1024 * 1024"

text \<open>Bytes of a \<open>Uint8Array\<close>.\<close>

type_synonym bytes = "nat list"

section \<open>JSON\<close>

text \<open>
  A parsed JSON value. An object's properties are an association list with distinct keys, as
  \<open>JSON.parse\<close> leaves them. \<open>undefined\<close> is \<open>None\<close>.
\<close>

datatype json =
    JNull
  | JBool bool
  | JNum jsnum
  | JStr string
  | JArr "json list"
  | JObj "(string \<times> json) list"

text \<open>\<open>typeof v === 'object' && v !== null\<close>: arrays pass too.\<close>

definition is_object :: "json \<Rightarrow> bool" where
  "is_object j \<longleftrightarrow> (case j of JObj _ \<Rightarrow> True | JArr _ \<Rightarrow> True | _ \<Rightarrow> False)"

text \<open>Property access by a name that no array has.\<close>

definition jprop :: "string \<Rightarrow> json \<Rightarrow> json option" where
  "jprop k j = (case j of JObj kvs \<Rightarrow> map_of kvs k | _ \<Rightarrow> None)"

definition opt_string :: "json option \<Rightarrow> string option" where
  "opt_string v = (case v of Some (JStr s) \<Rightarrow> Some s | _ \<Rightarrow> None)"

definition opt_number :: "json option \<Rightarrow> jsnum option" where
  "opt_number v = (case v of Some (JNum n) \<Rightarrow> Some n | _ \<Rightarrow> None)"

definition opt_object :: "json option \<Rightarrow> json option" where
  "opt_object v = (case v of Some j \<Rightarrow> if is_object j then Some j else None | None \<Rightarrow> None)"

text \<open>\<open>Object.entries\<close>, also what object spread copies.\<close>

definition obj_entries :: "json \<Rightarrow> (string, json) jsmap" where
  "obj_entries j = (case j of
     JObj kvs \<Rightarrow> kvs
   | JArr xs \<Rightarrow> zip (map dec [0..<length xs]) xs
   | _ \<Rightarrow> [])"

lemma json_simps [simp, js_simps]:
  "is_object (JObj kvs)"
  "is_object (JArr xs)"
  "\<not> is_object JNull"
  "\<not> is_object (JBool b)"
  "\<not> is_object (JNum n)"
  "\<not> is_object (JStr s)"
  "jprop k (JObj kvs) = map_of kvs k"
  "jprop k (JArr xs) = None"
  "opt_string (Some (JStr s)) = Some s"
  "opt_string None = None"
  "opt_number (Some (JNum n)) = Some n"
  "opt_number None = None"
  "opt_object None = None"
  "opt_object (Some (JObj kvs)) = Some (JObj kvs)"
  "obj_entries (JObj kvs) = kvs"
  by (simp_all add: is_object_def jprop_def opt_string_def opt_number_def opt_object_def
        obj_entries_def)

end
