(* ===== verification/Sizes.thy ===== *)
theory Sizes
  imports Prelude
begin

text \<open>
  Sizes and layout policy of the transfer layer: \<open>transfer/src/types.ts\<close> (byte lengths that
  come out of WebAssembly, splitting a credential), \<open>segment-policy.ts\<close> (the GCM segment code
  of a file) and \<open>wire-block-policy.ts\<close> (the wire block ceiling). A file size is a \<open>jsnum\<close>
  until it has passed its finiteness check; segment codes are integers.
\<close>

section \<open>The runtime a policy looks at\<close>

text \<open>
  What the policies read of their global scope: \<open>navigator\<close> (absent under Node), whether
  \<open>'window' in globalThis\<close>, and \<open>process.env\<close>.
\<close>

record navigator =
  uaData_mobile :: "bool option"
  userAgent :: string
  deviceMemory :: "jsnum option"

record runtime_env =
  env_navigator :: "navigator option"
  env_window :: bool
  env_vars :: "string \<Rightarrow> string option"

definition isBrowserRuntime :: "runtime_env \<Rightarrow> bool" where
  "isBrowserRuntime env = env_window env"

definition isLikelyMobileBrowser :: "runtime_env \<Rightarrow> bool" where
  "isLikelyMobileBrowser env = (case env_navigator env of
     None \<Rightarrow> False
   | Some nav \<Rightarrow>
       if uaData_mobile nav = Some True then True
       else matches_any_ci [''Android'', ''iPhone'', ''iPad'', ''iPod'', ''Mobile'']
              (userAgent nav))"

section \<open>Byte lengths from untyped values\<close>

text \<open>
  \<open>unknown\<close> as \<open>toSafeByteLength\<close> distinguishes it. \<open>Number(bigint)\<close> is exact up to
  \<open>2^53\<close> and never rounds a larger value below it, so the unrounded value decides the
  safe-integer check. \<open>toNumber\<close> is the built-in string conversion \<open>Number(s)\<close>.
\<close>

datatype js_value = BigIntV int | NumberV jsnum | StringV string | OtherV

fun toSafeByteLength_number :: "jsnum \<Rightarrow> string \<Rightarrow> int res" where
  "toSafeByteLength_number n label =
     (if \<not> num_isFinite n \<or> num_less n (Fin 0) \<or> \<not> num_isSafeInteger n
      then Inl (ErrorObj (label @ '' must be a non-negative safe integer''))
      else (case n of Fin r \<Rightarrow> Inr \<lfloor>r\<rfloor> | _ \<Rightarrow> Inr 0))"

definition toSafeByteLength ::
    "(string \<Rightarrow> jsnum) \<Rightarrow> js_value \<Rightarrow> string \<Rightarrow> int res" where
  "toSafeByteLength toNumber v label = (case v of
     BigIntV i \<Rightarrow>
       if i < 0 then Inl (ErrorObj (label @ '' must be non-negative''))
       else if \<not> num_isSafeInteger (Fin (of_int i))
       then Inl (ErrorObj (label @ '' exceeds JS safe integer range: '' @ dec_int i))
       else Inr i
   | NumberV n \<Rightarrow> toSafeByteLength_number n label
   | StringV s \<Rightarrow>
       if trim s \<noteq> [] then toSafeByteLength_number (toNumber s) label
       else Inl (ErrorObj (label @ '' must be a byte length''))
   | OtherV \<Rightarrow> Inl (ErrorObj (label @ '' must be a byte length'')))"

definition byteLengthsEqual ::
    "(string \<Rightarrow> jsnum) \<Rightarrow> js_value \<Rightarrow> js_value \<Rightarrow> bool res" where
  "byteLengthsEqual toNumber l r =
     rbind (toSafeByteLength toNumber l ''byteLength'') (\<lambda>a.
     rbind (toSafeByteLength toNumber r ''byteLength'') (\<lambda>b. Inr (a = b)))"

lemma toSafeByteLength_number_ok:
  "toSafeByteLength_number n label = Inr i \<longleftrightarrow>
     n = Fin (of_int i) \<and> 0 \<le> i \<and> i \<le> max_safe_integer"
proof (cases n)
  case (Fin r)
  show ?thesis
  proof
    assume "toSafeByteLength_number n label = Inr i"
    with Fin have r: "0 \<le> r" "r \<in> \<int>" "\<bar>r\<bar> \<le> of_int max_safe_integer" "i = \<lfloor>r\<rfloor>"
      by (auto simp: num_isSafeInteger_def split: if_splits)
    from r(2) obtain k where k: "r = of_int k" by (auto elim: Ints_cases)
    with r show "n = Fin (of_int i) \<and> 0 \<le> i \<and> i \<le> max_safe_integer"
      using Fin by (simp add: max_safe_integer_def)
  next
    assume "n = Fin (of_int i) \<and> 0 \<le> i \<and> i \<le> max_safe_integer"
    then show "toSafeByteLength_number n label = Inr i"
      by (simp add: num_isSafeInteger_def max_safe_integer_def)
  qed
qed (simp_all add: num_isSafeInteger_def)

section \<open>Credentials\<close>

definition CREDENTIAL_LENGTH :: nat where
  "CREDENTIAL_LENGTH = 12"

definition SEARCH_CODE_LENGTH :: nat where
  "SEARCH_CODE_LENGTH = 6"

definition KEY_CODE_LENGTH :: nat where
  "KEY_CODE_LENGTH = 6"

definition DEFAULT_INITIAL_TOKENS :: int where
  "DEFAULT_INITIAL_TOKENS = 64"

record credential_parts =
  searchCode :: string
  keyCode :: string

definition credential_length_error :: thrown where
  "credential_length_error =
     ErrorObj (''credential must be exactly '' @ dec CREDENTIAL_LENGTH @ '' characters'')"

definition splitCredential :: "string \<Rightarrow> credential_parts res" where
  "splitCredential credential =
     (if length credential \<noteq> CREDENTIAL_LENGTH then Inl credential_length_error
      else Inr \<lparr>searchCode = take SEARCH_CODE_LENGTH credential,
                keyCode = drop SEARCH_CODE_LENGTH credential\<rparr>)"

lemma splitCredential_ok:
  "splitCredential c = Inr p \<longleftrightarrow>
     length c = 12 \<and> searchCode p = take 6 c \<and> keyCode p = drop 6 c"
  by (cases p) (auto simp: splitCredential_def CREDENTIAL_LENGTH_def SEARCH_CODE_LENGTH_def)

text \<open>An \<open>UploadMap\<close>: token to wire block, in insertion order.\<close>

type_synonym upload_map = "(string, bytes) jsmap"

definition toUploadMap :: "(string \<times> bytes) list \<Rightarrow> upload_map" where
  "toUploadMap record_entries = fold (\<lambda>(k, v) m. jm_set k v m) record_entries []"

definition fromUploadMap :: "upload_map \<Rightarrow> (string \<times> bytes) list" where
  "fromUploadMap uploads = uploads"

section \<open>Segment policy\<close>

definition V2_SEGMENT_CODE_WHOLE_FILE :: int where
  "V2_SEGMENT_CODE_WHOLE_FILE = 0"

definition V21_SEGMENT_CODE_MIN :: int where
  "V21_SEGMENT_CODE_MIN = 1"

definition V21_SEGMENT_CODE_MAX :: int where
  "V21_SEGMENT_CODE_MAX = 5"

definition V21_DEFAULT_SEGMENT_CODE_LARGE_FILE :: int where
  "V21_DEFAULT_SEGMENT_CODE_LARGE_FILE = 4"

definition V21_BROWSER_SEGMENT_CODE_THRESHOLD_BYTES :: int where
  "V21_BROWSER_SEGMENT_CODE_THRESHOLD_BYTES = 64 * MiB"

definition V21_SEGMENT_CODE_64_MIB :: int where
  "V21_SEGMENT_CODE_64_MIB = 3"

definition V21_WHOLE_FILE_THRESHOLD_BYTES :: int where
  "V21_WHOLE_FILE_THRESHOLD_BYTES = 16 * MiB"

lemmas segment_consts [simp] =
  V2_SEGMENT_CODE_WHOLE_FILE_def V21_SEGMENT_CODE_MIN_def V21_SEGMENT_CODE_MAX_def
  V21_DEFAULT_SEGMENT_CODE_LARGE_FILE_def V21_BROWSER_SEGMENT_CODE_THRESHOLD_BYTES_def
  V21_SEGMENT_CODE_64_MIB_def V21_WHOLE_FILE_THRESHOLD_BYTES_def

abbreviation byteLength_error :: thrown where
  "byteLength_error \<equiv> ErrorObj ''byteLength must be a non-negative finite number''"

definition selectSegmentCodeForFileSize :: "jsnum \<Rightarrow> int res" where
  "selectSegmentCodeForFileSize byteLength =
     (if \<not> num_isFinite byteLength \<or> num_less byteLength (Fin 0) then Inl byteLength_error
      else if num_le byteLength (Fin (of_int V21_WHOLE_FILE_THRESHOLD_BYTES))
      then Inr V2_SEGMENT_CODE_WHOLE_FILE
      else if num_less (Fin (of_int V21_BROWSER_SEGMENT_CODE_THRESHOLD_BYTES)) byteLength
      then Inr V21_SEGMENT_CODE_64_MIB
      else Inr V21_DEFAULT_SEGMENT_CODE_LARGE_FILE)"

definition isV2WholeFileSegmentCode :: "int \<Rightarrow> bool" where
  "isV2WholeFileSegmentCode segmentCode \<longleftrightarrow> segmentCode = V2_SEGMENT_CODE_WHOLE_FILE"

definition isV21SegmentCode :: "int \<Rightarrow> bool" where
  "isV21SegmentCode segmentCode \<longleftrightarrow>
     V21_SEGMENT_CODE_MIN \<le> segmentCode \<and> segmentCode \<le> V21_SEGMENT_CODE_MAX"

definition validateSegmentCode :: "int \<Rightarrow> unit res" where
  "validateSegmentCode segmentCode =
     (if isV2WholeFileSegmentCode segmentCode \<or> isV21SegmentCode segmentCode then Inr ()
      else Inl (ErrorObj (''unsupported segment_code: '' @ dec_int segmentCode)))"

text \<open>\<open>(1 << (index + 4)) * 1024 * 1024\<close>; after the checks \<open>index\<close> is between 0 and 4.\<close>

definition decodeSegmentPlaintextBytesV21 :: "int \<Rightarrow> int res" where
  "decodeSegmentPlaintextBytesV21 segmentCode =
     rbind (validateSegmentCode segmentCode) (\<lambda>_.
     if isV2WholeFileSegmentCode segmentCode
     then Inl (ErrorObj ''decodeSegmentPlaintextBytesV21 requires a V2.1 segment_code'')
     else let index = segmentCode - 1 in Inr (push_bit (nat (index + 4)) 1 * 1024 * 1024))"

text \<open>
  \<open>Math.ceil(byteLength / segmentBytes)\<close>: the divisor is a power of two, so the
  floating-point quotient is exact and the ceiling is that of the rational quotient.
\<close>

definition countGcmSegmentsForFileSize :: "jsnum \<Rightarrow> int \<Rightarrow> int res" where
  "countGcmSegmentsForFileSize byteLength segmentCode =
     (if \<not> num_isFinite byteLength \<or> num_less byteLength (Fin 0) then Inl byteLength_error
      else rbind (validateSegmentCode segmentCode) (\<lambda>_.
        if byteLength = Fin 0 then Inr 1
        else if isV2WholeFileSegmentCode segmentCode then Inr 1
        else rbind (decodeSegmentPlaintextBytesV21 segmentCode) (\<lambda>segmentBytes.
          case byteLength of Fin b \<Rightarrow> Inr \<lceil>b / of_int segmentBytes\<rceil> | _ \<Rightarrow> Inr 0)))"

lemma validateSegmentCode_ok: "validateSegmentCode c = Inr u \<longleftrightarrow> 0 \<le> c \<and> c \<le> 5"
  by (auto simp: validateSegmentCode_def isV2WholeFileSegmentCode_def isV21SegmentCode_def)

lemma decode_ok_iff:
  "decodeSegmentPlaintextBytesV21 c = Inr s \<longleftrightarrow>
     1 \<le> c \<and> c \<le> 5 \<and> s = 2 ^ nat (c + 3) * MiB"
proof -
  have "nat (c - 1 + 4) = nat (c + 3)" by simp
  then show ?thesis
    by (auto simp: decodeSegmentPlaintextBytesV21_def rbind_Inr_iff validateSegmentCode_ok
        isV2WholeFileSegmentCode_def push_bit_eq_mult Let_def)
qed

lemma decode_pos: "decodeSegmentPlaintextBytesV21 c = Inr s \<Longrightarrow> 0 < s"
  by (simp add: decode_ok_iff)

lemma selectSegmentCode_int:
  "selectSegmentCodeForFileSize (Fin (of_int n)) =
     (if n < 0 then Inl byteLength_error
      else if n \<le> 16 * MiB then Inr 0 else if 64 * MiB < n then Inr 3 else Inr 4)"
  by (simp add: selectSegmentCodeForFileSize_def)

lemma selectSegmentCode_valid:
  "selectSegmentCodeForFileSize b = Inr c \<Longrightarrow> validateSegmentCode c = Inr ()"
  by (auto simp: selectSegmentCodeForFileSize_def validateSegmentCode_ok split: if_splits)

lemma countGcmSegments_cases:
  "countGcmSegmentsForFileSize (Fin b) c = Inr k \<longleftrightarrow>
     0 \<le> b \<and> 0 \<le> c \<and> c \<le> 5 \<and>
     k = (if b = 0 \<or> c = 0 then 1 else \<lceil>b / of_int (2 ^ nat (c + 3) * MiB)\<rceil>)"
proof -
  have c: "c \<noteq> 0 \<Longrightarrow> 0 \<le> c \<Longrightarrow> c \<le> 5 \<Longrightarrow>
      decodeSegmentPlaintextBytesV21 c = Inr (2 ^ nat (c + 3) * MiB)"
    by (simp add: decode_ok_iff)
  show ?thesis
    by (auto simp: countGcmSegmentsForFileSize_def rbind_Inr_iff validateSegmentCode_ok
        isV2WholeFileSegmentCode_def c)
qed

section \<open>Wire block policy\<close>

definition WIRE_BLOCK_BYTES_16_MIB :: int where
  "WIRE_BLOCK_BYTES_16_MIB = 16 * MiB"

definition WIRE_BLOCK_BYTES_32_MIB :: int where
  "WIRE_BLOCK_BYTES_32_MIB = 32 * MiB"

definition DEFAULT_RELAY_MAX_BODY_BYTES :: int where
  "DEFAULT_RELAY_MAX_BODY_BYTES = WIRE_BLOCK_BYTES_32_MIB"

definition LARGE_FILE_WIRE_BLOCK_THRESHOLD_BYTES :: int where
  "LARGE_FILE_WIRE_BLOCK_THRESHOLD_BYTES = 128 * MiB"

lemmas wire_consts [simp] =
  WIRE_BLOCK_BYTES_16_MIB_def WIRE_BLOCK_BYTES_32_MIB_def DEFAULT_RELAY_MAX_BODY_BYTES_def
  LARGE_FILE_WIRE_BLOCK_THRESHOLD_BYTES_def

record choose_wire_options =
  co_fileSizeBytes :: jsnum
  co_relayMaxBodyBytes :: "int option"
  co_preferConservative :: "bool option"
  co_isMobile :: "bool option"

definition resolve_mobile :: "runtime_env \<Rightarrow> bool option \<Rightarrow> bool" where
  "resolve_mobile env override \<longleftrightarrow>
     override = Some True \<or> (override \<noteq> Some False \<and> isLikelyMobileBrowser env)"

definition choosePolicyWireBlockBytes :: "runtime_env \<Rightarrow> choose_wire_options \<Rightarrow> int res" where
  "choosePolicyWireBlockBytes env options =
     (if \<not> num_isFinite (co_fileSizeBytes options) \<or>
         num_less (co_fileSizeBytes options) (Fin 0)
      then Inl (ErrorObj ''fileSizeBytes must be a non-negative finite number'')
      else if co_preferConservative options = Some True \<or>
              resolve_mobile env (co_isMobile options) \<or>
              num_less (co_fileSizeBytes options)
                (Fin (of_int LARGE_FILE_WIRE_BLOCK_THRESHOLD_BYTES))
      then Inr WIRE_BLOCK_BYTES_16_MIB
      else Inr WIRE_BLOCK_BYTES_32_MIB)"

text \<open>\<open>config.relay?.maxBodyBytes\<close> is the argument; a configured value is truncated.\<close>

definition resolveRelayMaxBodyBytes :: "jsnum option \<Rightarrow> int res" where
  "resolveRelayMaxBodyBytes maxBodyBytes = (case maxBodyBytes of
     None \<Rightarrow> Inr DEFAULT_RELAY_MAX_BODY_BYTES
   | Some value \<Rightarrow>
       if \<not> num_isFinite value \<or> num_le value (Fin 0)
       then Inl (ErrorObj ''relay.maxBodyBytes must be a positive finite number'')
       else (case value of Fin r \<Rightarrow> Inr (trunc_rat r) | _ \<Rightarrow> Inr 0))"

definition resolveEffectiveWireBlockBytes :: "runtime_env \<Rightarrow> choose_wire_options \<Rightarrow> int res" where
  "resolveEffectiveWireBlockBytes env options =
     (let relayMax = (case co_relayMaxBodyBytes options of
                        Some m \<Rightarrow> m | None \<Rightarrow> DEFAULT_RELAY_MAX_BODY_BYTES)
      in rbind (choosePolicyWireBlockBytes env options) (\<lambda>policy. Inr (min relayMax policy)))"

definition uploadMapUses32MiBWireBlocks :: "upload_map \<Rightarrow> bool" where
  "uploadMapUses32MiBWireBlocks uploads \<longleftrightarrow>
     list_ex (\<lambda>(token, blob). int (length blob) > WIRE_BLOCK_BYTES_16_MIB) uploads"

definition resolveUploadUses32MiBWireBlocks :: "upload_map \<Rightarrow> int option \<Rightarrow> bool" where
  "resolveUploadUses32MiBWireBlocks uploads wireBlockBytes = (case wireBlockBytes of
     Some w \<Rightarrow> w > WIRE_BLOCK_BYTES_16_MIB
   | None \<Rightarrow> uploadMapUses32MiBWireBlocks uploads)"

lemma choosePolicy_values:
  "choosePolicyWireBlockBytes env opts = Inr w \<Longrightarrow> w = 16 * MiB \<or> w = 32 * MiB"
  by (auto simp: choosePolicyWireBlockBytes_def split: if_splits)

lemma choosePolicy_total:
  "0 \<le> n \<Longrightarrow> co_fileSizeBytes opts = Fin n \<Longrightarrow>
     \<exists>w. choosePolicyWireBlockBytes env opts = Inr w"
  by (auto simp: choosePolicyWireBlockBytes_def)

lemma resolveRelayMax_nonneg: "resolveRelayMaxBodyBytes v = Inr m \<Longrightarrow> 0 \<le> m"
  by (auto simp: resolveRelayMaxBodyBytes_def trunc_rat_nonneg num_isFinite_iff
      split: option.splits if_splits)

section \<open>Properties\<close>

text \<open>C32. Every file size gets a supported segment code, and the number of encryption segments is
  the one the code's segment size needs: a whole-file code only up to 16 MiB with one segment,
  otherwise segments of \<open>2^(code+3)\<close> MiB that together just cover the file, with no empty last
  segment.\<close>

theorem segment_policy_covers_file:
  assumes "0 \<le> n"
  shows "\<exists>c k. selectSegmentCodeForFileSize (Fin (of_int n)) = Inr c \<and>
    countGcmSegmentsForFileSize (Fin (of_int n)) c = Inr k \<and> 1 \<le> k \<and>
    (isV2WholeFileSegmentCode c \<longrightarrow> n \<le> 16 * MiB \<and> k = 1) \<and>
    (\<not> isV2WholeFileSegmentCode c \<longrightarrow> (\<exists>s. decodeSegmentPlaintextBytesV21 c = Inr s \<and>
       s \<le> 128 * MiB \<and> (k - 1) * s < n \<and> n \<le> k * s))"
proof -
  have ceil: "countGcmSegmentsForFileSize (Fin (of_int n)) c = Inr \<lceil>(of_int n :: rat) / of_int s\<rceil> \<and>
      1 \<le> \<lceil>(of_int n :: rat) / of_int s\<rceil> \<and> (\<lceil>(of_int n :: rat) / of_int s\<rceil> - 1) * s < n \<and>
      n \<le> \<lceil>(of_int n :: rat) / of_int s\<rceil> * s"
    if n: "16 * MiB < n" and c: "1 \<le> c" "c \<le> 5" "s = 2 ^ nat (c + 3) * MiB" for c s
  proof -
    let ?q = "(of_int n :: rat) / of_int s"
    have s: "0 < s" using c(3) by simp
    have q: "?q \<le> of_int \<lceil>?q\<rceil>" "of_int \<lceil>?q\<rceil> < ?q + 1" by linarith+
    have "of_int n \<le> (of_int (\<lceil>?q\<rceil> * s) :: rat)"
      by (metis q(1) pos_divide_le_eq of_int_0_less_iff of_int_mult s)
    moreover have "(of_int ((\<lceil>?q\<rceil> - 1) * s) :: rat) < of_int n"
    proof -
      have "(of_int \<lceil>?q\<rceil> - 1 :: rat) < ?q" using q(2) by linarith
      then show ?thesis using s by (simp add: pos_less_divide_eq)
    qed
    moreover have "0 < ?q" using n s by simp
    moreover from this have "1 \<le> \<lceil>?q\<rceil>" by linarith
    moreover have "countGcmSegmentsForFileSize (Fin (of_int n)) c = Inr \<lceil>?q\<rceil>"
      using n c by (simp add: countGcmSegments_cases)
    ultimately show ?thesis by (simp only: of_int_le_iff of_int_less_iff)
  qed
  consider "n \<le> 16 * MiB" | "16 * MiB < n" "n \<le> 64 * MiB" | "64 * MiB < n" by linarith
  then show ?thesis
  proof cases
    case 1
    then have "selectSegmentCodeForFileSize (Fin (of_int n)) = Inr 0"
      using assms by (simp add: selectSegmentCode_int)
    moreover have "countGcmSegmentsForFileSize (Fin (of_int n)) 0 = Inr 1"
      using assms by (simp add: countGcmSegments_cases)
    ultimately show ?thesis using 1
      by (intro exI [of _ 0] exI [of _ 1]) (simp add: isV2WholeFileSegmentCode_def)
  next
    case 2
    then have "selectSegmentCodeForFileSize (Fin (of_int n)) = Inr 4"
      using assms by (simp add: selectSegmentCode_int)
    moreover have "decodeSegmentPlaintextBytesV21 4 = Inr (128 * MiB)" by (simp add: decode_ok_iff)
    ultimately show ?thesis using ceil [of 4 "128 * MiB"] 2
      by (intro exI [of _ 4] exI [of _ "\<lceil>(of_int n :: rat) / of_int (128 * MiB)\<rceil>"])
        (simp add: isV2WholeFileSegmentCode_def)
  next
    case 3
    then have "selectSegmentCodeForFileSize (Fin (of_int n)) = Inr 3"
      using assms by (simp add: selectSegmentCode_int)
    moreover have "decodeSegmentPlaintextBytesV21 3 = Inr (64 * MiB)" by (simp add: decode_ok_iff)
    ultimately show ?thesis using ceil [of 3 "64 * MiB"] 3
      by (intro exI [of _ 3] exI [of _ "\<lceil>(of_int n :: rat) / of_int (64 * MiB)\<rceil>"])
        (simp add: isV2WholeFileSegmentCode_def)
  qed
qed

lemma segment_policy_covers_file_witness:
  "\<exists>c k. selectSegmentCodeForFileSize (Fin 209715200) = Inr c \<and>
     countGcmSegmentsForFileSize (Fin 209715200) c = Inr k \<and> 1 \<le> k"
  using segment_policy_covers_file [of 209715200] by auto

text \<open>The wire block size an upload uses never exceeds what the relay accepts nor 32 MiB, and
  is at most 16 MiB on mobile browsers, on request, and for files under 128 MiB.\<close>

theorem effective_wire_block_bounds:
  assumes "resolveEffectiveWireBlockBytes env opts = Inr w"
    and "0 < default_relay" "default_relay = (case co_relayMaxBodyBytes opts of Some m \<Rightarrow> m
           | None \<Rightarrow> DEFAULT_RELAY_MAX_BODY_BYTES)"
  shows "0 < w \<and> w \<le> default_relay \<and> w \<le> WIRE_BLOCK_BYTES_32_MIB \<and>
    (co_preferConservative opts = Some True \<or> resolve_mobile env (co_isMobile opts) \<or>
     num_less (co_fileSizeBytes opts) (Fin (of_int LARGE_FILE_WIRE_BLOCK_THRESHOLD_BYTES)) \<longrightarrow>
       w \<le> WIRE_BLOCK_BYTES_16_MIB)"
  using assms
  by (auto simp: resolveEffectiveWireBlockBytes_def rbind_Inr_iff Let_def
      choosePolicyWireBlockBytes_def split: if_splits)

lemma effective_wire_block_bounds_witness:
  "\<exists>w. resolveEffectiveWireBlockBytes \<lparr>env_navigator = None, env_window = False, env_vars = (\<lambda>_. None)\<rparr>
     \<lparr>co_fileSizeBytes = Fin 1000, co_relayMaxBodyBytes = Some 4096, co_preferConservative = None,
      co_isMobile = Some True\<rparr> = Inr w \<and> 0 < w \<and> w \<le> 4096"
proof -
  let ?env = "\<lparr>env_navigator = None, env_window = False, env_vars = (\<lambda>_. None)\<rparr>"
  let ?o = "\<lparr>co_fileSizeBytes = Fin 1000, co_relayMaxBodyBytes = Some 4096,
    co_preferConservative = None, co_isMobile = Some True\<rparr>"
  obtain w where w: "resolveEffectiveWireBlockBytes ?env ?o = Inr w"
    by (simp add: resolveEffectiveWireBlockBytes_def choosePolicyWireBlockBytes_def Let_def)
  from effective_wire_block_bounds [OF w, of 4096] w show ?thesis by auto
qed

text \<open>An untyped byte length is accepted exactly when it is an integer between 0 and
  \<open>2^53 - 1\<close>, given as a bigint, a number, or a string that denotes one; two accepted lengths
  compare equal exactly when the integers are.\<close>

theorem toSafeByteLength_exact:
  "(toSafeByteLength toNumber v label = Inr i \<longleftrightarrow>
      0 \<le> i \<and> i \<le> max_safe_integer \<and>
      (v = BigIntV i \<or> v = NumberV (Fin (of_int i)) \<or>
       (\<exists>s. v = StringV s \<and> trim s \<noteq> [] \<and> toNumber s = Fin (of_int i)))) \<and>
   (byteLengthsEqual toNumber l r = Inr b \<longleftrightarrow>
      (\<exists>j k. toSafeByteLength toNumber l ''byteLength'' = Inr j \<and>
             toSafeByteLength toNumber r ''byteLength'' = Inr k \<and> b = (j = k)))"
proof
  show "toSafeByteLength toNumber v label = Inr i \<longleftrightarrow>
      0 \<le> i \<and> i \<le> max_safe_integer \<and>
      (v = BigIntV i \<or> v = NumberV (Fin (of_int i)) \<or>
       (\<exists>s. v = StringV s \<and> trim s \<noteq> [] \<and> toNumber s = Fin (of_int i)))"
  proof (cases v)
    case (BigIntV j)
    have "num_isSafeInteger (Fin (of_int j)) \<longleftrightarrow> \<bar>j\<bar> \<le> max_safe_integer"
      by (simp add: num_isSafeInteger_def flip: of_int_abs)
    with BigIntV show ?thesis by (auto simp: toSafeByteLength_def)
  qed (auto simp: toSafeByteLength_def toSafeByteLength_number_ok simp del: toSafeByteLength_number.simps)
qed (auto simp: byteLengthsEqual_def rbind_Inr_iff)

end
