(* ===== verification/Prefetch.thy ===== *)
theory Prefetch
  imports Sizes
begin

text \<open>
  The receive plan of \<open>protocol/receive-plan.ts\<close> (which token indices to fetch or cancel once
  the token count is known), the prefetch width of \<open>protocol/receive-prefetch-policy.ts\<close>
  (how many blocks fit a memory budget) and the download name of
  \<open>protocol/received-file-name.ts\<close>. The token derivation is WebAssembly code and a
  parameter \<open>derive\<close>. Block sizes and budgets are integers: the callers pass values that went
  through \<open>toSafeByteLength\<close> or \<open>Math.trunc\<close>.
\<close>

section \<open>Receive plan\<close>

record receive_download_plan =
  rp_numTokens :: int
  rp_initialPrefetch :: "string list"
  rp_cancelAfterSmb :: "string list"
  rp_fetchAfterSmb :: "string list"

definition index_tokens :: "(string \<Rightarrow> int \<Rightarrow> string) \<Rightarrow> string \<Rightarrow> int \<Rightarrow> int \<Rightarrow> string list" where
  "index_tokens derive search from_index to_index =
     map (derive search) [from_index..to_index - 1]"

definition deriveIndexTokens ::
    "(string \<Rightarrow> int \<Rightarrow> string) \<Rightarrow> string \<Rightarrow> int \<Rightarrow> int \<Rightarrow> string list res" where
  "deriveIndexTokens derive search startInclusive endExclusive =
     (if endExclusive < startInclusive then Inl (ErrorObj ''invalid token index range'')
      else Inr (index_tokens derive search startInclusive endExclusive))"

definition computeReceiveDownloadPlan ::
    "(string \<Rightarrow> int \<Rightarrow> string) \<Rightarrow> string \<Rightarrow> int \<Rightarrow> int \<Rightarrow> receive_download_plan res" where
  "computeReceiveDownloadPlan derive search initialTokens numTokens =
     (if initialTokens \<le> 0
      then Inl (ErrorObj ''initial token count must be greater than zero'')
      else rbind (deriveIndexTokens derive search 0 initialTokens) (\<lambda>prefetch.
        let plan = \<lparr>rp_numTokens = numTokens, rp_initialPrefetch = prefetch,
                    rp_cancelAfterSmb = [], rp_fetchAfterSmb = []\<rparr>
        in if initialTokens < numTokens
           then rbind (deriveIndexTokens derive search initialTokens numTokens)
                  (\<lambda>ts. Inr (plan\<lparr>rp_fetchAfterSmb := ts\<rparr>))
           else if numTokens < initialTokens
           then rbind (deriveIndexTokens derive search numTokens initialTokens)
                  (\<lambda>ts. Inr (plan\<lparr>rp_cancelAfterSmb := ts\<rparr>))
           else Inr plan))"

lemma index_tokens_append:
  "a \<le> b \<Longrightarrow> b \<le> c \<Longrightarrow>
     index_tokens d s a b @ index_tokens d s b c = index_tokens d s a c"
  by (cases "b = c") (simp_all add: index_tokens_def upto_split1 [of a b "c - 1"])

lemma index_tokens_empty [simp]: "b \<le> a \<Longrightarrow> index_tokens d s a b = []"
  by (simp add: index_tokens_def)

lemma set_index_tokens: "set (index_tokens d s a b) = d s ` {i. a \<le> i \<and> i < b}"
  by (auto simp: index_tokens_def)

lemma length_index_tokens [simp]: "length (index_tokens d s a b) = nat (b - a)"
  by (simp add: index_tokens_def)

lemma deriveIndexTokens_ok [simp]:
  "a \<le> b \<Longrightarrow> deriveIndexTokens d s a b = Inr (index_tokens d s a b)"
  by (simp add: deriveIndexTokens_def)

lemma computeReceiveDownloadPlan_ok:
  "0 < m \<Longrightarrow> computeReceiveDownloadPlan d s m n =
     Inr \<lparr>rp_numTokens = n, rp_initialPrefetch = index_tokens d s 0 m,
          rp_cancelAfterSmb = (if n < m then index_tokens d s n m else []),
          rp_fetchAfterSmb = (if m < n then index_tokens d s m n else [])\<rparr>"
  by (simp add: computeReceiveDownloadPlan_def Let_def)

section \<open>Prefetch width\<close>

definition DEFAULT_BROWSER_RECEIVE_MEMORY_BUDGET_BYTES :: int where
  "DEFAULT_BROWSER_RECEIVE_MEMORY_BUDGET_BYTES = 96 * MiB"

definition MOBILE_BROWSER_RECEIVE_MEMORY_BUDGET_BYTES :: int where
  "MOBILE_BROWSER_RECEIVE_MEMORY_BUDGET_BYTES = 48 * MiB"

definition MIN_BROWSER_RECEIVE_MEMORY_BUDGET_BYTES :: int where
  "MIN_BROWSER_RECEIVE_MEMORY_BUDGET_BYTES = 32 * MiB"

definition MAX_BROWSER_RECEIVE_MEMORY_BUDGET_BYTES :: int where
  "MAX_BROWSER_RECEIVE_MEMORY_BUDGET_BYTES = 192 * MiB"

definition MAX_MOBILE_BROWSER_RECEIVE_MEMORY_BUDGET_BYTES :: int where
  "MAX_MOBILE_BROWSER_RECEIVE_MEMORY_BUDGET_BYTES = 64 * MiB"

definition MIN_BROWSER_RECEIVE_PREFETCH :: int where
  "MIN_BROWSER_RECEIVE_PREFETCH = 2"

definition MAX_BROWSER_RECEIVE_PREFETCH :: int where
  "MAX_BROWSER_RECEIVE_PREFETCH = 64"

lemmas prefetch_consts [simp] =
  DEFAULT_BROWSER_RECEIVE_MEMORY_BUDGET_BYTES_def MOBILE_BROWSER_RECEIVE_MEMORY_BUDGET_BYTES_def
  MIN_BROWSER_RECEIVE_MEMORY_BUDGET_BYTES_def MAX_BROWSER_RECEIVE_MEMORY_BUDGET_BYTES_def
  MAX_MOBILE_BROWSER_RECEIVE_MEMORY_BUDGET_BYTES_def MIN_BROWSER_RECEIVE_PREFETCH_def
  MAX_BROWSER_RECEIVE_PREFETCH_def

text \<open>A non-numeric \<open>navigator.deviceMemory\<close> is \<open>None\<close> in the model's \<open>navigator\<close> already.\<close>

definition readNavigatorDeviceMemoryGiB :: "runtime_env \<Rightarrow> jsnum option" where
  "readNavigatorDeviceMemoryGiB env = (case env_navigator env of
     None \<Rightarrow> None
   | Some nav \<Rightarrow> (case deviceMemory nav of
       None \<Rightarrow> None
     | Some value \<Rightarrow>
         if \<not> num_isFinite value \<or> num_le value (Fin 0) then None else Some value))"

definition or_else :: "'a option \<Rightarrow> 'a option \<Rightarrow> 'a option" where
  "or_else a b = (case a of Some x \<Rightarrow> Some x | None \<Rightarrow> b)"

definition default_to :: "'a option \<Rightarrow> 'a \<Rightarrow> 'a" where
  "default_to a d = (case a of Some x \<Rightarrow> x | None \<Rightarrow> d)"

lemma default_to_simps [simp]: "default_to None d = d" "default_to (Some x) d = x"
  by (simp_all add: default_to_def)

record probe_options =
  po_deviceMemoryGiB :: "jsnum option"
  po_isMobile :: "bool option"

definition probeBrowserReceiveMemoryBudgetBytes :: "runtime_env \<Rightarrow> probe_options \<Rightarrow> int" where
  "probeBrowserReceiveMemoryBudgetBytes env options =
     (let mobile = resolve_mobile env (po_isMobile options);
          deviceMemoryGiB = or_else (po_deviceMemoryGiB options)
                              (readNavigatorDeviceMemoryGiB env);
          budget = (case deviceMemoryGiB of
              None \<Rightarrow> if mobile then MOBILE_BROWSER_RECEIVE_MEMORY_BUDGET_BYTES
                      else DEFAULT_BROWSER_RECEIVE_MEMORY_BUDGET_BYTES
            | Some d \<Rightarrow>
                if num_le d (Fin 1) then 32 * MiB
                else if num_le d (Fin 2) then 48 * MiB
                else if num_le d (Fin 4) then 96 * MiB
                else if num_le d (Fin 8) then 128 * MiB
                else 192 * MiB);
          budget' = (if mobile then min budget MAX_MOBILE_BROWSER_RECEIVE_MEMORY_BUDGET_BYTES
                     else budget)
      in max MIN_BROWSER_RECEIVE_MEMORY_BUDGET_BYTES
           (min MAX_BROWSER_RECEIVE_MEMORY_BUDGET_BYTES budget'))"

record prefetch_options =
  pf_explicit :: "int option"
  pf_memoryBudgetBytes :: "int option"
  pf_min :: "int option"
  pf_max :: "int option"
  pf_deviceMemoryGiB :: "jsnum option"
  pf_isMobile :: "bool option"
  pf_relayMaxBodyBytes :: "int option"

definition no_prefetch_options :: prefetch_options where
  "no_prefetch_options =
     \<lparr>pf_explicit = None, pf_memoryBudgetBytes = None, pf_min = None, pf_max = None,
      pf_deviceMemoryGiB = None, pf_isMobile = None, pf_relayMaxBodyBytes = None\<rparr>"

definition resolveBrowserReceivePrefetchCount ::
    "runtime_env \<Rightarrow> int \<Rightarrow> prefetch_options \<Rightarrow> int" where
  "resolveBrowserReceivePrefetchCount env wireBlockBytes options =
     (case pf_explicit options of
        Some e \<Rightarrow> max 1 e
      | None \<Rightarrow>
          let budget = default_to (pf_memoryBudgetBytes options)
                (probeBrowserReceiveMemoryBudgetBytes env
                   \<lparr>po_deviceMemoryGiB = pf_deviceMemoryGiB options,
                    po_isMobile = pf_isMobile options\<rparr>);
              mn = default_to (pf_min options) MIN_BROWSER_RECEIVE_PREFETCH;
              mx = default_to (pf_max options) MAX_BROWSER_RECEIVE_PREFETCH
          in if wireBlockBytes \<le> 0 then mn
             else max mn (min mx (budget div wireBlockBytes)))"

definition resolveReceivePrefetchCount ::
    "runtime_env \<Rightarrow> int \<Rightarrow> prefetch_options \<Rightarrow> int" where
  "resolveReceivePrefetchCount env wireBlockBytes options =
     (let blockBytes = (if 0 < wireBlockBytes then wireBlockBytes
                        else default_to (pf_relayMaxBodyBytes options)
                               DEFAULT_RELAY_MAX_BODY_BYTES)
      in if isBrowserRuntime env
         then resolveBrowserReceivePrefetchCount env blockBytes options
         else default_to (pf_explicit options) DEFAULT_INITIAL_TOKENS)"

lemma probe_bounds:
  "32 * MiB \<le> probeBrowserReceiveMemoryBudgetBytes env o1"
  "probeBrowserReceiveMemoryBudgetBytes env o1 \<le> 192 * MiB"
  by (simp_all add: probeBrowserReceiveMemoryBudgetBytes_def Let_def)

lemma probe_mobile_cap:
  "resolve_mobile env (po_isMobile o1) \<Longrightarrow>
     probeBrowserReceiveMemoryBudgetBytes env o1 \<le> 64 * MiB"
  by (simp add: probeBrowserReceiveMemoryBudgetBytes_def Let_def)

lemma prefetch_fits_budget:
  assumes "0 < w" and "default_to (pf_min opts) 2 < m"
    and "m = resolveBrowserReceivePrefetchCount env w opts" and "pf_explicit opts = None"
  shows "m * w \<le> default_to (pf_memoryBudgetBytes opts)
           (probeBrowserReceiveMemoryBudgetBytes env
              \<lparr>po_deviceMemoryGiB = pf_deviceMemoryGiB opts, po_isMobile = pf_isMobile opts\<rparr>)"
    (is "_ \<le> ?budget")
proof -
  have m: "m \<le> ?budget div w"
    using assms by (auto simp: resolveBrowserReceivePrefetchCount_def Let_def split: if_splits)
  have "m * w \<le> (?budget div w) * w"
    using m assms(1) by (simp add: mult_right_mono)
  also have "\<dots> \<le> ?budget"
    using assms(1) by (simp add: minus_mod_eq_div_mult [symmetric])
  finally show ?thesis .
qed

section \<open>Received file name\<close>

text \<open>\<open>/[<>:"/\\|?*\u0000-\u001f]/g\<close>\<close>

definition is_invalid_name_char :: "char \<Rightarrow> bool" where
  "is_invalid_name_char c \<longleftrightarrow>
     c \<in> {CHR ''<'', CHR ''>'', CHR '':'', CHR 0x22, CHR ''/'', CHR 0x5C, CHR ''|'',
          CHR ''?'', CHR ''*''} \<or> (of_char c :: nat) \<le> 31"

definition is_dot_or_space :: "char \<Rightarrow> bool" where
  "is_dot_or_space c \<longleftrightarrow> c = CHR ''.'' \<or> c = CHR '' ''"

definition resolveReceivedFileName :: "string \<Rightarrow> string \<Rightarrow> string" where
  "resolveReceivedFileName originalFileName credential =
     (let trimmed = trim originalFileName;
          base = rev (dropWhile is_dot_or_space
                   (rev (map (\<lambda>c. if is_invalid_name_char c then CHR ''_'' else c) trimmed)))
      in if trimmed \<noteq> [] \<and> base \<noteq> [] \<and> base \<noteq> ''.'' \<and> base \<noteq> ''..''
         then base else ''received-'' @ credential)"

definition safe_name :: "string \<Rightarrow> bool" where
  "safe_name s \<longleftrightarrow> s \<noteq> [] \<and> s \<noteq> ''.'' \<and> s \<noteq> ''..'' \<and> \<not> is_dot_or_space (last s) \<and>
     list_all (\<lambda>c. \<not> is_invalid_name_char c) s"

lemma last_dropWhile_rev:
  "rev (dropWhile P (rev xs)) \<noteq> [] \<Longrightarrow> \<not> P (last (rev (dropWhile P (rev xs))))"
  by (metis hd_dropWhile last_rev rev_is_Nil_conv)

lemma set_rev_dropWhile: "set (rev (dropWhile P (rev xs))) \<subseteq> set xs"
  by (metis set_dropWhileD set_rev subsetI)

lemma underscore_valid: "\<not> is_invalid_name_char CHR ''_''"
  by (simp add: is_invalid_name_char_def)

section \<open>Properties\<close>

text \<open>C30. Once the token count \<open>n\<close> is known, what was prefetched, what is cancelled and what is
  still fetched partition the file's tokens: with at least \<open>n\<close> prefetched, the prefetch is the
  file's tokens followed by the cancelled ones, otherwise prefetch and fetch together are the
  file's tokens in order and nothing is cancelled.\<close>

theorem receive_plan_partition:
  assumes "computeReceiveDownloadPlan derive search m n = Inr plan" "0 \<le> n"
  shows "0 < m \<and> rp_initialPrefetch plan = index_tokens derive search 0 m \<and>
    (if n \<le> m
     then rp_initialPrefetch plan = index_tokens derive search 0 n @ rp_cancelAfterSmb plan \<and>
          rp_fetchAfterSmb plan = []
     else rp_initialPrefetch plan @ rp_fetchAfterSmb plan = index_tokens derive search 0 n \<and>
          rp_cancelAfterSmb plan = [])"
proof -
  have m: "0 < m" using assms(1) by (simp add: computeReceiveDownloadPlan_def split: if_splits)
  then show ?thesis
    using assms index_tokens_append [of 0 n m derive search]
      index_tokens_append [of 0 m n derive search]
    by (auto simp: computeReceiveDownloadPlan_ok)
qed

lemma receive_plan_partition_witness:
  "\<exists>plan. computeReceiveDownloadPlan (\<lambda>s i. s @ dec_int i) ''ABCDEF'' 4 2 = Inr plan \<and>
     rp_initialPrefetch plan = [''ABCDEF0'', ''ABCDEF1''] @ rp_cancelAfterSmb plan"
proof -
  let ?d = "\<lambda>s i. s @ dec_int i"
  obtain plan where plan: "computeReceiveDownloadPlan ?d ''ABCDEF'' 4 2 = Inr plan"
    by (simp add: computeReceiveDownloadPlan_ok)
  have "index_tokens ?d ''ABCDEF'' 0 2 = [''ABCDEF0'', ''ABCDEF1'']" by code_simp
  moreover have "rp_initialPrefetch plan = index_tokens ?d ''ABCDEF'' 0 2 @ rp_cancelAfterSmb plan"
    using receive_plan_partition [OF plan, simplified] by blast
  ultimately show ?thesis using plan by simp
qed



text \<open>A received file is saved under a safe name whatever the sender put in the metadata: not
  empty, not \<open>.\<close> or \<open>..\<close>, without path separators, control or reserved characters and without a
  trailing dot or space, provided the credential of the fallback name has none of those.\<close>

theorem received_name_safe:
  assumes "credential \<noteq> []" "list_all (\<lambda>c. \<not> is_invalid_name_char c) credential"
    "\<not> is_dot_or_space (last credential)"
  shows "safe_name (resolveReceivedFileName original credential)"
proof -
  let ?mapped = "map (\<lambda>c. if is_invalid_name_char c then CHR ''_'' else c) (trim original)"
  let ?base = "rev (dropWhile is_dot_or_space (rev ?mapped))"
  show ?thesis
  proof (cases "trim original \<noteq> [] \<and> ?base \<noteq> [] \<and> ?base \<noteq> ''.'' \<and> ?base \<noteq> ''..''")
    case True
    have "list_all (\<lambda>c. \<not> is_invalid_name_char c) ?base"
      using set_rev_dropWhile [of is_dot_or_space ?mapped] underscore_valid
      by (auto simp: list_all_iff)
    moreover have "\<not> is_dot_or_space (last ?base)" using True last_dropWhile_rev [of is_dot_or_space ?mapped] by blast
    ultimately show ?thesis
      using True by (simp add: resolveReceivedFileName_def Let_def safe_name_def)
  next
    case False
    then have "resolveReceivedFileName original credential = ''received-'' @ credential"
      unfolding resolveReceivedFileName_def Let_def by (rule if_not_P)
    then show ?thesis
      using assms by (simp add: safe_name_def is_invalid_name_char_def)
  qed
qed

lemma received_name_safe_witness:
  "safe_name (resolveReceivedFileName ''../etc/passwd'' ''Abc-12345678'')"
  by (rule received_name_safe) (simp_all add: is_invalid_name_char_def is_dot_or_space_def)

end
