(* ===== verification/Registry.thy ===== *)
theory Registry
  imports Prefetch
begin

text \<open>
  The client of the registry server, \<open>router/registry-client.ts\<close>: the placement records, the
  parsing of \<open>resolve\<close> and \<open>reserve-tokens\<close> responses, the HTTP client
  (\<open>HttpRegistryClient\<close>) over a \<open>fetch\<close> parameter, and the batching client
  (\<open>CoalescingRegistryClient\<close>) as a queue of waiters with a scheduled flush. The interface
  \<open>RegistryClient\<close> is the locale \<open>registry_lookup\<close>; the HTTP client interprets it.
\<close>

section \<open>Records of the registry\<close>

datatype target_role = Primary | Replica

record relay_target =
  tg_role :: target_role
  tg_relayId :: string
  tg_relayBaseUrl :: string

datatype resolve_status = Ready | Expired | Unavailable

text \<open>\<open>headers\<close> is any JSON object: the source casts it without looking at the values.\<close>

record registry_record =
  rr_targets :: "relay_target list"
  rr_headers :: "json option"
  rr_resolveStatus :: "resolve_status option"

type_synonym registry_map = "(string, registry_record) jsmap"

record block_hash_entry =
  bh_token :: string
  bh_blockHash :: string

record placement_failure =
  pf_token :: string
  pf_relayId :: string

record placement_plan =
  pp_stripeCount :: jsnum
  pp_replicaFactor :: jsnum
  pp_relayCount :: jsnum
  pp_idealRelayCount :: jsnum

record reserve_meta =
  rs_grantedTtlSeconds :: jsnum
  rs_requestedTtlSeconds :: jsnum
  rs_degraded :: bool
  rs_placementPlan :: "placement_plan option"

record reserve_result = reserve_meta +
  rs_routes :: registry_map

definition find_primary :: "registry_record \<Rightarrow> relay_target option" where
  "find_primary r = find (\<lambda>t. tg_role t = Primary) (rr_targets r)"

definition primaryTarget :: "registry_record \<Rightarrow> relay_target res" where
  "primaryTarget r = (case find_primary r of
     None \<Rightarrow> Inl (ErrorObj ''registry record missing primary target'')
   | Some p \<Rightarrow> Inr p)"

definition isResolvableRegistryRecord :: "registry_record \<Rightarrow> bool" where
  "isResolvableRegistryRecord r = (case find_primary r of
     None \<Rightarrow> False | Some p \<Rightarrow> tg_relayBaseUrl p \<noteq> [])"

lemma find_primary_None_iff:
  "find_primary r = None \<longleftrightarrow> (\<forall>t \<in> set (rr_targets r). tg_role t \<noteq> Primary)"
  by (auto simp: find_primary_def find_None_iff)

lemma find_primary_Some:
  "find_primary r = Some p \<Longrightarrow> p \<in> set (rr_targets r) \<and> tg_role p = Primary"
  by (auto simp: find_primary_def find_Some_iff)

section \<open>Parsing placement records\<close>

definition defaultResolveUrl :: "string \<Rightarrow> string" where
  "defaultResolveUrl registryBaseUrl = strip_slash registryBaseUrl @ ''/api/relay/resolve''"

definition defaultBuildResolveRequestBody :: "string list \<Rightarrow> json" where
  "defaultBuildResolveRequestBody tokens = JObj [(''tokens'', JArr (map JStr tokens))]"

definition parse_role :: "json option \<Rightarrow> target_role option" where
  "parse_role v = (if v = Some (JStr ''primary'') then Some Primary
                   else if v = Some (JStr ''replica'') then Some Replica else None)"

definition normalizeTarget :: "string \<Rightarrow> json \<Rightarrow> relay_target res" where
  "normalizeTarget token value =
     (if \<not> is_object value
      then Inl (ErrorObj (''registry target for '' @ token @ '' is not an object''))
      else case parse_role (jprop ''role'' value) of
        None \<Rightarrow> Inl (ErrorObj (''registry target for '' @ token @ '' has invalid role''))
      | Some role \<Rightarrow>
          (case (opt_string (jprop ''relayId'' value), opt_string (jprop ''relayBaseUrl'' value)) of
             (Some relayId, Some relayBaseUrl) \<Rightarrow>
               Inr \<lparr>tg_role = role, tg_relayId = relayId,
                    tg_relayBaseUrl = strip_slash relayBaseUrl\<rparr>
           | _ \<Rightarrow> Inl (ErrorObj
               (''registry target for '' @ token @ '' missing relayId or relayBaseUrl''))))"

definition parseResolveStatus :: "json option \<Rightarrow> resolve_status option" where
  "parseResolveStatus v =
     (if v = Some (JStr ''ready'') then Some Ready
      else if v = Some (JStr ''expired'') then Some Expired
      else if v = Some (JStr ''unavailable'') then Some Unavailable else None)"

definition has_primary :: "relay_target list \<Rightarrow> bool" where
  "has_primary ts \<longleftrightarrow> list_ex (\<lambda>t. tg_role t = Primary) ts"

definition normalizeRecord :: "string \<Rightarrow> json \<Rightarrow> registry_record res" where
  "normalizeRecord token value =
     (if \<not> is_object value
      then Inl (ErrorObj (''registry entry for '' @ token @ '' is not an object''))
      else case jprop ''targets'' value of
        Some (JArr raw) \<Rightarrow>
          if raw = [] then
            Inr \<lparr>rr_targets = [], rr_headers = opt_object (jprop ''headers'' value),
                 rr_resolveStatus =
                   Some (default_to (parseResolveStatus (jprop ''resolveStatus'' value))
                           Unavailable)\<rparr>
          else rbind (rmap (normalizeTarget token) raw) (\<lambda>targets.
            if \<not> has_primary targets
            then Inl (ErrorObj (''registry entry for '' @ token @ '' missing primary target''))
            else Inr \<lparr>rr_targets = targets, rr_headers = opt_object (jprop ''headers'' value),
                      rr_resolveStatus =
                        Some (default_to (parseResolveStatus (jprop ''resolveStatus'' value))
                                Ready)\<rparr>)
      | _ \<Rightarrow> Inl (ErrorObj (''registry entry for '' @ token @ '' missing targets array'')))"

fun collect_routes :: "json list \<Rightarrow> registry_map \<Rightarrow> registry_map res" where
  "collect_routes [] m = Inr m"
| "collect_routes (item # items) m =
     (if \<not> is_object item then collect_routes items m
      else case opt_string (jprop ''token'' item) of
        None \<Rightarrow> collect_routes items m
      | Some token \<Rightarrow>
          rbind (normalizeRecord token item) (\<lambda>r. collect_routes items (jm_set token r m)))"

definition missing_record :: registry_record where
  "missing_record = \<lparr>rr_targets = [], rr_headers = None, rr_resolveStatus = Some Unavailable\<rparr>"

fun fill_missing :: "string list \<Rightarrow> registry_map \<Rightarrow> registry_map" where
  "fill_missing [] m = m"
| "fill_missing (token # tokens) m =
     fill_missing tokens
       (if jm_get m token = None then jm_set token missing_record m else m)"

definition defaultParseResponse :: "json \<Rightarrow> string list \<Rightarrow> registry_map res" where
  "defaultParseResponse body tokens =
     (if \<not> is_object body then Inl (ErrorObj ''registry batch response is not an object'')
      else case jprop ''routes'' body of
        Some (JArr routes) \<Rightarrow>
          rbind (collect_routes routes []) (\<lambda>m. Inr (fill_missing tokens m))
      | _ \<Rightarrow> Inl (ErrorObj ''registry batch response missing routes array''))"

text \<open>What a parsed record satisfies: it is either empty or has a primary.\<close>

definition wf_record :: "registry_record \<Rightarrow> bool" where
  "wf_record r \<longleftrightarrow> (rr_targets r = [] \<or> has_primary (rr_targets r)) \<and>
     rr_resolveStatus r \<noteq> None"

definition wf_map :: "registry_map \<Rightarrow> bool" where
  "wf_map m \<longleftrightarrow> jm_wf m \<and> (\<forall>t r. jm_get m t = Some r \<longrightarrow> wf_record r)"

lemma normalizeRecord_wf: "normalizeRecord token v = Inr r \<Longrightarrow> wf_record r"
  by (auto simp: normalizeRecord_def wf_record_def rbind_Inr_iff
      split: if_splits option.splits json.splits)

lemma wf_map_Nil [simp]: "wf_map []"
  by (simp add: wf_map_def)

lemma wf_map_set: "wf_map m \<Longrightarrow> wf_record r \<Longrightarrow> wf_map (jm_set t r m)"
  by (auto simp: wf_map_def jm_get_set split: if_splits)

lemma collect_routes_wf: "collect_routes items m = Inr m' \<Longrightarrow> wf_map m \<Longrightarrow> wf_map m'"
  by (induction items m rule: collect_routes.induct)
    (auto simp: rbind_Inr_iff intro: wf_map_set normalizeRecord_wf
      split: if_splits option.splits)

lemma missing_record_wf [simp]: "wf_record missing_record"
  by (simp add: wf_record_def missing_record_def)

lemma fill_missing_wf: "wf_map m \<Longrightarrow> wf_map (fill_missing tokens m)"
  by (induction tokens m rule: fill_missing.induct) (simp_all add: wf_map_set)

lemma fill_missing_get:
  "jm_get (fill_missing tokens m) t =
     (if jm_get m t = None \<and> t \<in> set tokens then Some missing_record else jm_get m t)"
  by (induction tokens m rule: fill_missing.induct) (auto simp: jm_get_set)

lemma defaultParseResponse_ok:
  assumes "defaultParseResponse body tokens = Inr m"
  shows "wf_map m" and "set tokens \<subseteq> set (jm_keys m)"
proof -
  obtain routes m0 where m0: "collect_routes routes [] = Inr m0" "m = fill_missing tokens m0"
    using assms
    by (auto simp: defaultParseResponse_def rbind_Inr_iff split: if_splits option.splits json.splits)
  show "wf_map m"
    using m0 by (simp add: fill_missing_wf collect_routes_wf)
  show "set tokens \<subseteq> set (jm_keys m)"
  proof
    fix t assume "t \<in> set tokens"
    then have "jm_get m t \<noteq> None" by (simp add: m0(2) fill_missing_get)
    then show "t \<in> set (jm_keys m)" by (simp only: jm_get_None_iff) simp
  qed
qed

section \<open>Reserve responses\<close>

definition parsePlacementPlan :: "json option \<Rightarrow> placement_plan option" where
  "parsePlacementPlan v = (case opt_object v of
     None \<Rightarrow> None
   | Some r \<Rightarrow>
       (case (opt_number (jprop ''stripeCount'' r), opt_number (jprop ''replicaFactor'' r),
              opt_number (jprop ''relayCount'' r), opt_number (jprop ''idealRelayCount'' r)) of
          (Some s, Some f, Some c, Some i) \<Rightarrow>
            Some \<lparr>pp_stripeCount = s, pp_replicaFactor = f, pp_relayCount = c,
                  pp_idealRelayCount = i\<rparr>
        | _ \<Rightarrow> None))"

definition parseReserveUploadResponse ::
    "json \<Rightarrow> string list \<Rightarrow> jsnum option \<Rightarrow> reserve_result res" where
  "parseReserveUploadResponse body tokens fallbackRequestedTtlSeconds =
     rbind (defaultParseResponse body tokens) (\<lambda>routes.
     if \<not> is_object body then
       let requested = default_to fallbackRequestedTtlSeconds (Fin 0)
       in Inr \<lparr>rs_grantedTtlSeconds = requested, rs_requestedTtlSeconds = requested,
               rs_degraded = False, rs_placementPlan = None, rs_routes = routes\<rparr>
     else
       let requestedFromBody = opt_number (jprop ''requestedTtlSeconds'' body);
           grantedFromBody = opt_number (jprop ''grantedTtlSeconds'' body);
           requested = default_to requestedFromBody
             (default_to fallbackRequestedTtlSeconds (default_to grantedFromBody (Fin 0)));
           granted = default_to grantedFromBody requested;
           plan = parsePlacementPlan (jprop ''placementPlan'' body);
           degraded = (jprop ''degraded'' body = Some (JBool True) \<or> num_less granted requested \<or>
             (case plan of Some p \<Rightarrow> num_less (pp_relayCount p) (pp_idealRelayCount p)
                         | None \<Rightarrow> False))
       in Inr \<lparr>rs_grantedTtlSeconds = granted, rs_requestedTtlSeconds = requested,
               rs_degraded = degraded, rs_placementPlan = plan, rs_routes = routes\<rparr>)"

fun collect_occupied :: "json list \<Rightarrow> occupied_token list" where
  "collect_occupied [] = []"
| "collect_occupied (item # items) =
     (case (opt_string (jprop ''token'' item), opt_string (jprop ''expiryAt'' item)) of
        (Some t, Some e) \<Rightarrow>
          \<lparr>occ_token = t, occ_expiryAt = e,
           occ_blockHash = opt_string (jprop ''blockHash'' item)\<rparr> # collect_occupied items
      | _ \<Rightarrow> collect_occupied items)"

definition parseOccupiedTokens :: "json \<Rightarrow> occupied_token list" where
  "parseOccupiedTokens body = (case jprop ''occupiedTokens'' body of
     Some (JArr items) \<Rightarrow> collect_occupied items | _ \<Rightarrow> [])"

section \<open>The HTTP client\<close>

record http_request =
  rq_method :: string
  rq_url :: string
  rq_headers :: "(string, json) jsmap"
  rq_body :: "json option"

text \<open>\<open>response.json()\<close> may reject: its outcome is a result.\<close>

record http_response =
  re_status :: nat
  re_json :: "json res"

definition response_ok :: "http_response \<Rightarrow> bool" where
  "response_ok r \<longleftrightarrow> 200 \<le> re_status r \<and> re_status r \<le> 299"

type_synonym 'w fetch_fn = "http_request \<Rightarrow> ('w, http_response) act"

text \<open>Object spread \<open>{...base, ...over}\<close>.\<close>

definition spread :: "('k, 'v) jsmap \<Rightarrow> ('k, 'v) jsmap \<Rightarrow> ('k, 'v) jsmap" where
  "spread base over = fold (\<lambda>(k, v). jm_set k v) over base"

record http_registry_options =
  ho_registryBaseUrl :: string
  ho_headers :: "(string, json) jsmap"
  ho_resolveUrl :: "(string \<Rightarrow> string) option"
  ho_buildResolveRequestBody :: "(string list \<Rightarrow> json) option"
  ho_parseResponse :: "(json \<Rightarrow> string list \<Rightarrow> registry_map res) option"

definition json_headers :: "http_registry_options \<Rightarrow> (string, json) jsmap" where
  "json_headers opts = spread [(''Content-Type'', JStr ''application/json'')] (ho_headers opts)"

definition lookup_request :: "http_registry_options \<Rightarrow> string list \<Rightarrow> http_request" where
  "lookup_request opts unique =
     \<lparr>rq_method = ''POST'',
      rq_url = default_to (ho_resolveUrl opts) defaultResolveUrl (ho_registryBaseUrl opts),
      rq_headers = json_headers opts,
      rq_body = Some (default_to (ho_buildResolveRequestBody opts)
                        defaultBuildResolveRequestBody unique)\<rparr>"

text \<open>The \<open>detail\<close> of an error body, if there is one.\<close>

definition error_detail :: "json res \<Rightarrow> string" where
  "error_detail r = (case r of
     Inr body \<Rightarrow> (case opt_string (jprop ''detail'' body) of
                   Some d \<Rightarrow> '': '' @ d | None \<Rightarrow> [])
   | Inl _ \<Rightarrow> [])"

definition http_lookupRelays ::
    "http_registry_options \<Rightarrow> 'w fetch_fn \<Rightarrow> string list \<Rightarrow> ('w, registry_map) act" where
  "http_lookupRelays opts fetch tokens =
     (let unique = js_unique tokens
      in if unique = [] then areturn []
         else abind (fetch (lookup_request opts unique)) (\<lambda>response.
           if \<not> response_ok response
           then athrow (ErrorObj (''registry batch lookup failed: HTTP '' @
                  dec (re_status response) @ error_detail (re_json response)))
           else abind (alift (re_json response)) (\<lambda>body.
             alift (default_to (ho_parseResponse opts) defaultParseResponse body unique))))"

definition dedup_entries :: "block_hash_entry list \<Rightarrow> (string, string) jsmap" where
  "dedup_entries entries = fold (\<lambda>e. jm_set (bh_token e) (bh_blockHash e)) entries []"

definition reserve_request ::
    "http_registry_options \<Rightarrow> (string, string) jsmap \<Rightarrow> jsnum option \<Rightarrow> http_request" where
  "reserve_request opts unique ttl =
     \<lparr>rq_method = ''POST'',
      rq_url = strip_slash (ho_registryBaseUrl opts) @ ''/api/relay/reserve-tokens'',
      rq_headers = json_headers opts,
      rq_body = Some (JObj ((''blocks'', JArr (map (\<lambda>(token, blockHash).
          JObj [(''token'', JStr token), (''blockHash'', JStr blockHash)]) unique)) #
        (case ttl of None \<Rightarrow> [] | Some t \<Rightarrow> [(''ttlSeconds'', JNum t)])))\<rparr>"

definition http_reserveUploadBlocks ::
    "http_registry_options \<Rightarrow> 'w fetch_fn \<Rightarrow> block_hash_entry list \<Rightarrow> jsnum option \<Rightarrow>
     ('w, reserve_result) act" where
  "http_reserveUploadBlocks opts fetch entries ttl =
     (if entries = [] then
        let requested = default_to ttl (Fin 0)
        in areturn \<lparr>rs_grantedTtlSeconds = requested, rs_requestedTtlSeconds = requested,
                    rs_degraded = False, rs_placementPlan = None, rs_routes = []\<rparr>
      else
        let unique = dedup_entries entries
        in abind (fetch (reserve_request opts unique ttl)) (\<lambda>response.
          if re_status response = 409
          then abind (alift (re_json response)) (\<lambda>body.
                 athrow (RegistryTokenOccupiedError (parseOccupiedTokens body)))
          else if \<not> response_ok response
          then athrow (ErrorObj (''registry reserve-tokens failed: HTTP '' @
                 dec (re_status response)))
          else abind (alift (re_json response)) (\<lambda>body.
                 alift (parseReserveUploadResponse body (jm_keys unique) ttl))))"

definition abandon_request ::
    "http_registry_options \<Rightarrow> placement_failure list \<Rightarrow> http_request" where
  "abandon_request opts failures =
     \<lparr>rq_method = ''POST'',
      rq_url = strip_slash (ho_registryBaseUrl opts) @ ''/api/relay/abandon-replica-placements'',
      rq_headers = json_headers opts,
      rq_body = Some (JObj [(''failures'', JArr (map (\<lambda>f.
        JObj [(''token'', JStr (pf_token f)), (''relayId'', JStr (pf_relayId f))]) failures))])\<rparr>"

definition http_abandonReplicaPlacements ::
    "http_registry_options \<Rightarrow> 'w fetch_fn \<Rightarrow> placement_failure list \<Rightarrow> ('w, unit) act" where
  "http_abandonReplicaPlacements opts fetch failures =
     (if failures = [] then areturn ()
      else abind (fetch (abandon_request opts failures)) (\<lambda>response.
        if \<not> response_ok response
        then athrow (ErrorObj (''registry abandon-replica-placements failed: HTTP '' @
               dec (re_status response)))
        else areturn ()))"

text \<open>\<open>lookupRelay\<close>: one token, through the batch interface of any client.\<close>

definition lookupRelay ::
    "(string list \<Rightarrow> ('w, registry_map) act) \<Rightarrow> string \<Rightarrow> ('w, registry_record) act" where
  "lookupRelay lookupRelays token =
     abind (lookupRelays [token]) (\<lambda>m.
       case jm_get m token of
         Some r \<Rightarrow> if isResolvableRegistryRecord r then areturn r
                   else athrow (ErrorObj (''registry missing token '' @ token))
       | None \<Rightarrow> athrow (ErrorObj (''registry missing token '' @ token)))"

section \<open>The lookup interface\<close>

text \<open>
  What the download side relies on: a lookup that returns covers every requested token, with
  well-formed records.
\<close>

locale registry_lookup =
  fixes lookup :: "string list \<Rightarrow> ('w, registry_map) act"
  assumes lookup_covers: "lookup ts w = (Inr m, w') \<Longrightarrow> set ts \<subseteq> set (jm_keys m)"
    and lookup_wf: "lookup ts w = (Inr m, w') \<Longrightarrow> wf_map m"
begin

lemma lookup_get:
  assumes "lookup ts w = (Inr m, w')" and "t \<in> set ts"
  obtains r where "jm_get m t = Some r" and "wf_record r"
proof -
  have "jm_get m t \<noteq> None"
    using lookup_covers [OF assms(1)] assms(2) by (auto simp: jm_get_None_iff)
  then obtain r where "jm_get m t = Some r" by auto
  moreover from this have "wf_record r"
    using lookup_wf [OF assms(1)] by (auto simp: wf_map_def)
  ultimately show thesis by (rule that)
qed

lemma lookupRelay_result:
  assumes "lookupRelay lookup t w = (Inr r, w')"
  shows "has_primary (rr_targets r) \<and> (\<exists>p. primaryTarget r = Inr p \<and> tg_relayBaseUrl p \<noteq> [])"
proof -
  from assms have r: "isResolvableRegistryRecord r"
    by (auto simp: lookupRelay_def abind_Inr_iff split: option.splits if_splits)
  then obtain p where p: "find_primary r = Some p" "tg_relayBaseUrl p \<noteq> []"
    by (auto simp: isResolvableRegistryRecord_def split: option.splits)
  then show ?thesis
    using find_primary_Some [OF p(1)]
    by (auto simp: primaryTarget_def has_primary_def list_ex_iff)
qed

end

lemma http_lookupRelays_Inr:
  "http_lookupRelays opts fetch tokens w = (Inr m, w') \<Longrightarrow>
     (tokens = [] \<and> m = []) \<or>
     (\<exists>body. default_to (ho_parseResponse opts) defaultParseResponse body (js_unique tokens) = Inr m)"
  by (auto simp: http_lookupRelays_def Let_def abind_Inr_iff js_unique_def split: if_splits)

lemma http_lookup_default:
  assumes "ho_parseResponse opts = None"
    and "http_lookupRelays opts fetch tokens w = (Inr m, w')"
  shows "wf_map m" and "set tokens \<subseteq> set (jm_keys m)"
  using http_lookupRelays_Inr [OF assms(2)] assms(1) defaultParseResponse_ok
  by fastforce+

interpretation http: registry_lookup "http_lookupRelays (opts\<lparr>ho_parseResponse := None\<rparr>) fetch"
proof unfold_locales
  fix ts w m w'
  assume ok: "http_lookupRelays (opts\<lparr>ho_parseResponse := None\<rparr>) fetch ts w = (Inr m, w')"
  show "set ts \<subseteq> set (jm_keys m)"
    by (rule http_lookup_default(2) [OF _ ok]) simp
  show "wf_map m"
    by (rule http_lookup_default(1) [OF _ ok]) simp
qed

section \<open>Coalescing concurrent lookups\<close>

text \<open>
  The waiters queued in one turn of the event loop, identified by a caller number, and whether a
  microtask to flush them is queued.
\<close>

record coalescing =
  cw_waiters :: "(nat \<times> string list) list"
  cw_flushScheduled :: bool

definition coalescing_init :: coalescing where
  "coalescing_init = \<lparr>cw_waiters = [], cw_flushScheduled = False\<rparr>"

text \<open>
  \<open>lookupRelays\<close>: an empty request resolves at once (\<open>Some\<close>), any other waits. \<open>scheduleFlush\<close>
  queues at most one microtask.
\<close>

definition coalescing_lookup ::
    "nat \<Rightarrow> string list \<Rightarrow> coalescing \<Rightarrow> registry_map res option \<times> coalescing" where
  "coalescing_lookup caller tokens s =
     (let unique = js_unique tokens
      in if unique = [] then (Some (Inr []), s)
         else (None, s\<lparr>cw_waiters := cw_waiters s @ [(caller, unique)],
                       cw_flushScheduled := True\<rparr>))"

fun slice_for :: "registry_map \<Rightarrow> string list \<Rightarrow> registry_map \<Rightarrow> registry_map res" where
  "slice_for results [] slice = Inr slice"
| "slice_for results (token # tokens) slice =
     (case jm_get results token of
        None \<Rightarrow> Inl (ErrorObj (''registry missing token '' @ token))
      | Some r \<Rightarrow> slice_for results tokens (jm_set token r slice))"

text \<open>
  Waiters are resolved in order; at the first missing token the \<open>catch\<close> rejects every waiter,
  which only reaches those not resolved yet.
\<close>

fun settle_waiters ::
    "registry_map \<Rightarrow> (nat \<times> string list) list \<Rightarrow> (nat \<times> registry_map res) list" where
  "settle_waiters results [] = []"
| "settle_waiters results ((caller, tokens) # rest) =
     (case slice_for results tokens [] of
        Inr slice \<Rightarrow> (caller, Inr slice) # settle_waiters results rest
      | Inl e \<Rightarrow> (caller, Inl e) # map (\<lambda>(c, _). (c, Inl e)) rest)"

definition coalescing_flush ::
    "(string list \<Rightarrow> ('w, registry_map) act) \<Rightarrow> coalescing \<Rightarrow> 'w \<Rightarrow>
     (nat \<times> registry_map res) list \<times> coalescing \<times> 'w" where
  "coalescing_flush inner s w =
     (let waiters = cw_waiters s;
          s' = s\<lparr>cw_waiters := [], cw_flushScheduled := False\<rparr>
      in if waiters = [] then ([], s', w)
         else let batch = js_unique (concat (map snd waiters))
              in (case inner batch w of
                    (Inr results, w') \<Rightarrow> (settle_waiters results waiters, s', w')
                  | (Inl e, w') \<Rightarrow> (map (\<lambda>(c, _). (c, Inl e)) waiters, s', w')))"

definition coalescing_inv :: "coalescing \<Rightarrow> bool" where
  "coalescing_inv s \<longleftrightarrow> (cw_waiters s \<noteq> [] \<longrightarrow> cw_flushScheduled s) \<and>
     (\<forall>(c, ts) \<in> set (cw_waiters s). distinct ts \<and> ts \<noteq> [])"

lemma coalescing_inv_init [simp]: "coalescing_inv coalescing_init"
  by (simp add: coalescing_inv_def coalescing_init_def)

lemma coalescing_inv_lookup:
  "coalescing_inv s \<Longrightarrow> coalescing_inv (snd (coalescing_lookup c ts s))"
  by (auto simp: coalescing_inv_def coalescing_lookup_def Let_def)

lemma coalescing_inv_flush: "coalescing_inv (fst (snd (coalescing_flush inner s w)))"
  by (auto simp: coalescing_inv_def coalescing_flush_def Let_def split: prod.splits sum.splits)

lemma slice_for_covered:
  "set ts \<subseteq> set (jm_keys results) \<Longrightarrow> distinct ts \<Longrightarrow> set ts \<inter> set (jm_keys acc) = {} \<Longrightarrow>
     slice_for results ts acc = Inr (acc @ map (\<lambda>t. (t, the (jm_get results t))) ts)"
proof (induction ts arbitrary: acc)
  case Nil
  then show ?case by simp
next
  case (Cons t ts)
  then obtain r where r: "jm_get results t = Some r"
    by (metis jm_get_None_iff list.set_intros(1) not_None_eq subsetD)
  have new: "jm_set t r acc = acc @ [(t, r)]"
    using Cons.prems(3) by (intro jm_set_new) auto
  have "slice_for results ts (acc @ [(t, r)]) =
      Inr ((acc @ [(t, r)]) @ map (\<lambda>t. (t, the (jm_get results t))) ts)"
    using Cons.prems by (intro Cons.IH) auto
  with r new show ?case by simp
qed

lemma settle_waiters_covered:
  "(\<And>c ts. (c, ts) \<in> set ws \<Longrightarrow> set ts \<subseteq> set (jm_keys results) \<and> distinct ts) \<Longrightarrow>
     settle_waiters results ws =
       map (\<lambda>(c, ts). (c, Inr (map (\<lambda>t. (t, the (jm_get results t))) ts))) ws"
proof (induction ws)
  case Nil
  then show ?case by simp
next
  case (Cons w ws)
  obtain c ts where w: "w = (c, ts)" by (cases w)
  have "slice_for results ts [] = Inr (map (\<lambda>t. (t, the (jm_get results t))) ts)"
    using Cons.prems [of c ts] w slice_for_covered [of ts results "[]"] by simp
  moreover have "settle_waiters results ws =
      map (\<lambda>(c, ts). (c, Inr (map (\<lambda>t. (t, the (jm_get results t))) ts))) ws"
    using Cons.prems by (intro Cons.IH) (meson list.set_intros(2))
  ultimately show ?case by (simp add: w)
qed

context registry_lookup
begin

lemma flush_serves_all:
  assumes inv: "coalescing_inv s" and ne: "cw_waiters s \<noteq> []"
    and ok: "lookup (js_unique (concat (map snd (cw_waiters s)))) w = (Inr results, w')"
  shows "coalescing_flush lookup s w =
    (map (\<lambda>(c, ts). (c, Inr (map (\<lambda>t. (t, the (jm_get results t))) ts))) (cw_waiters s),
     s\<lparr>cw_waiters := [], cw_flushScheduled := False\<rparr>, w')"
proof -
  have cover: "set (concat (map snd (cw_waiters s))) \<subseteq> set (jm_keys results)"
    using lookup_covers [OF ok] by simp
  have "settle_waiters results (cw_waiters s) =
      map (\<lambda>(c, ts). (c, Inr (map (\<lambda>t. (t, the (jm_get results t))) ts))) (cw_waiters s)"
    using cover inv by (intro settle_waiters_covered) (fastforce simp: coalescing_inv_def)+
  then show ?thesis
    using ne ok by (simp add: coalescing_flush_def Let_def)
qed

end

section \<open>Properties\<close>

text \<open>C25. A parsed batch response covers every requested token, with tokens the server does not
  mention recorded as unavailable, and every record in it is well formed: it has a status and
  either no target at all or a primary among its targets.\<close>

theorem parse_response_covers:
  assumes "defaultParseResponse body tokens = Inr m"
  shows "wf_map m \<and> (\<forall>t \<in> set tokens. \<exists>r. jm_get m t = Some r \<and>
    (rr_targets r = [] \<or> (\<exists>p. primaryTarget r = Inr p)) \<and>
    (isResolvableRegistryRecord r \<longrightarrow> rr_targets r \<noteq> []))"
proof (intro conjI ballI)
  show "wf_map m" using defaultParseResponse_ok(1) [OF assms] .
  fix t assume "t \<in> set tokens"
  then have "jm_get m t \<noteq> None"
    using defaultParseResponse_ok(2) [OF assms] by (auto simp: jm_get_None_iff)
  then obtain r where r: "jm_get m t = Some r" by auto
  then have "wf_record r" using defaultParseResponse_ok(1) [OF assms] by (auto simp: wf_map_def)
  then have "rr_targets r = [] \<or> find_primary r \<noteq> None"
    by (auto simp: wf_record_def has_primary_def list_ex_iff find_primary_None_iff)
  moreover have "isResolvableRegistryRecord r \<longrightarrow> rr_targets r \<noteq> []"
    by (auto simp: isResolvableRegistryRecord_def find_primary_def)
  ultimately show "\<exists>r. jm_get m t = Some r \<and>
      (rr_targets r = [] \<or> (\<exists>p. primaryTarget r = Inr p)) \<and>
      (isResolvableRegistryRecord r \<longrightarrow> rr_targets r \<noteq> [])"
    using r by (intro exI [of _ r]) (auto simp: primaryTarget_def)
qed

definition demo_registry_body :: json where
  "demo_registry_body = JObj [(''routes'', JArr [JObj [(''token'', JStr ''A''),
     (''targets'', JArr [JObj [(''role'', JStr ''primary''), (''relayId'', JStr ''r1''),
        (''relayBaseUrl'', JStr ''https://r1/'')]])]])]"

lemma parse_response_covers_witness:
  "\<exists>m r. defaultParseResponse demo_registry_body [''A'', ''B''] = Inr m \<and>
     jm_get m ''B'' = Some r \<and> \<not> isResolvableRegistryRecord r"
proof -
  have "defaultParseResponse demo_registry_body [''A'', ''B''] =
      Inr [(''A'', \<lparr>rr_targets = [\<lparr>tg_role = Primary, tg_relayId = ''r1'', tg_relayBaseUrl = ''https://r1''\<rparr>],
             rr_headers = None, rr_resolveStatus = Some Ready\<rparr>), (''B'', missing_record)]"
    by code_simp
  moreover from parse_response_covers [OF this] have "\<exists>r. jm_get [(''A'', \<lparr>rr_targets = [\<lparr>tg_role = Primary, tg_relayId = ''r1'', tg_relayBaseUrl = ''https://r1''\<rparr>],
             rr_headers = None, rr_resolveStatus = Some Ready\<rparr>), (''B'', missing_record)] ''B'' = Some r"
    by fastforce
  ultimately show ?thesis by (simp add: missing_record_def isResolvableRegistryRecord_def find_primary_def)
qed

lemma dedup_keys: "set (jm_keys (fold (\<lambda>e. jm_set (bh_token e) (bh_blockHash e)) es m)) =
    set (jm_keys m) \<union> bh_token ` set es"
  by (induction es arbitrary: m) auto

lemma parseReserve_ok:
  assumes "parseReserveUploadResponse body tokens ttl = Inr r"
  shows "defaultParseResponse body tokens = Inr (rs_routes r)"
    "num_less (rs_grantedTtlSeconds r) (rs_requestedTtlSeconds r) \<longrightarrow> rs_degraded r \<or> \<not> is_object body"
  using assms by (auto simp: parseReserveUploadResponse_def rbind_Inr_iff Let_def split: if_splits)

text \<open>C26. A successful reservation covers every block: its routes have a well-formed record for
  each token sent, and whenever the granted lifetime is shorter than the requested one the result
  is marked degraded.\<close>

theorem reserve_covers_blocks:
  assumes "http_reserveUploadBlocks opts fetch entries ttl w = (Inr r, w')"
  shows "wf_map (rs_routes r) \<and> bh_token ` set entries \<subseteq> set (jm_keys (rs_routes r)) \<and>
    (entries \<noteq> [] \<and> num_less (rs_grantedTtlSeconds r) (rs_requestedTtlSeconds r) \<longrightarrow> rs_degraded r)"
proof (cases "entries = []")
  case True
  then show ?thesis using assms by (auto simp: http_reserveUploadBlocks_def Let_def)
next
  case False
  then obtain body where "parseReserveUploadResponse body (jm_keys (dedup_entries entries)) ttl = Inr r"
    using assms by (auto simp: http_reserveUploadBlocks_def Let_def abind_Inr_iff split: if_splits)
  note ok = parseReserve_ok [OF this]
  have "is_object body" using ok(1) by (auto simp: defaultParseResponse_def split: if_splits)
  then show ?thesis
    using ok defaultParseResponse_ok [OF ok(1)] False dedup_keys [of entries "[]"]
    by (auto simp: dedup_entries_def)
qed

definition demo_registry_options :: http_registry_options where
  "demo_registry_options = \<lparr>ho_registryBaseUrl = ''https://reg'', ho_headers = [],
     ho_resolveUrl = None, ho_buildResolveRequestBody = None, ho_parseResponse = None\<rparr>"

definition demo_reserve_fetch :: "unit fetch_fn" where
  "demo_reserve_fetch rq u = (Inr \<lparr>re_status = 200, re_json = Inr demo_registry_body\<rparr>, u)"

lemma reserve_covers_blocks_witness:
  "\<exists>r. http_reserveUploadBlocks demo_registry_options demo_reserve_fetch
      [\<lparr>bh_token = ''A'', bh_blockHash = ''00''\<rparr>] (Some (Fin 60)) () = (Inr r, ()) \<and>
      ''A'' \<in> set (jm_keys (rs_routes r))"
proof -
  let ?run = "http_reserveUploadBlocks demo_registry_options demo_reserve_fetch
      [\<lparr>bh_token = ''A'', bh_blockHash = ''00''\<rparr>] (Some (Fin 60)) ()"
  have "is_ok (fst ?run)" by code_simp
  then obtain r where r: "?run = (Inr r, ())" by (cases ?run) (auto simp: is_ok_iff)
  from reserve_covers_blocks [OF r] r show ?thesis by auto
qed

text \<open>When the registry answers a reservation with its 409 document, which nests the occupied
  tokens under \<open>detail\<close>, the client throws the occupied error without naming a single token: the
  parser only looks at the root of the document.\<close>

theorem occupied_detail_lost:
  assumes "fetch (reserve_request opts (dedup_entries entries) ttl) w =
      (Inr \<lparr>re_status = 409, re_json = Inr (JObj [(''detail'',
          JObj [(''message'', m), (''occupiedTokens'', JArr items)])])\<rparr>, w')"
    and "entries \<noteq> []"
  shows "http_reserveUploadBlocks opts fetch entries ttl w = (Inl (RegistryTokenOccupiedError []), w')"
  using assms by (simp add: http_reserveUploadBlocks_def Let_def abind_def parseOccupiedTokens_def)

definition demo_occupied_fetch :: "unit fetch_fn" where
  "demo_occupied_fetch rq u = (Inr \<lparr>re_status = 409, re_json = Inr (JObj [(''detail'',
      JObj [(''message'', JStr ''occupied''), (''occupiedTokens'', JArr [JObj
        [(''token'', JStr ''A''), (''expiryAt'', JStr ''2030'')]])])])\<rparr>, u)"

lemma occupied_detail_lost_witness:
  "http_reserveUploadBlocks demo_registry_options demo_occupied_fetch
     [\<lparr>bh_token = ''A'', bh_blockHash = ''00''\<rparr>] None () = (Inl (RegistryTokenOccupiedError []), ())"
  by (rule occupied_detail_lost [where m = "JStr ''occupied''" and items = "[JObj
        [(''token'', JStr ''A''), (''expiryAt'', JStr ''2030'')]]"])
    (simp_all add: demo_occupied_fetch_def)

text \<open>C27. Coalescing loses no lookup: when the batched HTTP lookup succeeds, the flush answers every
  queued caller exactly once, in order, each with exactly its own tokens and their records, and
  empties the queue.\<close>

theorem coalescing_serves_all:
  assumes "coalescing_inv s" "cw_waiters s \<noteq> []"
    and "http_lookupRelays (opts\<lparr>ho_parseResponse := None\<rparr>) fetch
           (js_unique (concat (map snd (cw_waiters s)))) w = (Inr results, w')"
  shows "coalescing_flush (http_lookupRelays (opts\<lparr>ho_parseResponse := None\<rparr>) fetch) s w =
    (map (\<lambda>(c, ts). (c, Inr (map (\<lambda>t. (t, the (jm_get results t))) ts))) (cw_waiters s),
     s\<lparr>cw_waiters := [], cw_flushScheduled := False\<rparr>, w') \<and>
    (\<forall>(c, ts) \<in> set (cw_waiters s). \<forall>t \<in> set ts. jm_get results t \<noteq> None)"
proof (rule conjI)
  show "coalescing_flush (http_lookupRelays (opts\<lparr>ho_parseResponse := None\<rparr>) fetch) s w =
    (map (\<lambda>(c, ts). (c, Inr (map (\<lambda>t. (t, the (jm_get results t))) ts))) (cw_waiters s),
     s\<lparr>cw_waiters := [], cw_flushScheduled := False\<rparr>, w')"
    by (rule http.flush_serves_all [OF assms])
  have "jm_get results t \<noteq> None" if "(c, ts) \<in> set (cw_waiters s)" "t \<in> set ts" for c ts t
  proof -
    from that have "ts \<in> set (map snd (cw_waiters s))" by (metis image_eqI list.set_map snd_conv)
    with that(2) have "t \<in> set (concat (map snd (cw_waiters s)))" by auto
    moreover have "set (concat (map snd (cw_waiters s))) \<subseteq> set (jm_keys results)"
      using http.lookup_covers [OF assms(3)] by (simp only: set_js_unique)
    ultimately have "t \<in> set (jm_keys results)" by (rule rev_subsetD)
    then show ?thesis by (simp only: jm_get_None_iff not_not)
  qed
  then show "\<forall>(c, ts) \<in> set (cw_waiters s). \<forall>t \<in> set ts. jm_get results t \<noteq> None" by blast
qed

definition demo_lookup_result :: registry_map where
  "demo_lookup_result = [(''A'', \<lparr>rr_targets = [\<lparr>tg_role = Primary, tg_relayId = ''r1'',
       tg_relayBaseUrl = ''https://r1''\<rparr>], rr_headers = None, rr_resolveStatus = Some Ready\<rparr>),
     (''B'', missing_record)]"

lemma coalescing_serves_all_witness:
  "coalescing_flush (http_lookupRelays (demo_registry_options\<lparr>ho_parseResponse := None\<rparr>) demo_reserve_fetch)
     \<lparr>cw_waiters = [(1, [''A'']), (2, [''B'', ''A''])], cw_flushScheduled = True\<rparr> () =
   ([(1, Inr [(''A'', the (jm_get demo_lookup_result ''A''))]),
     (2, Inr [(''B'', the (jm_get demo_lookup_result ''B'')), (''A'', the (jm_get demo_lookup_result ''A''))])],
    \<lparr>cw_waiters = [], cw_flushScheduled = False\<rparr>, ())"
proof -
  let ?s = "\<lparr>cw_waiters = [(1, [''A'']), (2, [''B'', ''A''])], cw_flushScheduled = True\<rparr>"
  have inv: "coalescing_inv ?s" by (simp add: coalescing_inv_def)
  have run: "http_lookupRelays (demo_registry_options\<lparr>ho_parseResponse := None\<rparr>) demo_reserve_fetch
      (js_unique (concat (map snd (cw_waiters ?s)))) () = (Inr demo_lookup_result, ())"
    by code_simp
  show ?thesis using coalescing_serves_all [OF inv _ run] by simp
qed

end
