(* ===== verification/Router.thy ===== *)
theory Router
  imports Registry
begin

text \<open>
  From placement records to URLs: \<open>router/endpoints-from-registry.ts\<close> and
  \<open>router/relay-router.ts\<close>. The interface \<open>RelayRouter\<close> is the locale \<open>relay_router\<close>,
  interpreted on the static router and on the registry router over the HTTP client.
\<close>

section \<open>URL components\<close>

text \<open>\<open>encodeURIComponent\<close> on Latin-1 strings: unreserved marks stay, other bytes of the UTF-8
  form are percent-encoded in upper-case hexadecimal.\<close>

definition is_unreserved :: "char \<Rightarrow> bool" where
  "is_unreserved c \<longleftrightarrow> (let n = (of_char c :: nat) in
     (48 \<le> n \<and> n \<le> 57) \<or> (65 \<le> n \<and> n \<le> 90) \<or> (97 \<le> n \<and> n \<le> 122) \<or>
     c \<in> {CHR ''-'', CHR ''_'', CHR ''.'', CHR ''!'', CHR ''~'', CHR ''*'', CHR 0x27,
          CHR ''('', CHR '')''})"

definition hex_upper :: "nat \<Rightarrow> char" where
  "hex_upper d = (if d < 10 then char_of (48 + d) else char_of (55 + d))"

definition percent_byte :: "nat \<Rightarrow> string" where
  "percent_byte b = [CHR ''%'', hex_upper (b div 16), hex_upper (b mod 16)]"

definition encode_char :: "char \<Rightarrow> string" where
  "encode_char c = (let n = (of_char c :: nat) in
     if is_unreserved c then [c]
     else if n < 128 then percent_byte n
     else percent_byte (192 + n div 64) @ percent_byte (128 + n mod 64))"

definition encodeURIComponent :: "string \<Rightarrow> string" where
  "encodeURIComponent s = concat (map encode_char s)"

lemma encode_unreserved: "list_all is_unreserved s \<Longrightarrow> encodeURIComponent s = s"
  by (induction s) (simp_all add: encodeURIComponent_def encode_char_def Let_def)

section \<open>Endpoints\<close>

text \<open>
  \<open>RelayEndpoint\<close>: the URL and headers of the preferred target, and the failover targets in
  order. \<open>fallbacks\<close> absent is the empty list: every reader uses \<open>fallbacks ?? []\<close>.
\<close>

record endpoint_base =
  ep_url :: string
  ep_headers :: "(string, json) jsmap option"

record relay_endpoint = endpoint_base +
  ep_fallbacks :: "endpoint_base list"

record replica_target =
  rt_relayId :: string
  rt_endpoint :: endpoint_base

type_synonym endpoint_map = "(string, relay_endpoint) jsmap"

definition endpointFromBase ::
    "string \<Rightarrow> string \<Rightarrow> (string, json) jsmap option \<Rightarrow> endpoint_base" where
  "endpointFromBase relayBaseUrl token headers =
     \<lparr>ep_url = strip_slash relayBaseUrl @ ''/'' @ encodeURIComponent token,
      ep_headers = headers\<rparr>"

definition with_fallbacks :: "endpoint_base \<Rightarrow> endpoint_base list \<Rightarrow> relay_endpoint" where
  "with_fallbacks b fs =
     \<lparr>ep_url = ep_url b, ep_headers = ep_headers b, ep_fallbacks = fs\<rparr>"

text \<open>\<open>{ ...record.headers, ...headers }\<close>: spreading \<open>undefined\<close> adds nothing.\<close>

definition merge_headers ::
    "json option \<Rightarrow> (string, json) jsmap option \<Rightarrow> (string, json) jsmap" where
  "merge_headers a b =
     spread (spread [] (case a of Some j \<Rightarrow> obj_entries j | None \<Rightarrow> [])) (default_to b [])"

definition endpointFromRegistryRecord ::
    "string \<Rightarrow> registry_record \<Rightarrow> (string, json) jsmap option \<Rightarrow> relay_endpoint res" where
  "endpointFromRegistryRecord token record headers =
     (let mergedHeaders = merge_headers (rr_headers record) headers
      in case find_primary record of
           None \<Rightarrow> Inl (ErrorObj (''registry record for '' @ token @ '' missing primary target''))
         | Some primary \<Rightarrow>
             Inr (with_fallbacks
               (endpointFromBase (tg_relayBaseUrl primary) token (Some mergedHeaders)) []))"

definition downloadEndpointFromRegistryRecord ::
    "string \<Rightarrow> registry_record \<Rightarrow> (string, json) jsmap option \<Rightarrow> relay_endpoint res" where
  "downloadEndpointFromRegistryRecord token record headers =
     (let mergedHeaders = merge_headers (rr_headers record) headers
      in case rr_targets record of
           [] \<Rightarrow> Inl (ErrorObj (''registry record for '' @ token @ '' has no download targets''))
         | preferred # rest \<Rightarrow>
             Inr (with_fallbacks
               (endpointFromBase (tg_relayBaseUrl preferred) token (Some mergedHeaders))
               (map (\<lambda>target. endpointFromBase (tg_relayBaseUrl target) token
                                (Some mergedHeaders)) rest)))"

fun endpoints_loop :: "registry_map \<Rightarrow> endpoint_map \<Rightarrow> endpoint_map res" where
  "endpoints_loop [] acc = Inr acc"
| "endpoints_loop ((token, record) # routes) acc =
     rbind (endpointFromRegistryRecord token record None)
       (\<lambda>ep. endpoints_loop routes (jm_set token ep acc))"

definition endpointsFromRegistryMap :: "registry_map \<Rightarrow> endpoint_map res" where
  "endpointsFromRegistryMap routes = endpoints_loop routes []"

fun replica_targets_loop ::
    "registry_map \<Rightarrow> (string, replica_target list) jsmap \<Rightarrow> (string, replica_target list) jsmap"
where
  "replica_targets_loop [] acc = acc"
| "replica_targets_loop ((token, record) # routes) acc =
     (let replicaTargets = filter (\<lambda>t. tg_role t = Replica) (rr_targets record)
      in replica_targets_loop routes
           (if replicaTargets = [] then acc
            else jm_set token
              (map (\<lambda>target. \<lparr>rt_relayId = tg_relayId target,
                     rt_endpoint = endpointFromBase (tg_relayBaseUrl target) token
                       (map_option obj_entries (rr_headers record))\<rparr>) replicaTargets) acc))"

definition replicaTargetsFromRegistryMap ::
    "registry_map \<Rightarrow> (string, replica_target list) jsmap" where
  "replicaTargetsFromRegistryMap routes = replica_targets_loop routes []"

text \<open>Every URL an endpoint may be fetched from.\<close>

definition endpoint_urls :: "relay_endpoint \<Rightarrow> string list" where
  "endpoint_urls ep = ep_url ep # map ep_url (ep_fallbacks ep)"

definition addresses :: "string \<Rightarrow> string \<Rightarrow> bool" where
  "addresses token url \<longleftrightarrow> ends_with url (CHR ''/'' # encodeURIComponent token)"

lemma ends_with_iff: "ends_with s p \<longleftrightarrow> (\<exists>r. s = r @ p)"
  by (metis ends_with_def rev_append rev_rev_ident starts_with_iff)

lemma addresses_base [simp]: "addresses token (ep_url (endpointFromBase base token h))"
  by (auto simp: addresses_def ends_with_iff endpointFromBase_def)

lemma urls_with_fallbacks [simp]:
  "endpoint_urls (with_fallbacks b fs) = ep_url b # map ep_url fs"
  by (simp add: endpoint_urls_def with_fallbacks_def)

lemma downloadEndpoint_urls:
  "downloadEndpointFromRegistryRecord token r h = Inr ep \<Longrightarrow>
     endpoint_urls ep =
       map (\<lambda>t. strip_slash (tg_relayBaseUrl t) @ ''/'' @ encodeURIComponent token) (rr_targets r)"
  by (auto simp: downloadEndpointFromRegistryRecord_def Let_def endpointFromBase_def
      split: list.splits)

lemma downloadEndpoint_addresses:
  "downloadEndpointFromRegistryRecord token r h = Inr ep \<Longrightarrow>
     list_all (addresses token) (endpoint_urls ep)"
  by (auto simp: downloadEndpointFromRegistryRecord_def Let_def list_all_iff split: list.splits)

lemma endpoints_loop_ok:
  "(\<And>t r. (t, r) \<in> set routes \<Longrightarrow> has_primary (rr_targets r)) \<Longrightarrow>
     \<exists>m. endpoints_loop routes acc = Inr m \<and>
       set (jm_keys m) = set (jm_keys acc) \<union> set (jm_keys routes)"
proof (induction routes acc rule: endpoints_loop.induct)
  case (1 acc)
  then show ?case by simp
next
  case (2 token rc routes acc)
  have "find_primary rc \<noteq> None"
    using "2.prems" [of token rc]
    by (auto simp: find_primary_None_iff has_primary_def list_ex_iff)
  then obtain ep where ep: "endpointFromRegistryRecord token rc None = Inr ep"
    by (auto simp: endpointFromRegistryRecord_def Let_def)
  have "\<exists>m. endpoints_loop routes (jm_set token ep acc) = Inr m \<and>
      set (jm_keys m) = set (jm_keys (jm_set token ep acc)) \<union> set (jm_keys routes)"
    using "2.prems" by (intro "2.IH") auto
  then show ?case
    by (auto simp: ep)
qed

section \<open>Routers\<close>

definition static_resolveMany ::
    "string \<Rightarrow> (string, json) jsmap option \<Rightarrow> string list \<Rightarrow> ('w, endpoint_map) act" where
  "static_resolveMany baseUrl headers tokens =
     areturn (fold (\<lambda>token m.
       jm_set token (with_fallbacks (endpointFromBase baseUrl token headers) []) m)
       (js_unique tokens) [])"

definition static_resolve ::
    "string \<Rightarrow> (string, json) jsmap option \<Rightarrow> string \<Rightarrow> ('w, relay_endpoint) act" where
  "static_resolve baseUrl headers token =
     abind (static_resolveMany baseUrl headers [token]) (\<lambda>m.
       case jm_get m token of
         None \<Rightarrow> athrow (ErrorObj (''failed to resolve token: '' @ token))
       | Some ep \<Rightarrow> areturn ep)"

fun resolve_records ::
    "(string, json) jsmap option \<Rightarrow> registry_map \<Rightarrow> string list \<Rightarrow> endpoint_map \<Rightarrow>
     endpoint_map res" where
  "resolve_records headers records [] acc = Inr acc"
| "resolve_records headers records (token # tokens) acc =
     (case jm_get records token of
        None \<Rightarrow> resolve_records headers records tokens acc
      | Some record \<Rightarrow>
          if rr_resolveStatus record = Some Expired then Inl (TokenPlacementExpiredError token)
          else if \<not> isResolvableRegistryRecord record
          then resolve_records headers records tokens acc
          else rbind (downloadEndpointFromRegistryRecord token record headers)
                 (\<lambda>ep. resolve_records headers records tokens (jm_set token ep acc)))"

definition registry_resolveMany ::
    "(string list \<Rightarrow> ('w, registry_map) act) \<Rightarrow> (string, json) jsmap option \<Rightarrow>
     string list \<Rightarrow> ('w, endpoint_map) act" where
  "registry_resolveMany lookupRelays defaultHeaders tokens =
     (let unique = js_unique tokens
      in if unique = [] then areturn []
         else abind (lookupRelays unique) (\<lambda>records.
                alift (resolve_records defaultHeaders records unique [])))"

definition registry_resolve ::
    "(string list \<Rightarrow> ('w, registry_map) act) \<Rightarrow> (string, json) jsmap option \<Rightarrow>
     string \<Rightarrow> ('w, relay_endpoint) act" where
  "registry_resolve lookupRelays defaultHeaders token =
     abind (lookupRelay lookupRelays token) (\<lambda>record.
       alift (downloadEndpointFromRegistryRecord token record defaultHeaders))"

section \<open>The router interface\<close>

locale relay_router =
  fixes resolveMany :: "string list \<Rightarrow> ('w, endpoint_map) act"
  assumes resolve_sound: "resolveMany ts w = (Inr m, w') \<Longrightarrow> jm_get m t = Some ep \<Longrightarrow>
      t \<in> set ts \<and> list_all (addresses t) (endpoint_urls ep)"
begin

lemma urls_disjoint:
  assumes m: "resolveMany ts w = (Inr m, w')"
    and eps: "jm_get m t = Some ep" "jm_get m t' = Some ep'" and ne: "t \<noteq> t'"
    and tok: "list_all is_unreserved t" "list_all is_unreserved t'" "length t = length t'"
  shows "set (endpoint_urls ep) \<inter> set (endpoint_urls ep') = {}"
proof (rule ccontr)
  assume "\<not> ?thesis"
  then obtain u where u: "u \<in> set (endpoint_urls ep)" "u \<in> set (endpoint_urls ep')" by blast
  have "addresses t u" "addresses t' u"
    using resolve_sound [OF m eps(1)] resolve_sound [OF m eps(2)] u by (auto simp: list_all_iff)
  then have "\<exists>r. u = r @ CHR ''/'' # t" "\<exists>r. u = r @ CHR ''/'' # t'"
    using tok(1,2) by (simp_all add: addresses_def ends_with_iff encode_unreserved)
  then obtain r r' where "u = r @ CHR ''/'' # t" "u = r' @ CHR ''/'' # t'" by blast
  with tok(3) have "t = t'" by simp
  with ne show False by simp
qed

end

lemma fold_set_get:
  "jm_get (fold (\<lambda>t m. jm_set t (f t) m) ts acc) t =
     (if t \<in> set ts then Some (f t) else jm_get acc t)"
  by (induction ts arbitrary: acc) (auto simp: jm_get_set)

lemma static_resolveMany_get:
  "static_resolveMany base h ts w = (Inr m, w') \<Longrightarrow>
     jm_get m t = (if t \<in> set ts then Some (with_fallbacks (endpointFromBase base t h) [])
                   else None)"
  by (auto simp: static_resolveMany_def fold_set_get)

interpretation static: relay_router "static_resolveMany base h"
  by unfold_locales (simp add: static_resolveMany_get split: if_splits, auto)

lemma resolve_records_get:
  "resolve_records h records ts acc = Inr m \<Longrightarrow> jm_get m t = Some ep \<Longrightarrow>
     jm_get acc t = Some ep \<or>
     (t \<in> set ts \<and> (\<exists>r. jm_get records t = Some r \<and> rr_resolveStatus r \<noteq> Some Expired \<and>
        isResolvableRegistryRecord r \<and> downloadEndpointFromRegistryRecord t r h = Inr ep))"
proof (induction h records ts acc rule: resolve_records.induct)
  case (1 h records acc)
  then show ?case by simp
next
  case (2 h records token tokens acc)
  show ?case
  proof (cases "jm_get records token")
    case None
    with 2 show ?thesis by auto
  next
    case (Some rc)
    note rec = Some
    have live: "rr_resolveStatus rc \<noteq> Some Expired"
      using "2.prems"(1) rec by auto
    show ?thesis
    proof (cases "isResolvableRegistryRecord rc")
      case False
      with 2 rec live show ?thesis by auto
    next
      case True
      then obtain ep0 where ep0: "downloadEndpointFromRegistryRecord token rc h = Inr ep0"
        using "2.prems"(1) rec live by (auto simp: rbind_Inr_iff)
      have rest: "resolve_records h records tokens (jm_set token ep0 acc) = Inr m"
        using "2.prems"(1) rec live True ep0 by simp
      from "2.IH"(3) [OF rec live _ rest "2.prems"(2)] rec live True ep0
      show ?thesis by (auto simp: jm_get_set split: if_splits)
    qed
  qed
qed

lemma registry_resolveMany_records:
  "registry_resolveMany lookup h ts w = (Inr m, w') \<Longrightarrow> jm_get m t = Some ep \<Longrightarrow>
     t \<in> set ts \<and> (\<exists>r. downloadEndpointFromRegistryRecord t r h = Inr ep)"
  by (auto simp: registry_resolveMany_def Let_def abind_Inr_iff split: if_splits
      dest!: resolve_records_get)

interpretation registry: relay_router "registry_resolveMany lookup h"
  by unfold_locales (auto dest: registry_resolveMany_records intro: downloadEndpoint_addresses)

section \<open>Properties\<close>

lemma resolvable_download:
  "isResolvableRegistryRecord r \<Longrightarrow> \<exists>ep. downloadEndpointFromRegistryRecord t r h = Inr ep"
  by (cases "rr_targets r") (auto simp: isResolvableRegistryRecord_def find_primary_def
      downloadEndpointFromRegistryRecord_def Let_def)

lemma resolve_records_result:
  assumes "expired = (\<lambda>t. \<exists>r. jm_get records t = Some r \<and> rr_resolveStatus r = Some Expired)"
  shows "case find expired ts of
      Some t \<Rightarrow> resolve_records h records ts acc = Inl (TokenPlacementExpiredError t)
    | None \<Rightarrow> \<exists>m. resolve_records h records ts acc = Inr m \<and> set (jm_keys m) = set (jm_keys acc) \<union>
        {t \<in> set ts. \<exists>r. jm_get records t = Some r \<and> isResolvableRegistryRecord r}"
proof (induction ts arbitrary: acc)
  case Nil
  then show ?case by simp
next
  case (Cons t ts)
  show ?case
  proof (cases "jm_get records t")
    case None
    then show ?thesis using Cons.IH [of acc] by (auto simp: assms split: option.splits)
  next
    case (Some r)
    note rec = Some
    show ?thesis
    proof (cases "rr_resolveStatus r = Some Expired")
      case True
      then show ?thesis by (simp add: assms rec)
    next
      case False
      then have e: "\<not> expired t" by (simp add: assms rec)
      show ?thesis
      proof (cases "isResolvableRegistryRecord r")
        case True
        then obtain ep where "downloadEndpointFromRegistryRecord t r h = Inr ep"
          using resolvable_download by blast
        then show ?thesis
          using Cons.IH [of "jm_set t ep acc"] e True False by (auto simp: rec split: option.splits)
      next
        case nr: False
        then show ?thesis using Cons.IH [of acc] e False by (auto simp: rec split: option.splits)
      qed
    qed
  qed
qed

text \<open>Resolving tokens through the registry fails exactly when one of them has expired, naming
  the first expired token in request order; otherwise the result has an endpoint for exactly the
  requested tokens whose record has a primary relay with an address, and a token not yet
  registered is simply absent.\<close>

theorem registry_resolve_outcome:
  assumes "ts \<noteq> []" "lookup (js_unique ts) w = (Inr records, w')"
  shows "case find (\<lambda>t. \<exists>r. jm_get records t = Some r \<and> rr_resolveStatus r = Some Expired) (js_unique ts) of
      Some t \<Rightarrow> registry_resolveMany lookup h ts w = (Inl (TokenPlacementExpiredError t), w')
    | None \<Rightarrow> \<exists>m. registry_resolveMany lookup h ts w = (Inr m, w') \<and>
        set (jm_keys m) = {t \<in> set ts. \<exists>r. jm_get records t = Some r \<and> isResolvableRegistryRecord r}"
proof -
  have "js_unique ts \<noteq> []" using assms(1) by (metis set_empty set_js_unique)
  then show ?thesis
    using resolve_records_result [OF refl, where records = records and ts = "js_unique ts" and h = h
        and acc = "[]"] assms(2)
    by (auto simp: registry_resolveMany_def Let_def split: option.splits)
qed

definition demo_records :: registry_map where
  "demo_records = [(''A'', \<lparr>rr_targets = [\<lparr>tg_role = Replica, tg_relayId = ''r2'', tg_relayBaseUrl = ''https://r2''\<rparr>,
       \<lparr>tg_role = Primary, tg_relayId = ''r1'', tg_relayBaseUrl = ''https://r1''\<rparr>],
      rr_headers = None, rr_resolveStatus = Some Ready\<rparr>),
     (''B'', missing_record)]"

lemma registry_resolve_outcome_witness:
  "\<exists>m. registry_resolveMany (\<lambda>_ w. (Inr demo_records, w)) None [''A'', ''B''] () = (Inr m, ()) \<and>
     set (jm_keys m) = {t \<in> {''A'', ''B''}. \<exists>r. jm_get demo_records t = Some r \<and> isResolvableRegistryRecord r}"
proof -
  have "find (\<lambda>t. \<exists>r. jm_get demo_records t = Some r \<and> rr_resolveStatus r = Some Expired) (js_unique [''A'', ''B'']) = None"
    by (auto simp: find_None_iff demo_records_def missing_record_def)
  with registry_resolve_outcome [of "[''A'', ''B'']" "\<lambda>_ w. (Inr demo_records, w)" "()" demo_records "()" None]
  show ?thesis by simp
qed


definition demo_records2 :: registry_map where
  "demo_records2 = map (\<lambda>t. (t, \<lparr>rr_targets = [\<lparr>tg_role = Primary, tg_relayId = ''r1'', tg_relayBaseUrl = ''https://r1''\<rparr>],
      rr_headers = None, rr_resolveStatus = Some Ready\<rparr>)) [''A'', ''B'']"


end
