(* ===== verification/Systems.thy ===== *)
theory Systems
  imports Prelude
begin

text \<open>
  Two contracts shared by the concurrent components: a transition system with an invariant
  (\<open>safe_system\<close>) and one whose steps also use up a rank (\<open>draining_system\<close>). The block hash
  pool, the stripe workers and the replica workers interpret them on their own step relations.
\<close>

locale safe_system =
  fixes step :: "'s \<Rightarrow> 's \<Rightarrow> bool" and inv :: "'s \<Rightarrow> bool"
  assumes inv_step: "inv s \<Longrightarrow> step s t \<Longrightarrow> inv t"
begin

lemma inv_steps: "step\<^sup>*\<^sup>* s t \<Longrightarrow> inv s \<Longrightarrow> inv t"
  by (induction rule: rtranclp_induct) (auto intro: inv_step)

end

locale draining_system = safe_system step inv
  for step :: "'s \<Rightarrow> 's \<Rightarrow> bool" and inv :: "'s \<Rightarrow> bool" +
  fixes rank :: "'s \<Rightarrow> nat"
  assumes rank_step: "inv s \<Longrightarrow> step s t \<Longrightarrow> rank t < rank s"
begin

lemma run_bounded: "(step ^^ n) s t \<Longrightarrow> inv s \<Longrightarrow> n + rank t \<le> rank s"
proof (induction n arbitrary: t)
  case 0
  then show ?case by simp
next
  case (Suc n)
  then obtain u where u: "(step ^^ n) s u" "step u t" by auto
  have "inv u"
    using relpowp_imp_rtranclp [OF u(1)] Suc.prems(2) by (rule inv_steps)
  then have "rank t < rank u" using u(2) by (rule rank_step)
  moreover have "n + rank u \<le> rank s" using Suc.IH u(1) Suc.prems(2) by blast
  ultimately show ?case by simp
qed

lemma reaches_stuck:
  "inv s \<Longrightarrow> \<exists>t. step\<^sup>*\<^sup>* s t \<and> inv t \<and> \<not> (\<exists>u. step t u)"
proof (induction "rank s" arbitrary: s rule: less_induct)
  case less
  show ?case
  proof (cases "\<exists>u. step s u")
    case False
    with less.prems show ?thesis by blast
  next
    case True
    then obtain u where u: "step s u" ..
    with less.prems have "inv u" "rank u < rank s" by (auto intro: inv_step rank_step)
    with less.hyps obtain t where "step\<^sup>*\<^sup>* u t" "inv t" "\<not> (\<exists>v. step t v)" by blast
    with u show ?thesis by (blast intro: converse_rtranclp_into_rtranclp)
  qed
qed

end

end
