(* ===== verification/Progress.thy ===== *)
theory Progress
  imports Sizes
begin

text \<open>
  Byte progress, \<open>transport/byte-transfer-progress.ts\<close>: the meter over the concurrent lanes of
  an upload or download window, and the throttle in front of a progress listener. Byte counts
  are integers, so the source's \<open>Math.trunc\<close> on them is the identity. The listener and its timer
  are a state with two events: a call at a given time and the timer firing.
\<close>

section \<open>The in-flight window meter\<close>

record lane =
  ln_transferred :: int
  ln_total :: int

type_synonym 'l meter = "('l, lane) jsmap"

record window_snapshot =
  ws_windowBytesTransferred :: int
  ws_windowBytesTotal :: int

definition meter_begin :: "'l \<Rightarrow> int \<Rightarrow> 'l meter \<Rightarrow> 'l meter" where
  "meter_begin laneId bytesTotal m =
     jm_set laneId \<lparr>ln_transferred = 0, ln_total = max 0 bytesTotal\<rparr> m"

definition meter_setTotal :: "'l \<Rightarrow> int \<Rightarrow> 'l meter \<Rightarrow> 'l meter" where
  "meter_setTotal laneId bytesTotal m = (case jm_get m laneId of
     None \<Rightarrow> m
   | Some l \<Rightarrow>
       let nextTotal = max 0 bytesTotal
       in jm_set laneId
            \<lparr>ln_transferred = (if 0 < nextTotal then min (ln_transferred l) nextTotal
                                else ln_transferred l),
             ln_total = nextTotal\<rparr> m)"

definition meter_setTransferred :: "'l \<Rightarrow> int \<Rightarrow> 'l meter \<Rightarrow> 'l meter" where
  "meter_setTransferred laneId bytesTransferred m = (case jm_get m laneId of
     None \<Rightarrow> m
   | Some l \<Rightarrow>
       let next_bytes = max 0 bytesTransferred;
           capped = (if 0 < ln_total l then min (ln_total l) next_bytes else next_bytes)
       in jm_set laneId (l\<lparr>ln_transferred := max (ln_transferred l) capped\<rparr>) m)"

definition meter_end :: "'l \<Rightarrow> 'l meter \<Rightarrow> 'l meter" where
  "meter_end laneId m = jm_delete laneId m"

definition meter_snapshot :: "'l meter \<Rightarrow> window_snapshot" where
  "meter_snapshot m =
     \<lparr>ws_windowBytesTransferred = sum_list (map (ln_transferred \<circ> snd) m),
      ws_windowBytesTotal = sum_list (map (ln_total \<circ> snd) m)\<rparr>"

abbreviation window_bytes :: "'l meter \<Rightarrow> int" where
  "window_bytes m \<equiv> ws_windowBytesTransferred (meter_snapshot m)"

abbreviation window_total :: "'l meter \<Rightarrow> int" where
  "window_total m \<equiv> ws_windowBytesTotal (meter_snapshot m)"

text \<open>A lane never shows more than its total, once it has one.\<close>

definition lane_ok :: "lane \<Rightarrow> bool" where
  "lane_ok l \<longleftrightarrow> 0 \<le> ln_transferred l \<and> 0 \<le> ln_total l \<and>
     (0 < ln_total l \<longrightarrow> ln_transferred l \<le> ln_total l)"

definition meter_ok :: "'l meter \<Rightarrow> bool" where
  "meter_ok m \<longleftrightarrow> jm_wf m \<and> (\<forall>l \<in> set m. lane_ok (snd l))"

lemma meter_ok_Nil [simp]: "meter_ok []"
  by (simp add: meter_ok_def)

lemma meter_ok_get: "meter_ok m \<Longrightarrow> jm_get m k = Some l \<Longrightarrow> lane_ok l"
  by (metis map_of_SomeD meter_ok_def snd_conv)

lemma set_jm_set: "set (jm_set k v m) \<subseteq> insert (k, v) (set m)"
  by (induction m) auto

lemma set_jm_delete: "set (jm_delete k m) \<subseteq> set m"
  by (auto simp: AList.delete_eq)

lemma meter_ok_set: "meter_ok m \<Longrightarrow> lane_ok l \<Longrightarrow> meter_ok (jm_set k l m)"
  using set_jm_set [of k l m] by (fastforce simp: meter_ok_def)

lemma meter_ok_begin: "meter_ok m \<Longrightarrow> meter_ok (meter_begin k n m)"
  by (auto simp: meter_begin_def lane_ok_def intro!: meter_ok_set)

lemma meter_ok_setTotal: "meter_ok m \<Longrightarrow> meter_ok (meter_setTotal k n m)"
  by (auto simp: meter_setTotal_def Let_def split: option.splits
      intro!: meter_ok_set dest: meter_ok_get simp: lane_ok_def)

lemma meter_ok_setTransferred: "meter_ok m \<Longrightarrow> meter_ok (meter_setTransferred k n m)"
  by (auto simp: meter_setTransferred_def Let_def split: option.splits
      intro!: meter_ok_set dest: meter_ok_get simp: lane_ok_def)

lemma meter_ok_end: "meter_ok m \<Longrightarrow> meter_ok (meter_end k m)"
  using set_jm_delete [of k m] by (auto simp: meter_ok_def meter_end_def)

lemmas meter_ok_ops = meter_ok_begin meter_ok_setTotal meter_ok_setTransferred meter_ok_end

text \<open>Sums over the lanes after an update or a removal.\<close>

lemma sum_jm_set_new:
  "k \<notin> fst ` set m \<Longrightarrow>
     sum_list (map (f \<circ> snd) (jm_set k v m)) = sum_list (map (f \<circ> snd) m) + (f v :: int)"
  by (simp add: jm_set_new)

lemma sum_jm_set_old:
  "jm_wf m \<Longrightarrow> jm_get m k = Some v0 \<Longrightarrow>
     sum_list (map (f \<circ> snd) (jm_set k v m)) =
       sum_list (map (f \<circ> snd) m) - f v0 + (f v :: int)"
  by (induction m) (auto simp: jm_wf_def)

lemma sum_jm_delete:
  "jm_wf m \<Longrightarrow> jm_get m k = Some v0 \<Longrightarrow>
     sum_list (map (f \<circ> snd) (jm_delete k m)) = sum_list (map (f \<circ> snd) m) - (f v0 :: int)"
proof (induction m)
  case Nil
  then show ?case by simp
next
  case (Cons p m)
  then show ?case
    by (cases p) (auto simp: jm_wf_def delete_notin_dom)
qed

lemma jm_delete_absent: "jm_get m k = None \<Longrightarrow> jm_delete k m = m"
  by (simp add: map_of_eq_None_iff delete_notin_dom)

lemma window_bytes_begin:
  "k \<notin> fst ` set m \<Longrightarrow> window_bytes (meter_begin k n m) = window_bytes m"
  by (simp add: meter_snapshot_def meter_begin_def jm_set_new)

lemma window_bytes_le_total:
  assumes "meter_ok m" and "\<forall>l \<in> set m. ln_total (snd l) = 0 \<longrightarrow> ln_transferred (snd l) = 0"
  shows "window_bytes m \<le> window_total m"
proof -
  have "\<forall>l \<in> set m. (ln_transferred \<circ> snd) l \<le> (ln_total \<circ> snd) l"
    using assms by (fastforce simp: meter_ok_def lane_ok_def)
  then show ?thesis
    by (auto simp: meter_snapshot_def intro!: sum_list_mono)
qed

lemma window_bytes_nonneg: "meter_ok m \<Longrightarrow> 0 \<le> window_bytes m"
  by (auto simp: meter_snapshot_def meter_ok_def lane_ok_def intro!: sum_list_nonneg)

text \<open>A lane's own count never goes back while the lane is open.\<close>

lemma setTransferred_mono:
  assumes "jm_get m k = Some l"
  shows "\<exists>l'. jm_get (meter_setTransferred k' n m) k = Some l' \<and>
    ln_transferred l \<le> ln_transferred l' \<and> ln_total l' = ln_total l"
  using assms
  by (auto simp: meter_setTransferred_def Let_def jm_get_set split: option.splits)

lemma window_bytes_setTransferred_mono:
  assumes "jm_wf m"
  shows "window_bytes m \<le> window_bytes (meter_setTransferred k n m)"
proof (cases "jm_get m k")
  case None
  then show ?thesis by (simp add: meter_setTransferred_def)
next
  case (Some l)
  then show ?thesis
    using sum_jm_set_old [OF assms Some, of ln_transferred]
    by (simp add: meter_setTransferred_def meter_snapshot_def Let_def)
qed

section \<open>The throttled listener\<close>

record byte_progress =
  bp_bytesTransferred :: int
  bp_bytesTotal :: "int option"

text \<open>\<open>th_timer\<close> is the time the pending \<open>setTimeout\<close> is due at.\<close>

record throttle =
  th_lastEmitMs :: int
  th_pending :: "byte_progress option"
  th_timer :: "int option"

definition throttle_init :: throttle where
  "throttle_init = \<lparr>th_lastEmitMs = 0, th_pending = None, th_timer = None\<rparr>"

definition throttle_flush :: "int \<Rightarrow> throttle \<Rightarrow> byte_progress option \<times> throttle" where
  "throttle_flush now s = (case th_pending s of
     None \<Rightarrow> (None, s)
   | Some p \<Rightarrow> (Some p, s\<lparr>th_pending := None, th_lastEmitMs := now\<rparr>))"

definition throttle_call ::
    "int \<Rightarrow> int \<Rightarrow> byte_progress \<Rightarrow> throttle \<Rightarrow> byte_progress option \<times> throttle" where
  "throttle_call intervalMs now progress s =
     (let s1 = s\<lparr>th_pending := Some progress\<rparr>
      in if intervalMs \<le> now - th_lastEmitMs s1
         then throttle_flush now (s1\<lparr>th_timer := None\<rparr>)
         else (None, if th_timer s1 = None
                     then s1\<lparr>th_timer := Some (now + (intervalMs - (now - th_lastEmitMs s1)))\<rparr>
                     else s1))"

definition throttle_fire :: "int \<Rightarrow> throttle \<Rightarrow> byte_progress option \<times> throttle" where
  "throttle_fire now s = throttle_flush now (s\<lparr>th_timer := None\<rparr>)"

text \<open>Every pending value has a timer, due one interval after the last emission.\<close>

definition throttle_inv :: "int \<Rightarrow> throttle \<Rightarrow> bool" where
  "throttle_inv intervalMs s \<longleftrightarrow>
     (th_pending s = None \<longleftrightarrow> th_timer s = None) \<and>
     (\<forall>due. th_timer s = Some due \<longrightarrow> due = th_lastEmitMs s + intervalMs)"

lemma throttle_inv_init [simp]: "throttle_inv i throttle_init"
  by (simp add: throttle_inv_def throttle_init_def)

lemma throttle_call_inv:
  "throttle_inv i s \<Longrightarrow> throttle_inv i (snd (throttle_call i now p s))"
  by (auto simp: throttle_inv_def throttle_call_def throttle_flush_def Let_def)

lemma throttle_fire_inv: "throttle_inv i s \<Longrightarrow> throttle_inv i (snd (throttle_fire now s))"
  by (auto simp: throttle_inv_def throttle_fire_def throttle_flush_def split: option.splits)

text \<open>Runs: calls and timer firings at given times; a timer fires only when due.\<close>

datatype throttle_event = Call int byte_progress | Fire int

fun throttle_step :: "int \<Rightarrow> throttle_event \<Rightarrow> throttle \<Rightarrow> (int \<times> byte_progress) list \<times> throttle"
where
  "throttle_step i (Call now p) s = (case throttle_call i now p s of
     (None, s') \<Rightarrow> ([], s') | (Some q, s') \<Rightarrow> ([(now, q)], s'))"
| "throttle_step i (Fire now) s = (case throttle_fire now s of
     (None, s') \<Rightarrow> ([], s') | (Some q, s') \<Rightarrow> ([(now, q)], s'))"

definition throttle_enabled :: "throttle_event \<Rightarrow> throttle \<Rightarrow> bool" where
  "throttle_enabled e s = (case e of
     Call _ _ \<Rightarrow> True | Fire now \<Rightarrow> (case th_timer s of Some due \<Rightarrow> due \<le> now | None \<Rightarrow> False))"

fun throttle_run :: "int \<Rightarrow> throttle_event list \<Rightarrow> throttle \<Rightarrow> (int \<times> byte_progress) list \<times> throttle"
where
  "throttle_run i [] s = ([], s)"
| "throttle_run i (e # es) s =
     (case throttle_step i e s of (out, s') \<Rightarrow>
        case throttle_run i es s' of (out', s'') \<Rightarrow> (out @ out', s''))"

fun throttle_valid :: "int \<Rightarrow> throttle_event list \<Rightarrow> throttle \<Rightarrow> bool" where
  "throttle_valid i [] s = True"
| "throttle_valid i (e # es) s =
     (throttle_enabled e s \<and> throttle_valid i es (snd (throttle_step i e s)))"

lemma throttle_step_cases:
  assumes "throttle_inv i s" and "throttle_enabled e s"
  shows "throttle_inv i (snd (throttle_step i e s)) \<and>
    (case fst (throttle_step i e s) of
       [] \<Rightarrow> th_lastEmitMs (snd (throttle_step i e s)) = th_lastEmitMs s
     | [(t, p)] \<Rightarrow> th_lastEmitMs s + i \<le> t \<and> th_lastEmitMs (snd (throttle_step i e s)) = t \<and>
                   th_pending (snd (throttle_step i e s)) = None
     | _ \<Rightarrow> False)"
  using assms
  by (cases e) (auto simp: throttle_enabled_def throttle_inv_def throttle_call_def
      throttle_fire_def throttle_flush_def Let_def split: option.splits)

section \<open>Properties\<close>

lemma throttle_step_call_pending:
  "throttle_inv i s \<Longrightarrow> (fst (throttle_step i (Call now p) s) = [(now, p)] \<and>
      th_pending (snd (throttle_step i (Call now p) s)) = None) \<or>
     (fst (throttle_step i (Call now p) s) = [] \<and> th_pending (snd (throttle_step i (Call now p) s)) = Some p)"
  by (auto simp: throttle_call_def throttle_flush_def Let_def)

lemma throttle_step_fire_pending:
  "(case th_pending s of
      Some p \<Rightarrow> fst (throttle_step i (Fire now) s) = [(now, p)]
    | None \<Rightarrow> fst (throttle_step i (Fire now) s) = []) \<and>
   th_pending (snd (throttle_step i (Fire now) s)) = None"
  by (auto simp: throttle_fire_def throttle_flush_def split: option.splits)

text \<open>Emissions spaced by at least the interval, counted from \<open>t0\<close>.\<close>

fun spaced :: "int \<Rightarrow> int \<Rightarrow> (int \<times> 'p) list \<Rightarrow> bool" where
  "spaced i t0 [] = True"
| "spaced i t0 ((t, p) # out) = (t0 + i \<le> t \<and> spaced i t out)"

lemma spaced_append:
  "spaced i t0 (a @ b) \<longleftrightarrow> spaced i t0 a \<and> spaced i (if a = [] then t0 else fst (last a)) b"
  by (induction i t0 a rule: spaced.induct) auto

fun last_call :: "throttle_event list \<Rightarrow> byte_progress option" where
  "last_call [] = None"
| "last_call (e # es) = (case last_call es of
     Some q \<Rightarrow> Some q
   | None \<Rightarrow> (case e of Call _ p \<Rightarrow> Some p | Fire _ \<Rightarrow> None))"

text \<open>The most recent value is either still pending or was the last one emitted.\<close>

definition delivered :: "throttle \<Rightarrow> (int \<times> byte_progress) list \<Rightarrow> byte_progress option \<Rightarrow> bool" where
  "delivered s out p \<longleftrightarrow> (case p of None \<Rightarrow> out = [] \<and> th_pending s = None
     | Some q \<Rightarrow> th_pending s = Some q \<or> (th_pending s = None \<and> out \<noteq> [] \<and> snd (last out) = q))"

lemma last_call_snoc:
  "last_call (es @ [e]) = (case e of Call _ p \<Rightarrow> Some p | Fire _ \<Rightarrow> last_call es)"
  by (induction es) (auto split: option.splits throttle_event.splits)

lemma throttle_run_snoc:
  "throttle_run i (es @ [e]) s =
     (case throttle_run i es s of (out, s1) \<Rightarrow> case throttle_step i e s1 of (out', s2) \<Rightarrow> (out @ out', s2))"
  by (induction i es s rule: throttle_run.induct) (auto split: prod.splits)

lemma throttle_valid_snoc:
  "throttle_valid i (es @ [e]) s \<longleftrightarrow>
     throttle_valid i es s \<and> throttle_enabled e (snd (throttle_run i es s))"
  by (induction i es s rule: throttle_valid.induct) (auto split: prod.splits)

text \<open>C29. The progress throttle spaces the updates it lets through by at least the interval (the
  first comes no earlier than one interval after the clock's origin) and loses no final value:
  after any run, the latest value reported has either been emitted last or is pending with a
  timer due one interval after the last emission.\<close>

theorem throttle_spaced_and_lossless:
  assumes "throttle_run i es throttle_init = (out, s)" "throttle_valid i es throttle_init"
  shows "spaced i 0 out \<and> delivered s out (last_call es) \<and>
    (th_pending s \<noteq> None \<longrightarrow> th_timer s = Some (th_lastEmitMs s + i))"
proof -
  have "throttle_inv i s \<and> spaced i 0 out \<and> delivered s out (last_call es) \<and>
      th_lastEmitMs s = (if out = [] then 0 else fst (last out))"
    using assms
  proof (induction es arbitrary: out s rule: rev_induct)
    case Nil
    moreover have "th_pending throttle_init = None" "th_lastEmitMs throttle_init = 0"
      by (simp_all add: throttle_init_def)
    ultimately show ?case by (auto simp: delivered_def)
  next
    case (snoc e es)
    obtain out1 s1 where run: "throttle_run i es throttle_init = (out1, s1)" by fastforce
    obtain out2 where step: "throttle_step i e s1 = (out2, s)" "out = out1 @ out2"
      using snoc.prems(1) run by (auto simp: throttle_run_snoc split: prod.splits)
    have valid: "throttle_valid i es throttle_init" "throttle_enabled e s1"
      using snoc.prems(2) run by (auto simp: throttle_valid_snoc)
    note IH = snoc.IH [OF run valid(1)]
    note cases = throttle_step_cases [OF IH [THEN conjunct1] valid(2), unfolded step]
    have out2: "out2 = [] \<and> th_lastEmitMs s = th_lastEmitMs s1 \<or>
        (\<exists>t p. out2 = [(t, p)] \<and> th_lastEmitMs s1 + i \<le> t \<and> th_lastEmitMs s = t)"
      using cases by (auto split: list.splits)
    have "delivered s out (last_call (es @ [e]))"
    proof (cases e)
      case (Call now p)
      then show ?thesis
        using throttle_step_call_pending [OF IH [THEN conjunct1], of now p] step
        by (auto simp: delivered_def last_call_snoc)
    next
      case (Fire now)
      then show ?thesis
        using throttle_step_fire_pending [where s = s1 and i = i and now = now] step IH
        by (auto simp: delivered_def last_call_snoc split: option.splits)
    qed
    moreover have "spaced i 0 out" using out2 IH step(2) by (auto simp: spaced_append split: if_splits)
    ultimately show ?case using cases out2 IH step(2) by auto
  qed
  then show ?thesis by (auto simp: throttle_inv_def)
qed

lemma throttle_spaced_and_lossless_witness:
  "\<exists>out s. throttle_run 100 [Call 500 \<lparr>bp_bytesTransferred = 1, bp_bytesTotal = None\<rparr>,
       Call 520 \<lparr>bp_bytesTransferred = 2, bp_bytesTotal = None\<rparr>, Fire 600] throttle_init = (out, s) \<and>
     spaced 100 0 out \<and> length out = 2"
proof -
  let ?es = "[Call 500 \<lparr>bp_bytesTransferred = 1, bp_bytesTotal = None\<rparr>,
       Call 520 \<lparr>bp_bytesTransferred = 2, bp_bytesTotal = None\<rparr>, Fire 600]"
  obtain out s where run: "throttle_run 100 ?es throttle_init = (out, s)" by fastforce
  have "throttle_valid 100 ?es throttle_init" by code_simp
  from throttle_spaced_and_lossless [OF run this] have "spaced 100 0 out" by blast
  moreover have "length (fst (throttle_run 100 ?es throttle_init)) = 2" by code_simp
  ultimately show ?thesis using run by auto
qed

end
