(* ===== verification/HashPool.thy ===== *)
theory HashPool
  imports Registry Systems
begin

text \<open>
  The block hash pool, \<open>protocol/block-hash-pool.ts\<close> and \<open>block-hash.ts\<close>: blocks are hashed as
  they arrive, at most \<open>concurrency\<close> at a time, and \<open>drain\<close> waits for all of them. The state is
  the object's fields plus \<open>hp_running\<close>, the jobs whose digest promise is pending (the event loop
  may settle any of them next), and two history variables, \<open>hp_history\<close> (every job ever
  enqueued) and \<open>hp_progress\<close> (the calls of \<open>onProgress\<close>). SHA-256 is WebCrypto's and a parameter.
\<close>

section \<open>Hex digests\<close>

text \<open>\<open>byte.toString(16).padStart(2, '0')\<close>\<close>

definition hex_lower :: "nat \<Rightarrow> char" where
  "hex_lower d = (if d < 10 then char_of (48 + d) else char_of (87 + d))"

definition hex_byte :: "nat \<Rightarrow> string" where
  "hex_byte b = [hex_lower (b div 16), hex_lower (b mod 16)]"

definition computeBlockHashSha256 :: "(bytes \<Rightarrow> bytes) \<Rightarrow> bytes \<Rightarrow> string" where
  "computeBlockHashSha256 sha256 data = concat (map hex_byte (sha256 data))"

section \<open>The pool\<close>

definition DEFAULT_BLOCK_HASH_CONCURRENCY :: int where
  "DEFAULT_BLOCK_HASH_CONCURRENCY = 12"

type_synonym hash_job = "string \<times> bytes"

record hash_pool =
  hp_concurrency :: int
  hp_results :: "(string, string) jsmap"
  hp_queue :: "hash_job list"
  hp_inFlight :: int
  hp_completed :: int
  hp_totalEnqueued :: int
  hp_drainWaiters :: "nat list"
  hp_closed :: bool
  hp_running :: "hash_job list"
  hp_resolved :: "nat list"
  hp_history :: "hash_job list"
  hp_progress :: "(int \<times> int) list"

definition hash_pool_new :: "int option \<Rightarrow> hash_pool res" where
  "hash_pool_new concurrency_option =
     (let concurrency = default_to concurrency_option DEFAULT_BLOCK_HASH_CONCURRENCY
      in if concurrency \<le> 0
         then Inl (ErrorObj ''block hash concurrency must be greater than zero'')
         else Inr \<lparr>hp_concurrency = concurrency, hp_results = [], hp_queue = [], hp_inFlight = 0,
                   hp_completed = 0, hp_totalEnqueued = 0, hp_drainWaiters = [],
                   hp_closed = False, hp_running = [], hp_resolved = [], hp_history = [],
                   hp_progress = []\<rparr>)"

function pump :: "hash_pool \<Rightarrow> hash_pool" where
  "pump s = (case hp_queue s of
     [] \<Rightarrow> s
   | job # rest \<Rightarrow>
       if hp_inFlight s < hp_concurrency s
       then pump (s\<lparr>hp_queue := rest, hp_inFlight := hp_inFlight s + 1,
                    hp_running := hp_running s @ [job]\<rparr>)
       else s)"
  by pat_completeness auto
termination
  by (relation "measure (\<lambda>s. length (hp_queue s))") auto

declare pump.simps [simp del]

definition enqueue :: "string \<Rightarrow> bytes \<Rightarrow> hash_pool \<Rightarrow> hash_pool res" where
  "enqueue token data s =
     (if hp_closed s then Inl (ErrorObj ''block hash pool is closed'')
      else Inr (pump (s\<lparr>hp_totalEnqueued := hp_totalEnqueued s + 1,
                        hp_queue := hp_queue s @ [(token, data)],
                        hp_history := hp_history s @ [(token, data)]\<rparr>)))"

definition maybeResolveDrain :: "hash_pool \<Rightarrow> hash_pool" where
  "maybeResolveDrain s =
     (if \<not> hp_closed s then s
      else if hp_completed s < hp_totalEnqueued s \<or> 0 < hp_inFlight s then s
      else s\<lparr>hp_resolved := hp_resolved s @ hp_drainWaiters s, hp_drainWaiters := []\<rparr>)"

text \<open>
  The rest of \<open>runJob\<close> when the \<open>i\<close>-th pending digest settles: the hash is stored unless the
  digest failed, then the \<open>finally\<close> block runs.
\<close>

definition finishJob :: "(hash_job \<Rightarrow> string option) \<Rightarrow> nat \<Rightarrow> hash_pool \<Rightarrow> hash_pool" where
  "finishJob digest i s =
     (let job = hp_running s ! i;
          s1 = (case digest job of
                  Some h \<Rightarrow> s\<lparr>hp_results := jm_set (fst job) h (hp_results s)\<rparr>
                | None \<Rightarrow> s);
          s2 = s1\<lparr>hp_running := take i (hp_running s) @ drop (Suc i) (hp_running s),
                  hp_inFlight := hp_inFlight s - 1, hp_completed := hp_completed s + 1,
                  hp_progress := hp_progress s @ [(hp_completed s + 1, hp_totalEnqueued s)]\<rparr>
      in maybeResolveDrain (pump s2))"

definition close_pool :: "hash_pool \<Rightarrow> hash_pool" where
  "close_pool s = maybeResolveDrain (s\<lparr>hp_closed := True\<rparr>)"

text \<open>
  \<open>drain\<close> up to its first possible suspension: the waiter \<open>k\<close> resolves at once or queues. What
  it returns once resolved is \<open>drain_result\<close>.
\<close>

definition drain_start :: "nat \<Rightarrow> hash_pool \<Rightarrow> hash_pool" where
  "drain_start k s =
     (let s1 = close_pool s
      in if hp_completed s1 < hp_totalEnqueued s1 \<or> 0 < hp_inFlight s1
         then s1\<lparr>hp_drainWaiters := hp_drainWaiters s1 @ [k]\<rparr>
         else s1\<lparr>hp_resolved := hp_resolved s1 @ [k]\<rparr>)"

definition drain_result :: "hash_pool \<Rightarrow> block_hash_entry list" where
  "drain_result s = map (\<lambda>(t, h). \<lparr>bh_token = t, bh_blockHash = h\<rparr>) (hp_results s)"

text \<open>\<open>computeUploadBlockHashesParallel\<close> up to the drain: the pool is filled in map order.\<close>

fun enqueue_all :: "hash_job list \<Rightarrow> hash_pool \<Rightarrow> hash_pool res" where
  "enqueue_all [] s = Inr s"
| "enqueue_all ((t, d) # jobs) s = rbind (enqueue t d s) (enqueue_all jobs)"

definition computeUploadBlockHashesParallel_start ::
    "upload_map \<Rightarrow> int option \<Rightarrow> hash_pool res" where
  "computeUploadBlockHashesParallel_start uploads concurrency =
     rbind (hash_pool_new concurrency) (\<lambda>s0.
     rbind (enqueue_all uploads s0) (\<lambda>s1. Inr (drain_start 0 s1)))"

section \<open>Invariant\<close>

definition pool_inv :: "(hash_job \<Rightarrow> string option) \<Rightarrow> hash_pool \<Rightarrow> bool" where
  "pool_inv digest s \<longleftrightarrow>
     0 < hp_concurrency s \<and>
     hp_inFlight s = int (length (hp_running s)) \<and>
     hp_inFlight s \<le> hp_concurrency s \<and>
     0 \<le> hp_completed s \<and>
     hp_completed s + hp_inFlight s + int (length (hp_queue s)) = hp_totalEnqueued s \<and>
     hp_totalEnqueued s = int (length (hp_history s)) \<and>
     (hp_queue s \<noteq> [] \<longrightarrow> hp_inFlight s = hp_concurrency s) \<and>
     (hp_drainWaiters s \<noteq> [] \<longrightarrow> hp_closed s \<and> 0 < hp_inFlight s) \<and>
     (hp_resolved s \<noteq> [] \<longrightarrow> hp_closed s \<and> hp_inFlight s = 0) \<and>
     set (hp_running s) \<union> set (hp_queue s) \<subseteq> set (hp_history s) \<and>
     jm_wf (hp_results s) \<and>
     (\<forall>t h. jm_get (hp_results s) t = Some h \<longrightarrow>
        (\<exists>d. (t, d) \<in> set (hp_history s) \<and> digest (t, d) = Some h)) \<and>
     (\<forall>t d. (t, d) \<in> set (hp_history s) \<longrightarrow> digest (t, d) \<noteq> None \<longrightarrow>
        (t, d) \<in> set (hp_running s) \<union> set (hp_queue s) \<or> jm_get (hp_results s) t \<noteq> None)"

text \<open>What \<open>pump\<close> leaves alone, and what it establishes.\<close>

lemma pump_stop: "hp_queue s = [] \<or> \<not> hp_inFlight s < hp_concurrency s \<Longrightarrow> pump s = s"
  by (subst pump.simps) (auto split: list.split)

lemma pump_go:
  "hp_queue s = job # rest \<Longrightarrow> hp_inFlight s < hp_concurrency s \<Longrightarrow>
     pump s = pump (s\<lparr>hp_queue := rest, hp_inFlight := hp_inFlight s + 1,
                      hp_running := hp_running s @ [job]\<rparr>)"
  by (subst pump.simps) simp

lemma pump_cases [case_names stop go]:
  assumes "hp_queue s = [] \<or> \<not> hp_inFlight s < hp_concurrency s \<Longrightarrow> P"
    and "\<And>job rest. hp_queue s = job # rest \<Longrightarrow> hp_inFlight s < hp_concurrency s \<Longrightarrow> P"
  shows P
  using assms by (cases "hp_queue s") auto

lemma pump_frame:
  "hp_concurrency (pump s) = hp_concurrency s \<and> hp_results (pump s) = hp_results s \<and>
   hp_completed (pump s) = hp_completed s \<and> hp_totalEnqueued (pump s) = hp_totalEnqueued s \<and>
   hp_drainWaiters (pump s) = hp_drainWaiters s \<and> hp_closed (pump s) = hp_closed s \<and>
   hp_resolved (pump s) = hp_resolved s \<and> hp_history (pump s) = hp_history s \<and>
   hp_progress (pump s) = hp_progress s"
proof (induction s rule: pump.induct)
  case (1 s)
  then show ?case by (cases s rule: pump_cases) (simp_all add: pump_stop pump_go)
qed

lemma pump_fields [simp]:
  "hp_concurrency (pump s) = hp_concurrency s"
  "hp_results (pump s) = hp_results s"
  "hp_completed (pump s) = hp_completed s"
  "hp_totalEnqueued (pump s) = hp_totalEnqueued s"
  "hp_drainWaiters (pump s) = hp_drainWaiters s"
  "hp_closed (pump s) = hp_closed s"
  "hp_resolved (pump s) = hp_resolved s"
  "hp_history (pump s) = hp_history s"
  "hp_progress (pump s) = hp_progress s"
  using pump_frame [of s] by simp_all

lemma pump_jobs:
  "hp_running (pump s) @ hp_queue (pump s) = hp_running s @ hp_queue s \<and>
   hp_inFlight (pump s) - int (length (hp_running (pump s))) =
     hp_inFlight s - int (length (hp_running s))"
proof (induction s rule: pump.induct)
  case (1 s)
  then show ?case by (cases s rule: pump_cases) (simp_all add: pump_stop pump_go)
qed

lemma pump_saturates:
  "hp_inFlight s \<le> hp_inFlight (pump s) \<and>
   (hp_inFlight s \<le> hp_concurrency s \<longrightarrow> hp_inFlight (pump s) \<le> hp_concurrency s \<and>
     (hp_queue (pump s) \<noteq> [] \<longrightarrow> hp_inFlight (pump s) = hp_concurrency s))"
proof (induction s rule: pump.induct)
  case (1 s)
  then show ?case
    by (cases s rule: pump_cases) (auto simp add: pump_stop pump_go)
qed

lemma pump_job_set:
  "set (hp_running (pump s)) \<union> set (hp_queue (pump s)) =
     set (hp_running s) \<union> set (hp_queue s)"
  using pump_jobs [of s] by (metis set_append)

lemma pump_job_count:
  "length (hp_running (pump s)) + length (hp_queue (pump s)) =
     length (hp_running s) + length (hp_queue s)"
  using pump_jobs [of s] by (metis length_append)

lemma pump_busy:
  assumes "hp_inFlight s = int (length (hp_running s))" "0 < hp_concurrency s"
    and "hp_inFlight s \<le> hp_concurrency s"
  shows "hp_inFlight (pump s) = int (length (hp_running (pump s)))"
    and "hp_inFlight (pump s) \<le> hp_concurrency s"
    and "hp_queue (pump s) \<noteq> [] \<longrightarrow> hp_inFlight (pump s) = hp_concurrency s"
  using assms pump_jobs [of s] pump_saturates [of s] by auto

text \<open>
  The invariant splits into the counters (\<open>pool_counts\<close>) and the results (\<open>pool_data\<close>); each
  operation is checked on both.
\<close>

definition pool_counts :: "hash_pool \<Rightarrow> bool" where
  "pool_counts s \<longleftrightarrow>
     0 < hp_concurrency s \<and>
     hp_inFlight s = int (length (hp_running s)) \<and>
     hp_inFlight s \<le> hp_concurrency s \<and>
     0 \<le> hp_completed s \<and>
     hp_completed s + hp_inFlight s + int (length (hp_queue s)) = hp_totalEnqueued s \<and>
     hp_totalEnqueued s = int (length (hp_history s))"

definition pool_data :: "(hash_job \<Rightarrow> string option) \<Rightarrow> hash_pool \<Rightarrow> bool" where
  "pool_data digest s \<longleftrightarrow>
     set (hp_running s) \<union> set (hp_queue s) \<subseteq> set (hp_history s) \<and>
     jm_wf (hp_results s) \<and>
     (\<forall>t h. jm_get (hp_results s) t = Some h \<longrightarrow>
        (\<exists>d. (t, d) \<in> set (hp_history s) \<and> digest (t, d) = Some h)) \<and>
     (\<forall>t d. (t, d) \<in> set (hp_history s) \<longrightarrow> digest (t, d) \<noteq> None \<longrightarrow>
        (t, d) \<in> set (hp_running s) \<union> set (hp_queue s) \<or> jm_get (hp_results s) t \<noteq> None)"

lemma pool_inv_split:
  "pool_inv digest s \<longleftrightarrow> pool_counts s \<and> pool_data digest s \<and>
     (hp_queue s \<noteq> [] \<longrightarrow> hp_inFlight s = hp_concurrency s) \<and>
     (hp_drainWaiters s \<noteq> [] \<longrightarrow> hp_closed s \<and> 0 < hp_inFlight s) \<and>
     (hp_resolved s \<noteq> [] \<longrightarrow> hp_closed s \<and> hp_inFlight s = 0)"
  unfolding pool_inv_def pool_counts_def pool_data_def by blast

lemma pump_pool_counts: "pool_counts s \<Longrightarrow> pool_counts (pump s)"
  using pump_jobs [of s] pump_saturates [of s] pump_job_count [of s]
  by (auto simp: pool_counts_def)

lemma pump_pool_data: "pool_data digest s \<Longrightarrow> pool_data digest (pump s)"
  using pump_job_set [of s] by (simp add: pool_data_def)

lemma pool_frame [simp]:
  "pool_counts (s\<lparr>hp_resolved := r\<rparr>) = pool_counts s"
  "pool_counts (s\<lparr>hp_drainWaiters := w\<rparr>) = pool_counts s"
  "pool_counts (s\<lparr>hp_closed := b\<rparr>) = pool_counts s"
  "pool_data digest (s\<lparr>hp_resolved := r\<rparr>) = pool_data digest s"
  "pool_data digest (s\<lparr>hp_drainWaiters := w\<rparr>) = pool_data digest s"
  "pool_data digest (s\<lparr>hp_closed := b\<rparr>) = pool_data digest s"
  by (simp_all add: pool_counts_def pool_data_def)

lemma maybeResolveDrain_fields [simp]:
  "hp_concurrency (maybeResolveDrain s) = hp_concurrency s"
  "hp_results (maybeResolveDrain s) = hp_results s"
  "hp_queue (maybeResolveDrain s) = hp_queue s"
  "hp_inFlight (maybeResolveDrain s) = hp_inFlight s"
  "hp_completed (maybeResolveDrain s) = hp_completed s"
  "hp_totalEnqueued (maybeResolveDrain s) = hp_totalEnqueued s"
  "hp_closed (maybeResolveDrain s) = hp_closed s"
  "hp_running (maybeResolveDrain s) = hp_running s"
  "hp_history (maybeResolveDrain s) = hp_history s"
  by (simp_all add: maybeResolveDrain_def)

lemma maybeResolveDrain_data:
  "pool_counts (maybeResolveDrain s) = pool_counts s"
  "pool_data digest (maybeResolveDrain s) = pool_data digest s"
  by (simp_all add: pool_counts_def pool_data_def)

lemma maybeResolveDrain_waiters:
  "set (hp_resolved (maybeResolveDrain s)) \<union> set (hp_drainWaiters (maybeResolveDrain s)) =
     set (hp_resolved s) \<union> set (hp_drainWaiters s)"
  by (auto simp: maybeResolveDrain_def)

lemma maybeResolveDrain_inv:
  assumes "pool_counts s" "pool_data digest s"
    and "hp_queue s \<noteq> [] \<Longrightarrow> hp_inFlight s = hp_concurrency s"
    and "hp_drainWaiters s \<noteq> [] \<Longrightarrow> hp_closed s"
    and "hp_resolved s \<noteq> [] \<Longrightarrow> hp_closed s \<and> hp_inFlight s = 0"
  shows "pool_inv digest (maybeResolveDrain s)"
proof -
  have busy: "hp_completed s < hp_totalEnqueued s \<Longrightarrow> 0 < hp_inFlight s"
    using assms(1,3) by (cases "hp_queue s") (auto simp: pool_counts_def)
  have flight: "0 \<le> hp_inFlight s" using assms(1) by (simp add: pool_counts_def)
  show ?thesis
  proof (cases "hp_closed s \<and> \<not> (hp_completed s < hp_totalEnqueued s \<or> 0 < hp_inFlight s)")
    case True
    then show ?thesis
      using assms(1,2,3) flight by (auto simp: pool_inv_split maybeResolveDrain_def)
  next
    case False
    then have "maybeResolveDrain s = s" by (auto simp: maybeResolveDrain_def)
    then show ?thesis using assms busy False by (auto simp: pool_inv_split)
  qed
qed

lemma pump_inv:
  assumes "pool_counts s" "pool_data digest s" "hp_drainWaiters s = []" "hp_resolved s = []"
  shows "pool_inv digest (pump s)"
proof -
  have "hp_inFlight s \<le> hp_concurrency s" using assms(1) by (simp add: pool_counts_def)
  then show ?thesis
    using assms pump_pool_counts pump_pool_data pump_saturates [of s]
    by (simp add: pool_inv_split)
qed

lemma hash_pool_new_inv: "hash_pool_new c = Inr s \<Longrightarrow> pool_inv digest s"
  by (auto simp: hash_pool_new_def Let_def pool_inv_def split: if_splits)

lemma enqueue_inv:
  assumes "pool_inv digest s" "enqueue t d s = Inr s'"
  shows "pool_inv digest s'"
proof -
  let ?s1 = "s\<lparr>hp_totalEnqueued := hp_totalEnqueued s + 1, hp_queue := hp_queue s @ [(t, d)],
                hp_history := hp_history s @ [(t, d)]\<rparr>"
  have s': "s' = pump ?s1" and "\<not> hp_closed s"
    using assms(2) by (auto simp: enqueue_def split: if_splits)
  have c: "pool_counts ?s1"
    using assms(1) by (auto simp: pool_inv_split pool_counts_def)
  have "pool_data digest s" using assms(1) by (simp add: pool_inv_split)
  then have d: "pool_data digest ?s1"
    unfolding pool_data_def by simp blast
  have "hp_drainWaiters s = [] \<and> hp_resolved s = []"
    using assms(1) \<open>\<not> hp_closed s\<close> by (auto simp: pool_inv_split)
  with c d show ?thesis unfolding s' by (intro pump_inv) simp_all
qed

lemma finishJob_data:
  assumes "pool_data digest s" "i < length (hp_running s)"
    and "rs = (case digest (hp_running s ! i) of
                 Some h \<Rightarrow> jm_set (fst (hp_running s ! i)) h (hp_results s) | None \<Rightarrow> hp_results s)"
  shows "pool_data digest (s\<lparr>hp_results := rs,
           hp_running := take i (hp_running s) @ drop (Suc i) (hp_running s),
           hp_inFlight := a, hp_completed := b, hp_progress := p\<rparr>)"
proof -
  obtain t d where job: "hp_running s ! i = (t, d)" by (cases "hp_running s ! i")
  have set: "set (hp_running s) = insert (t, d) (set (take i (hp_running s) @ drop (Suc i) (hp_running s)))"
    using id_take_nth_drop [OF assms(2)] job
    by (metis Un_insert_right list.simps(15) set_append)
  have hist: "(t, d) \<in> set (hp_history s)"
    using assms(1) set by (auto simp: pool_data_def)
  show ?thesis
  proof (cases "digest (t, d)")
    case None
    have rs: "rs = hp_results s" using assms(3) job None by simp
    have "(u, e) = (t, d) \<longrightarrow> digest (u, e) = None" for u e using None by auto
    then show ?thesis
      using assms(1) set unfolding pool_data_def rs
      by (simp add: insert_subset) (metis option.distinct(1))
  next
    case (Some h)
    have "rs = jm_set t h (hp_results s)" using assms(3) job Some by simp
    moreover have "(u, e) \<in> set (take i (hp_running s) @ drop (Suc i) (hp_running s)) \<union> set (hp_queue s) \<or>
        jm_get (jm_set t h (hp_results s)) u \<noteq> None"
      if "(u, e) \<in> set (hp_history s)" "digest (u, e) \<noteq> None" for u e
    proof (cases "u = t")
      case False
      have "(u, e) \<in> set (hp_running s) \<union> set (hp_queue s) \<or> jm_get (hp_results s) u \<noteq> None"
        using assms(1) that unfolding pool_data_def by blast
      with False show ?thesis unfolding set by (auto simp: jm_get_set)
    qed (simp add: jm_get_set)
    ultimately show ?thesis
      using assms(1) hist Some set unfolding pool_data_def
      by (auto simp: jm_get_set)
  qed
qed

lemma finishJob_inv:
  assumes inv: "pool_inv digest s" and i: "i < length (hp_running s)"
  shows "pool_inv digest (finishJob digest i s)"
proof -
  define rs where "rs = (case digest (hp_running s ! i) of
     Some h \<Rightarrow> jm_set (fst (hp_running s ! i)) h (hp_results s) | None \<Rightarrow> hp_results s)"
  define s2 where "s2 = s\<lparr>hp_results := rs,
     hp_running := take i (hp_running s) @ drop (Suc i) (hp_running s),
     hp_inFlight := hp_inFlight s - 1, hp_completed := hp_completed s + 1,
     hp_progress := hp_progress s @ [(hp_completed s + 1, hp_totalEnqueued s)]\<rparr>"
  have eq: "finishJob digest i s = maybeResolveDrain (pump s2)"
    by (simp add: finishJob_def s2_def rs_def Let_def split: option.split)
  have c: "pool_counts s2"
    using inv i by (auto simp: pool_inv_split pool_counts_def s2_def)
  have d: "pool_data digest s2"
    unfolding s2_def by (rule finishJob_data [of digest s i rs, OF _ i rs_def]) (use inv in \<open>simp add: pool_inv_split\<close>)
  have "hp_resolved s = []" using inv i by (auto simp: pool_inv_split pool_counts_def)
  moreover have "hp_drainWaiters s \<noteq> [] \<longrightarrow> hp_closed s" using inv by (simp add: pool_inv_split)
  ultimately show ?thesis
    unfolding eq
    using pump_saturates [of s2] c
    by (intro maybeResolveDrain_inv pump_pool_counts c pump_pool_data d)
      (auto simp: s2_def pool_counts_def)
qed

lemma close_pool_inv: "pool_inv digest s \<Longrightarrow> pool_inv digest (close_pool s)"
  unfolding close_pool_def
  by (rule maybeResolveDrain_inv) (auto simp: pool_inv_split)

lemma drain_start_inv: "pool_inv digest s \<Longrightarrow> pool_inv digest (drain_start k s)"
proof -
  assume "pool_inv digest s"
  then have "pool_inv digest (close_pool s)" by (rule close_pool_inv)
  moreover have "hp_closed (close_pool s)" by (simp add: close_pool_def)
  moreover have "hp_inFlight (close_pool s) > 0 \<Longrightarrow> hp_resolved (close_pool s) = []"
    using calculation(1) by (auto simp: pool_inv_split)
  ultimately show ?thesis
    by (auto simp: drain_start_def Let_def pool_inv_split pool_counts_def)
qed

section \<open>Schedules\<close>

text \<open>The event loop settles the digests of the pending jobs in any order.\<close>

inductive pool_settles :: "(hash_job \<Rightarrow> string option) \<Rightarrow> hash_pool \<Rightarrow> hash_pool \<Rightarrow> bool"
  for digest where
  settle: "i < length (hp_running s) \<Longrightarrow> pool_settles digest s (finishJob digest i s)"

inductive_cases pool_settlesE: "pool_settles digest s t"

definition pool_rank :: "hash_pool \<Rightarrow> nat" where
  "pool_rank s = length (hp_running s) + length (hp_queue s)"

lemma pump_rank [simp]: "pool_rank (pump s) = pool_rank s"
  using pump_job_count [of s] by (simp add: pool_rank_def)

lemma finishJob_rank: "i < length (hp_running s) \<Longrightarrow> Suc (pool_rank (finishJob digest i s)) = pool_rank s"
  using pump_job_count
  by (auto simp: finishJob_def Let_def pool_rank_def split: option.split)

interpretation pool: draining_system "pool_settles digest" "pool_inv digest" pool_rank
  for digest
proof
  show "pool_inv digest t" if "pool_inv digest s" "pool_settles digest s t" for s t
    using that by (auto elim!: pool_settlesE intro: finishJob_inv)
  show "pool_rank t < pool_rank s" if "pool_inv digest s" "pool_settles digest s t" for s t
    using that(2) by (auto elim!: pool_settlesE) (metis finishJob_rank lessI)
qed

lemma finishJob_fields:
  "hp_history (finishJob digest i s) = hp_history s"
  "hp_concurrency (finishJob digest i s) = hp_concurrency s"
  "set (hp_resolved (finishJob digest i s)) \<union> set (hp_drainWaiters (finishJob digest i s)) =
     set (hp_resolved s) \<union> set (hp_drainWaiters s)"
  by (simp_all add: finishJob_def Let_def maybeResolveDrain_waiters split: option.split)

lemma settles_frame:
  "(pool_settles digest ^^ n) s t \<Longrightarrow>
     n + pool_rank t = pool_rank s \<and> hp_history t = hp_history s \<and>
     hp_concurrency t = hp_concurrency s \<and>
     set (hp_resolved t) \<union> set (hp_drainWaiters t) = set (hp_resolved s) \<union> set (hp_drainWaiters s)"
proof (induction n arbitrary: t)
  case 0
  then show ?case by simp
next
  case (Suc n)
  then obtain u where u: "(pool_settles digest ^^ n) s u" "pool_settles digest u t" by auto
  then obtain i where i: "i < length (hp_running u)" "t = finishJob digest i u"
    by (auto elim: pool_settlesE)
  show ?case
    using Suc.IH [OF u(1)] finishJob_rank [OF i(1), of digest] i(2)
    by (simp add: finishJob_fields)
qed

lemma enqueue_frame:
  assumes "enqueue t d s = Inr s'"
  shows "hp_history s' = hp_history s @ [(t, d)]" "pool_rank s' = Suc (pool_rank s)"
    "hp_resolved s' = hp_resolved s" "hp_drainWaiters s' = hp_drainWaiters s"
    "hp_closed s' = hp_closed s" "hp_concurrency s' = hp_concurrency s"
proof -
  let ?s1 = "s\<lparr>hp_totalEnqueued := hp_totalEnqueued s + 1, hp_queue := hp_queue s @ [(t, d)],
                hp_history := hp_history s @ [(t, d)]\<rparr>"
  have s': "s' = pump ?s1" using assms by (simp add: enqueue_def split: if_splits)
  have "pool_rank s' = pool_rank ?s1" unfolding s' by (rule pump_rank)
  then show "pool_rank s' = Suc (pool_rank s)" by (simp add: pool_rank_def)
qed (use assms in \<open>auto simp: enqueue_def split: if_splits\<close>)

lemma enqueue_all_frame:
  "enqueue_all jobs s = Inr s' \<Longrightarrow> pool_inv digest s \<Longrightarrow>
     pool_inv digest s' \<and> hp_history s' = hp_history s @ jobs \<and>
     pool_rank s' = pool_rank s + length jobs \<and> hp_resolved s' = hp_resolved s \<and>
     hp_drainWaiters s' = hp_drainWaiters s \<and> hp_concurrency s' = hp_concurrency s"
proof (induction jobs s rule: enqueue_all.induct)
  case (1 s)
  then show ?case by simp
next
  case (2 t d jobs s)
  from "2.prems"(1) obtain u where u: "enqueue t d s = Inr u" "enqueue_all jobs u = Inr s'"
    by (auto simp: rbind_Inr_iff)
  show ?case
    using "2.IH" [OF u(2) enqueue_inv [OF "2.prems"(2) u(1)]] enqueue_frame [OF u(1)] by simp
qed

lemma enqueue_all_ok: "\<not> hp_closed s \<Longrightarrow> \<exists>s'. enqueue_all jobs s = Inr s'"
proof (induction jobs arbitrary: s)
  case Nil
  then show ?case by simp
next
  case (Cons job jobs)
  obtain t d where job: "job = (t, d)" by (cases job)
  from Cons.prems obtain u where "enqueue t d s = Inr u" by (simp add: enqueue_def)
  with Cons.IH [of u] Cons.prems enqueue_frame(5) [of t d s u] show ?case by (simp add: job)
qed

lemma drain_start_frame:
  "pool_rank (drain_start k s) = pool_rank s"
  "hp_history (drain_start k s) = hp_history s"
  "hp_concurrency (drain_start k s) = hp_concurrency s"
  "k \<in> set (hp_resolved (drain_start k s)) \<union> set (hp_drainWaiters (drain_start k s))"
  by (simp_all add: drain_start_def Let_def close_pool_def pool_rank_def)

lemma parallel_start_frame:
  assumes "computeUploadBlockHashesParallel_start uploads c = Inr s"
  shows "pool_inv digest s \<and> hp_history s = uploads" "pool_rank s = length uploads"
    "0 \<in> set (hp_resolved s) \<union> set (hp_drainWaiters s)"
    "hp_concurrency s = default_to c DEFAULT_BLOCK_HASH_CONCURRENCY"
proof -
  from assms obtain s0 s1 where s: "hash_pool_new c = Inr s0" "enqueue_all uploads s0 = Inr s1"
    "s = drain_start 0 s1"
    by (auto simp: computeUploadBlockHashesParallel_start_def rbind_Inr_iff)
  have new: "hp_history s0 = []" "pool_rank s0 = 0"
    "hp_concurrency s0 = default_to c DEFAULT_BLOCK_HASH_CONCURRENCY"
    using s(1) by (auto simp: hash_pool_new_def Let_def pool_rank_def split: if_splits)
  note all = enqueue_all_frame [OF s(2) hash_pool_new_inv [OF s(1)], of digest]
  show "pool_inv digest s \<and> hp_history s = uploads" "pool_rank s = length uploads"
    "0 \<in> set (hp_resolved s) \<union> set (hp_drainWaiters s)"
    "hp_concurrency s = default_to c DEFAULT_BLOCK_HASH_CONCURRENCY"
    unfolding s(3) using all new drain_start_frame by (simp_all add: drain_start_inv)
qed

lemma parallel_start_ok:
  assumes "0 < default_to c DEFAULT_BLOCK_HASH_CONCURRENCY"
  shows "\<exists>s. computeUploadBlockHashesParallel_start uploads c = Inr s"
proof -
  obtain s0 where s0: "hash_pool_new c = Inr s0" "\<not> hp_closed s0"
    using assms by (simp add: hash_pool_new_def Let_def)
  then obtain s1 where "enqueue_all uploads s0 = Inr s1" using enqueue_all_ok by blast
  with s0 show ?thesis by (simp add: computeUploadBlockHashesParallel_start_def)
qed

lemma pool_stuck:
  assumes "pool_inv digest s" "\<not> (\<exists>t. pool_settles digest s t)"
  shows "hp_running s = []" "hp_queue s = []" "hp_drainWaiters s = []"
    "hp_completed s = hp_totalEnqueued s"
proof -
  show r: "hp_running s = []" using assms(2) settle [of 0 s digest] by auto
  then have f: "hp_inFlight s = 0" using assms(1) by (simp add: pool_inv_def)
  then show q: "hp_queue s = []" using assms(1) by (auto simp: pool_inv_def)
  show "hp_drainWaiters s = []" "hp_completed s = hp_totalEnqueued s"
    using assms(1) f q by (auto simp: pool_inv_def)
qed

lemma pool_results:
  assumes inv: "pool_inv digest s" and idle: "hp_running s = []" "hp_queue s = []"
    and dist: "jm_wf (hp_history s)"
  shows "jm_get (hp_results s) t = Option.bind (jm_get (hp_history s) t) (\<lambda>d. digest (t, d))"
proof -
  have only: "\<exists>d. (t, d) \<in> set (hp_history s) \<and> digest (t, d) = Some h"
    if "jm_get (hp_results s) t = Some h" for h
    using inv that unfolding pool_inv_def by blast
  have all: "jm_get (hp_results s) t \<noteq> None"
    if "(t, d) \<in> set (hp_history s)" "digest (t, d) \<noteq> None" for d
    using inv idle that unfolding pool_inv_def by auto
  have get: "(t, d) \<in> set (hp_history s) \<longleftrightarrow> jm_get (hp_history s) t = Some d" for d
    using dist by (auto simp: jm_wf_def)
  show ?thesis
  proof (cases "jm_get (hp_results s) t")
    case None
    show ?thesis
    proof (cases "jm_get (hp_history s) t")
      case (Some d)
      with get have "(t, d) \<in> set (hp_history s)" by simp
      with all None have "digest (t, d) = None" by blast
      with Some None show ?thesis by simp
    qed (simp add: None)
  next
    case (Some h)
    with only get show ?thesis by auto
  qed
qed

section \<open>Properties\<close>

text \<open>C6. Hashing the upload blocks in parallel is correct under every schedule: however the event
  loop orders the digests, never more than \<open>concurrency\<close> run at once, a run has at most one
  settlement per block, and once no digest is pending, the caller of \<open>drain\<close> has been
  resumed (no wake-up is lost), every block was counted, and the result maps each token to the hash
  of its own block (a failed digest leaves its token out).\<close>

theorem hash_pool_drain:
  assumes "computeUploadBlockHashesParallel_start uploads c = Inr s0" "jm_wf uploads"
    and "(pool_settles digest ^^ n) s0 s"
  shows "hp_inFlight s \<le> default_to c DEFAULT_BLOCK_HASH_CONCURRENCY \<and> n \<le> length uploads \<and>
    (n < length uploads \<longrightarrow> hp_resolved s = [] \<and> (\<exists>t. pool_settles digest s t)) \<and>
    (n = length uploads \<longrightarrow> 0 \<in> set (hp_resolved s) \<and> hp_completed s = int (length uploads) \<and>
       (\<forall>t. jm_get (hp_results s) t = Option.bind (jm_get uploads t) (\<lambda>d. digest (t, d))))"
proof -
  note start = parallel_start_frame(1) [OF assms(1), of digest, THEN conjunct1]
    parallel_start_frame(1) [OF assms(1), of digest, THEN conjunct2]
    parallel_start_frame(2-) [OF assms(1)]
  note fr = settles_frame [OF assms(3)]
  have inv: "pool_inv digest s"
    using relpowp_imp_rtranclp [OF assms(3)] start(1) by (rule pool.inv_steps)
  have conc: "hp_inFlight s \<le> default_to c DEFAULT_BLOCK_HASH_CONCURRENCY"
    using inv fr start(5) by (simp add: pool_inv_def)
  have rank: "n + pool_rank s = length uploads" using fr start(3) by simp
  have busy: "hp_resolved s = [] \<and> (\<exists>t. pool_settles digest s t)" if "n < length uploads"
  proof -
    have "hp_running s \<noteq> []"
      using rank that inv by (auto simp: pool_rank_def pool_inv_def)
    then have "\<exists>t. pool_settles digest s t" using settle [of 0 s digest] by auto
    moreover have "hp_resolved s = []" using inv \<open>hp_running s \<noteq> []\<close> by (auto simp: pool_inv_def)
    ultimately show ?thesis by blast
  qed
  have fin: "0 \<in> set (hp_resolved s) \<and> hp_completed s = int (length uploads) \<and>
       (\<forall>t. jm_get (hp_results s) t = Option.bind (jm_get uploads t) (\<lambda>d. digest (t, d)))"
    if "n = length uploads"
  proof -
    have idle: "hp_running s = []" "hp_queue s = []" using rank that by (auto simp: pool_rank_def)
    then have w: "hp_drainWaiters s = []" and "hp_inFlight s = 0" using inv by (auto simp: pool_inv_def)
    then have "hp_completed s = int (length uploads)"
      using inv idle fr start(2) by (auto simp: pool_inv_def)
    moreover have "jm_get (hp_results s) t = Option.bind (jm_get uploads t) (\<lambda>d. digest (t, d))" for t
      using pool_results [OF inv idle] assms(2) fr start(2) by simp
    moreover have "0 \<in> set (hp_resolved s)" using fr start(4) w by auto
    ultimately show ?thesis by blast
  qed
  show ?thesis using conc rank busy fin by auto
qed

definition demo_digest :: "hash_job \<Rightarrow> string option" where
  "demo_digest job = Some (computeBlockHashSha256 (\<lambda>d. d) (snd job))"

lemma hash_pool_drain_witness:
  "\<exists>s0 s. computeUploadBlockHashesParallel_start [(''t1'', [1]), (''t2'', [31])] (Some 1) = Inr s0 \<and>
     (pool_settles demo_digest ^^ 2) s0 s \<and> jm_get (hp_results s) ''t2'' = Some ''1f''"
proof -
  let ?ups = "[(''t1'', [1]), (''t2'', [31])]"
  obtain s0 where s0: "computeUploadBlockHashesParallel_start ?ups (Some 1) = Inr s0"
    using parallel_start_ok [of "Some 1"] by (auto simp: default_to_def)
  have wf: "jm_wf ?ups" by (simp add: jm_wf_def)
  have "\<exists>t. pool_settles demo_digest s0 t"
    using hash_pool_drain [OF s0 wf, of 0] by simp
  then obtain s1 where s1: "pool_settles demo_digest s0 s1" ..
  then have one: "(pool_settles demo_digest ^^ Suc 0) s0 s1" by (simp add: relpowp.simps eq_OO)
  have "\<exists>t. pool_settles demo_digest s1 t"
    using hash_pool_drain [OF s0 wf one] by simp
  then obtain s where "pool_settles demo_digest s1 s" ..
  with s1 have two: "(pool_settles demo_digest ^^ 2) s0 s" by (auto simp: numeral_2_eq_2)
  have "demo_digest (''t2'', [31]) = Some ''1f''" by code_simp
  then have "jm_get (hp_results s) ''t2'' = Some ''1f''"
    using hash_pool_drain [OF s0 wf two] by simp
  with s0 two show ?thesis by blast
qed

end
