(* ===== verification/Resilience.thy ===== *)
theory Resilience
  imports Router
begin

text \<open>
  The retry layer, \<open>resilience/\<close>: the messages of the thrown classes, the classification of
  failures, the exponential backoff, the PUT retry loop, and the ramp of the stripe concurrency
  (\<open>stripe-put-concurrency.ts\<close>). A PUT is an action on the world and \<open>sleep\<close> a
  world transformer given the delay, so a loop's delays can be observed.
\<close>

section \<open>Messages\<close>

fun join :: "string \<Rightarrow> string list \<Rightarrow> string" where
  "join sep [] = []"
| "join sep [s] = s"
| "join sep (s # t # ts) = s @ sep @ join sep (t # ts)"

text \<open>
  \<open>formatPutCauseMessage\<close> and \<open>formatPutFailureDetail\<close>, given the cause's message: the text of an
  \<open>Error\<close> or of a thrown string, unless it is blank.
\<close>

definition nonblank :: "string \<Rightarrow> string option" where
  "nonblank s = (if trim s \<noteq> [] then Some s else None)"

definition cause_detail :: "thrown \<Rightarrow> string \<Rightarrow> string option" where
  "cause_detail cause message =
     (case cause of OtherThrow s \<Rightarrow> nonblank s | _ \<Rightarrow> nonblank message)"

text \<open>\<open>error.message\<close>; a thrown string has none.\<close>

fun error_message :: "thrown \<Rightarrow> string" where
  "error_message (ErrorObj m) = m"
| "error_message (TypeErrorObj m) = m"
| "error_message (TokenPlacementExpiredError t) = ''token placement expired: '' @ t"
| "error_message (RegistryTokenOccupiedError os) =
     ''registry tokens occupied: '' @ join '', '' (map occ_token os)"
| "error_message (PutRetryExhaustedError attempts cause) =
     default_to (cause_detail cause (error_message cause)) ''PUT retries exhausted''"
| "error_message (UploadPutError token attempts cause) =
     ''PUT failed for token '' @ token @ '' after '' @ dec_int attempts @ '' attempt(s)'' @
     (case cause_detail cause (error_message cause) of Some d \<Rightarrow> '': '' @ d | None \<Rightarrow> [])"
| "error_message (UploadTokenReservationExhaustedError attempts os) =
     ''upload token reservation failed after '' @ dec_int attempts @ '' attempts; '' @
     ''last occupied: '' @ join '', '' (map occ_token os)"
| "error_message (OtherThrow s) = []"

definition formatPutCauseMessage :: "thrown \<Rightarrow> string option" where
  "formatPutCauseMessage cause = cause_detail cause (error_message cause)"

lemma error_message_exhausted:
  "error_message (PutRetryExhaustedError n e) =
     default_to (formatPutCauseMessage e) ''PUT retries exhausted''"
  by (simp add: formatPutCauseMessage_def)

section \<open>Which failures are worth another PUT\<close>

definition status_here :: "string \<Rightarrow> nat option" where
  "status_here s =
     (let ds = take 3 (drop 5 s)
      in if starts_with s ''HTTP '' \<and> length ds = 3 \<and> list_all is_digit ds
         then Some (fold (\<lambda>c n. 10 * n + digit_val c) ds 0) else None)"

text \<open>The first match of \<open>/HTTP (\d{3})/\<close>.\<close>

fun readHttpStatusFromMessage :: "string \<Rightarrow> nat option" where
  "readHttpStatusFromMessage [] = None"
| "readHttpStatusFromMessage (c # s) = (case status_here (c # s) of
     Some n \<Rightarrow> Some n | None \<Rightarrow> readHttpStatusFromMessage s)"

definition transient_words :: "string list" where
  "transient_words = [''Failed to fetch'', ''NetworkError'', ''Load failed'', ''network'',
     ''timed out'', ''timeout'', ''aborted'']"

definition isTransientPutFailure :: "thrown \<Rightarrow> bool" where
  "isTransientPutFailure error =
     (case error of
        TypeErrorObj _ \<Rightarrow> True
      | _ \<Rightarrow>
        if \<not> is_Error error then False
        else let message = error_message error
             in if matches_any_ci transient_words message then True
                else case readHttpStatusFromMessage message of
                       None \<Rightarrow> False
                     | Some status \<Rightarrow> status = 408 \<or> status = 429 \<or> 500 \<le> status)"

section \<open>Backoff and the PUT loop\<close>

definition backoffDelayMs :: "int \<Rightarrow> int \<Rightarrow> int" where
  "backoffDelayMs baseDelayMs attempt = baseDelayMs * 2 ^ nat (attempt - 1)"

record put_retry_policy =
  rp_maxAttempts :: int
  rp_baseDelayMs :: int
  rp_transientMaxAttempts :: "int option"

definition DEFAULT_PUT_TRANSIENT_MAX_ATTEMPTS :: int where
  "DEFAULT_PUT_TRANSIENT_MAX_ATTEMPTS = 8"

definition transient_limit :: "put_retry_policy \<Rightarrow> int" where
  "transient_limit policy =
     default_to (rp_transientMaxAttempts policy) DEFAULT_PUT_TRANSIENT_MAX_ATTEMPTS"

definition attempt_limit :: "put_retry_policy \<Rightarrow> thrown \<Rightarrow> int" where
  "attempt_limit policy error =
     (if isTransientPutFailure error then transient_limit policy else rp_maxAttempts policy)"

lemma attempt_limit_le:
  "attempt_limit policy e \<le> max (transient_limit policy) (rp_maxAttempts policy)"
  by (simp add: attempt_limit_def)

text \<open>The \<open>while (true)\<close> loop; \<open>attempt\<close> counts the PUTs made before this round.\<close>

function put_loop ::
    "put_retry_policy \<Rightarrow> ('w, unit) act \<Rightarrow> (int \<Rightarrow> 'w \<Rightarrow> 'w) \<Rightarrow> int \<Rightarrow> ('w, unit) act" where
  "put_loop policy put sleep attempt w =
     (case put w of
        (Inr _, w') \<Rightarrow> (Inr (), w')
      | (Inl error, w') \<Rightarrow>
          if attempt_limit policy error \<le> attempt + 1
          then (Inl (PutRetryExhaustedError (attempt + 1) error), w')
          else put_loop policy put sleep (attempt + 1)
                 (sleep (backoffDelayMs (rp_baseDelayMs policy) (attempt + 1)) w'))"
  by pat_completeness auto
termination
proof (relation "measure (\<lambda>(policy, _, _, attempt, _).
    nat (max (transient_limit policy) (rp_maxAttempts policy) - attempt))")
  fix policy :: put_retry_policy and put :: "('w, unit) act" and sleep :: "int \<Rightarrow> 'w \<Rightarrow> 'w"
    and attempt :: int and w r w' error
  assume "\<not> attempt_limit policy error \<le> attempt + 1"
  then show "((policy, put, sleep, attempt + 1,
        sleep (backoffDelayMs (rp_baseDelayMs policy) (attempt + 1)) w'),
      policy, put, sleep, attempt, w)
    \<in> measure (\<lambda>(policy, _, _, attempt, _).
        nat (max (transient_limit policy) (rp_maxAttempts policy) - attempt))"
    using attempt_limit_le [of policy error] by auto
qed simp

declare put_loop.simps [simp del]

definition putWithRetry ::
    "('w, unit) act \<Rightarrow> (int \<Rightarrow> 'w \<Rightarrow> 'w) \<Rightarrow> put_retry_policy \<Rightarrow> ('w, unit) act" where
  "putWithRetry put sleep policy =
     (if rp_maxAttempts policy \<le> 0
      then athrow (ErrorObj ''maxAttempts must be greater than zero'')
      else put_loop policy put sleep 0)"

text \<open>
  Scripted runs: the outcome of the \<open>i\<close>-th PUT is \<open>os i\<close>; the world counts the PUTs and collects
  the delays. Every use of the loop with some PUT is such a run.
\<close>

definition scripted_put :: "(nat \<Rightarrow> unit res) \<Rightarrow> (nat \<times> int list, unit) act" where
  "scripted_put os w = (os (fst w), (Suc (fst w), snd w))"

definition scripted_sleep :: "int \<Rightarrow> nat \<times> int list \<Rightarrow> nat \<times> int list" where
  "scripted_sleep d w = (fst w, snd w @ [d])"

definition put_outcome_ends :: "put_retry_policy \<Rightarrow> (nat \<Rightarrow> unit res) \<Rightarrow> nat \<Rightarrow> bool" where
  "put_outcome_ends policy os k = (case os k of
     Inr _ \<Rightarrow> True | Inl e \<Rightarrow> attempt_limit policy e \<le> int k + 1)"

lemma put_outcome_ends_bound:
  "max (transient_limit policy) (rp_maxAttempts policy) \<le> int k + 1 \<Longrightarrow> put_outcome_ends policy os k"
  using attempt_limit_le [of policy] order_trans
  by (fastforce simp: put_outcome_ends_def split: sum.split)

lemma put_loop_scripted:
  assumes "put_outcome_ends policy os k" "\<And>j. i \<le> j \<Longrightarrow> j < k \<Longrightarrow> \<not> put_outcome_ends policy os j"
    and "i \<le> k"
  shows "put_loop policy (scripted_put os) scripted_sleep (int i) (i, ds) =
     ((case os k of Inr _ \<Rightarrow> Inr () | Inl e \<Rightarrow> Inl (PutRetryExhaustedError (int k + 1) e)),
      (Suc k, ds @ map (\<lambda>j. rp_baseDelayMs policy * 2 ^ j) [i..<k]))"
  using assms
proof (induction "k - i" arbitrary: i ds)
  case 0
  then have "i = k" by simp
  with 0 show ?case
    by (subst put_loop.simps) (auto simp: scripted_put_def put_outcome_ends_def split: sum.splits)
next
  case (Suc n)
  then have less: "i < k" and "\<not> put_outcome_ends policy os i" by auto
  then obtain e where e: "os i = Inl e" "\<not> attempt_limit policy e \<le> int i + 1"
    by (auto simp: put_outcome_ends_def split: sum.splits)
  have IH: "put_loop policy (scripted_put os) scripted_sleep (int (Suc i)) (Suc i, ds') =
     ((case os k of Inr _ \<Rightarrow> Inr () | Inl e \<Rightarrow> Inl (PutRetryExhaustedError (int k + 1) e)),
      (Suc k, ds' @ map (\<lambda>j. rp_baseDelayMs policy * 2 ^ j) [Suc i..<k]))" for ds'
    using Suc.hyps(2) Suc.prems less by (intro Suc.hyps(1)) auto
  show ?case
    using e IH less
    by (subst put_loop.simps)
      (simp add: scripted_put_def scripted_sleep_def backoffDelayMs_def upt_conv_Cons add.commute)
qed

section \<open>The ramp of the stripe concurrency\<close>

datatype hop_protocol = H2 | Http11 | UnknownHop

definition resolveRampedStripeConcurrency :: "int \<Rightarrow> int \<Rightarrow> int" where
  "resolveRampedStripeConcurrency completedBlocks maxConcurrency =
     (let staged = (if 3 \<le> completedBlocks then 6 else if 2 \<le> completedBlocks then 4
                    else if 1 \<le> completedBlocks then 2 else 1)
      in min maxConcurrency staged)"

definition parseHopProtocol :: "string option \<Rightarrow> hop_protocol" where
  "parseHopProtocol raw = (case raw of
     None \<Rightarrow> UnknownHop
   | Some s \<Rightarrow>
       if s = [] then UnknownHop
       else let normalized = map lower_char s
            in if normalized = ''h2'' \<or> str_includes normalized ''http/2'' then H2
               else if str_includes normalized ''http/1'' then Http11
               else UnknownHop)"

text \<open>An entry of the Performance API: its name and \<open>nextHopProtocol\<close>.\<close>

record perf_entry =
  pe_name :: string
  pe_nextHopProtocol :: "string option"

text \<open>The newest entry at or after \<open>beforeCount\<close> whose name starts with the sample URL.\<close>

definition find_sample_entry :: "string \<Rightarrow> nat \<Rightarrow> perf_entry list \<Rightarrow> perf_entry option" where
  "find_sample_entry sampleUrl beforeCount entries =
     find (\<lambda>e. pe_name e = sampleUrl \<or> starts_with (pe_name e) sampleUrl)
       (rev (drop beforeCount entries))"

definition detectRelayHopProtocol ::
    "('w \<Rightarrow> perf_entry list) option \<Rightarrow> (string \<Rightarrow> ('w, unit) act) \<Rightarrow> string \<Rightarrow> ('w, hop_protocol) act"
where
  "detectRelayHopProtocol performance head sampleUrl = (case performance of
     None \<Rightarrow> areturn UnknownHop
   | Some entries_of \<Rightarrow>
       abind (aget entries_of) (\<lambda>before.
       acatch
         (aseq (head sampleUrl) (abind (aget entries_of) (\<lambda>entries.
            areturn (case find_sample_entry sampleUrl (length before) entries of
                Some e \<Rightarrow> parseHopProtocol (pe_nextHopProtocol e)
              | None \<Rightarrow> if entries = [] then UnknownHop
                        else parseHopProtocol (pe_nextHopProtocol (last entries))))))
         (\<lambda>_. areturn UnknownHop)))"

record ramp_options =
  ro_relayCount :: "int option"
  ro_explicit :: "bool option"
  ro_hopProtocol :: hop_protocol
  ro_uses32MiBWireBlocks :: bool
  ro_isBrowser :: "bool option"

text \<open>
  \<open>isBrowserRuntime\<close> of this file only asks for a \<open>window\<close>; its answer is the parameter
  \<open>hasWindow\<close>.
\<close>

definition resolveStripeRampConcurrency :: "bool \<Rightarrow> ramp_options \<Rightarrow> bool" where
  "resolveStripeRampConcurrency hasWindow options =
     (case ro_explicit options of
        Some b \<Rightarrow> b
      | None \<Rightarrow>
          if \<not> ro_uses32MiBWireBlocks options then False
          else if (case ro_relayCount options of Some n \<Rightarrow> 1 < n | None \<Rightarrow> False) then False
          else if \<not> default_to (ro_isBrowser options) hasWindow then False
          else ro_hopProtocol options \<noteq> H2)"

definition RAMP_SLOT_POLL_MS :: int where
  "RAMP_SLOT_POLL_MS = 16"

text \<open>
  One test of \<open>waitForStripePutSlot\<close>'s loop: it returns when the test holds and polls again
  otherwise, reading the counters afresh.
\<close>

definition stripe_slot_limit :: "bool \<Rightarrow> int \<Rightarrow> int \<Rightarrow> int" where
  "stripe_slot_limit rampConcurrency completed maxConcurrency =
     (if rampConcurrency then resolveRampedStripeConcurrency completed maxConcurrency
      else maxConcurrency)"

definition stripe_slot_free :: "bool \<Rightarrow> int \<Rightarrow> int \<Rightarrow> int \<Rightarrow> bool" where
  "stripe_slot_free rampConcurrency inFlight completed maxConcurrency \<longleftrightarrow>
     inFlight < stripe_slot_limit rampConcurrency completed maxConcurrency"

lemma ramped_bounds:
  "0 < m \<Longrightarrow> 1 \<le> resolveRampedStripeConcurrency c m \<and> resolveRampedStripeConcurrency c m \<le> m \<and>
     resolveRampedStripeConcurrency c m \<le> 6"
  by (auto simp: resolveRampedStripeConcurrency_def Let_def min_def)

lemma ramped_mono:
  "c \<le> d \<Longrightarrow> resolveRampedStripeConcurrency c m \<le> resolveRampedStripeConcurrency d m"
  by (auto simp: resolveRampedStripeConcurrency_def Let_def min_def)

section \<open>Properties\<close>

text \<open>C9. The PUT retry loop always ends, after between one and
  \<open>max(maxAttempts, transientMaxAttempts)\<close> PUTs: there is a first outcome that is a success or a
  failure whose own limit (transient or not) is used up, the loop stops exactly there with
  success or with \<open>PutRetryExhaustedError\<close> carrying the number of PUTs and the last failure, and
  it slept the exponentially growing delays \<open>base, 2 base, 4 base, ...\<close> between the attempts.\<close>

theorem putWithRetry_spec:
  assumes "0 < rp_maxAttempts policy"
  shows "\<exists>k. put_outcome_ends policy os k \<and> (\<forall>j < k. \<not> put_outcome_ends policy os j) \<and>
    int k + 1 \<le> max 1 (max (transient_limit policy) (rp_maxAttempts policy)) \<and>
    putWithRetry (scripted_put os) scripted_sleep policy (0, []) =
      ((case os k of Inr _ \<Rightarrow> Inr () | Inl e \<Rightarrow> Inl (PutRetryExhaustedError (int k + 1) e)),
       (Suc k, map (\<lambda>j. rp_baseDelayMs policy * 2 ^ j) [0..<k]))"
proof -
  let ?m = "nat (max (transient_limit policy) (rp_maxAttempts policy) - 1)"
  define k where "k = (LEAST k. put_outcome_ends policy os k)"
  have m: "put_outcome_ends policy os ?m" by (rule put_outcome_ends_bound) linarith
  then have k: "put_outcome_ends policy os k" unfolding k_def by (rule LeastI)
  have below: "\<not> put_outcome_ends policy os j" if "j < k" for j
    using that unfolding k_def by (rule not_less_Least)
  have "k \<le> ?m" unfolding k_def using m by (rule Least_le)
  then have bound: "int k + 1 \<le> max 1 (max (transient_limit policy) (rp_maxAttempts policy))"
    by linarith
  have "putWithRetry (scripted_put os) scripted_sleep policy (0, []) =
      ((case os k of Inr _ \<Rightarrow> Inr () | Inl e \<Rightarrow> Inl (PutRetryExhaustedError (int k + 1) e)),
       (Suc k, map (\<lambda>j. rp_baseDelayMs policy * 2 ^ j) [0..<k]))"
    using put_loop_scripted [OF k below, of 0 "[]"] assms by (simp add: putWithRetry_def)
  with k below bound show ?thesis by blast
qed

definition demo_put_policy :: put_retry_policy where
  "demo_put_policy = \<lparr>rp_maxAttempts = 2, rp_baseDelayMs = 100, rp_transientMaxAttempts = Some 3\<rparr>"

lemma putWithRetry_spec_witness:
  "\<exists>k. putWithRetry (scripted_put (\<lambda>i. if i = 0 then Inl (ErrorObj ''HTTP 503'') else Inr ()))
     scripted_sleep demo_put_policy (0, []) = (Inr (), (Suc k, map (\<lambda>j. 100 * 2 ^ j) [0..<k])) \<and> k = 1"
proof -
  let ?os = "\<lambda>i::nat. if i = 0 then Inl (ErrorObj ''HTTP 503'') else (Inr () :: unit res)"
  have e0: "\<not> put_outcome_ends demo_put_policy ?os 0" by code_simp
  have e1: "put_outcome_ends demo_put_policy ?os 1" by code_simp
  have "0 < rp_maxAttempts demo_put_policy" by (simp add: demo_put_policy_def)
  from putWithRetry_spec [OF this, of ?os] obtain k where
    k: "put_outcome_ends demo_put_policy ?os k" "\<forall>j < k. \<not> put_outcome_ends demo_put_policy ?os j"
    and run: "putWithRetry (scripted_put ?os) scripted_sleep demo_put_policy (0, []) =
      ((case ?os k of Inr _ \<Rightarrow> Inr () | Inl e \<Rightarrow> Inl (PutRetryExhaustedError (int k + 1) e)),
       (Suc k, map (\<lambda>j. rp_baseDelayMs demo_put_policy * 2 ^ j) [0..<k]))"
    by blast
  have "k \<noteq> 0" using k(1) e0 by metis
  moreover have "\<not> 1 < k" using k(2) e1 by blast
  ultimately have "k = 1" by simp
  then show ?thesis using run by (simp add: demo_put_policy_def)
qed

text \<open>A relay answering a client error is not given up on at once: a failure of a relay with
  a plain host name and a 4xx status other than 408 and 429 counts as non-transient but is still
  tried \<open>maxAttempts\<close> times, and when the URL in the message contains the word \<open>network\<close> it is
  treated as a transient network failure and tried \<open>transientMaxAttempts\<close> times, whatever
  the status.\<close>

theorem client_error_retried:
  "attempt_limit policy (ErrorObj ''PUT https://relay.example.org/b/t failed: HTTP 404'') =
     rp_maxAttempts policy \<and>
   attempt_limit policy (ErrorObj (''PUT https://relay.network/'' @ path @ '' failed: HTTP 404'')) =
     transient_limit policy"
proof -
  have "\<not> isTransientPutFailure (ErrorObj ''PUT https://relay.example.org/b/t failed: HTTP 404'')"
    by code_simp
  moreover have "str_includes (map lower_char (''PUT https://relay.network/'')) (map lower_char ''network'')"
    by code_simp
  then have "str_includes (map lower_char (''PUT https://relay.network/'' @ path @ '' failed: HTTP 404''))
      (map lower_char ''network'')"
    unfolding map_append by (rule includes_append1)
  then have "isTransientPutFailure (ErrorObj (''PUT https://relay.network/'' @ path @ '' failed: HTTP 404''))"
    by (simp add: isTransientPutFailure_def is_Error_def matches_any_ci_def transient_words_def Let_def
        del: map_append)
  ultimately show ?thesis by (simp add: attempt_limit_def)
qed

end
