(* ===== verification/Bodies.thy ===== *)
theory Bodies
  imports Resilience Progress
begin

text \<open>
  Moving one wire block: reading a GET body (\<open>transport/get-response-body.ts\<close>), writing a PUT body
  (\<open>transport/put-wire-block-body.ts\<close>), the upload client (\<open>transport/fetch-upload-client.ts\<close>) and
  the GET with fallback targets (\<open>resilience/get-with-fallbacks.ts\<close>). \<open>fetch\<close>, the stream reader
  and \<open>XMLHttpRequest\<close> belong to the browser: a request is an action that yields a response value,
  a stream is the chunks it delivers and the error that ends it, if one does. A progress listener
  transforms the world; \<open>None\<close> is the undefined listener.
\<close>

type_synonym 'w listener = "(byte_progress \<Rightarrow> 'w \<Rightarrow> 'w) option"

definition notify :: "'w listener \<Rightarrow> int \<Rightarrow> int option \<Rightarrow> 'w \<Rightarrow> 'w" where
  "notify l transferred tot w = (case l of
     None \<Rightarrow> w
   | Some f \<Rightarrow> f \<lparr>bp_bytesTransferred = transferred, bp_bytesTotal = tot\<rparr> w)"

text \<open>
  \<open>createThrottledProgressListener\<close> around a listener: its variables are a \<open>throttle\<close> kept in the
  world (\<open>get\<close>, \<open>put\<close>), the clock is \<open>now\<close>.
\<close>

definition createThrottledProgressListener ::
    "('w \<Rightarrow> int) \<Rightarrow> ('w \<Rightarrow> throttle) \<Rightarrow> (throttle \<Rightarrow> 'w \<Rightarrow> 'w) \<Rightarrow> 'w listener \<Rightarrow> int \<Rightarrow> 'w listener"
where
  "createThrottledProgressListener now get put l intervalMs = (case l of
     None \<Rightarrow> None
   | Some f \<Rightarrow> Some (\<lambda>p w. case throttle_call intervalMs (now w) p (get w) of
       (None, th) \<Rightarrow> put th w
     | (Some q, th) \<Rightarrow> f q (put th w)))"

section \<open>Reading a response body\<close>

record body_stream =
  st_hasReader :: bool
  st_chunks :: "bytes list"
  st_error :: "thrown option"

record body_response =
  br_status :: nat
  br_contentLength :: "jsnum option"
  br_body :: "body_stream option"
  br_arrayBuffer :: "bytes res"

record 'w read_options =
  ro_onDownloadProgress :: "'w listener"
  ro_expectedBytesTotal :: "jsnum option"
  ro_forceArrayBufferFallback :: bool

definition canUseStreamingResponseBody :: "body_response \<Rightarrow> bool" where
  "canUseStreamingResponseBody r \<longleftrightarrow> (case br_body r of Some b \<Rightarrow> st_hasReader b | None \<Rightarrow> False)"

definition usable_total :: "jsnum option \<Rightarrow> int option" where
  "usable_total n = (case n of
     Some (Fin q) \<Rightarrow> if 0 \<le> q then Some (trunc_rat q) else None
   | _ \<Rightarrow> None)"

definition resolveExpectedTotal :: "body_response \<Rightarrow> jsnum option \<Rightarrow> int option" where
  "resolveExpectedTotal r expectedBytesTotal =
     (case usable_total (br_contentLength r) of
        Some t \<Rightarrow> Some t | None \<Rightarrow> usable_total expectedBytesTotal)"

text \<open>The reader loop: an empty chunk is skipped, every other is kept and reported.\<close>

fun read_chunks ::
    "'w listener \<Rightarrow> int option \<Rightarrow> thrown option \<Rightarrow> bytes list \<Rightarrow> bytes list \<Rightarrow> int \<Rightarrow>
     ('w, bytes list \<times> int) act" where
  "read_chunks l tot err [] chunks transferred w =
     (case err of Some e \<Rightarrow> (Inl e, w) | None \<Rightarrow> (Inr (chunks, transferred), w))"
| "read_chunks l tot err (v # vs) chunks transferred w =
     (if v \<noteq> []
      then read_chunks l tot err vs (chunks @ [v]) (transferred + int (length v))
             (notify l (transferred + int (length v)) tot w)
      else read_chunks l tot err vs chunks transferred w)"

text \<open>\<open>buf.set(chunk, offset)\<close> on an array long enough, for every chunk in turn.\<close>

fun copy_chunks :: "bytes list \<Rightarrow> nat \<Rightarrow> bytes \<Rightarrow> bytes" where
  "copy_chunks [] offset buf = buf"
| "copy_chunks (c # cs) offset buf =
     copy_chunks cs (offset + length c)
       (take offset buf @ c @ drop (offset + length c) buf)"

definition readResponseBodyStreamingWithProgress ::
    "'w read_options \<Rightarrow> body_response \<Rightarrow> ('w, bytes) act" where
  "readResponseBodyStreamingWithProgress options response = (case br_body response of
     None \<Rightarrow> athrow (ErrorObj ''response body is null; cannot stream'')
   | Some body \<Rightarrow>
       let tot = resolveExpectedTotal response (ro_expectedBytesTotal options);
           l = ro_onDownloadProgress options
       in aseq (amodify (notify l 0 tot))
            (abind (read_chunks l tot (st_error body) (st_chunks body) [] 0)
              (\<lambda>(chunks, transferred).
                 let buf = copy_chunks chunks 0 (replicate (nat transferred) 0)
                 in aseq (amodify (notify l (int (length buf))
                            (Some (default_to tot (int (length buf))))))
                      (areturn buf))))"

definition readResponseBodyViaArrayBufferFallback ::
    "'w read_options \<Rightarrow> body_response \<Rightarrow> ('w, bytes) act" where
  "readResponseBodyViaArrayBufferFallback options response =
     (let tot = resolveExpectedTotal response (ro_expectedBytesTotal options);
          l = ro_onDownloadProgress options
      in aseq (amodify (notify l 0 tot))
           (abind (alift (br_arrayBuffer response)) (\<lambda>bytes.
              aseq (amodify (notify l (int (length bytes))
                       (Some (default_to tot (int (length bytes))))))
                (areturn bytes))))"

definition readResponseBody :: "'w read_options \<Rightarrow> body_response \<Rightarrow> ('w, bytes) act" where
  "readResponseBody options response =
     (if \<not> ro_forceArrayBufferFallback options \<and> canUseStreamingResponseBody response
      then readResponseBodyStreamingWithProgress options response
      else readResponseBodyViaArrayBufferFallback options response)"

lemma copy_chunks_concat:
  "length buf = offset + length (concat cs) \<Longrightarrow>
     copy_chunks cs offset buf = take offset buf @ concat cs"
proof (induction cs offset buf rule: copy_chunks.induct)
  case (1 offset buf)
  then show ?case by simp
next
  case (2 c cs offset buf)
  let ?out = "take offset buf @ c @ drop (offset + length c) buf"
  have "copy_chunks cs (offset + length c) ?out = take (offset + length c) ?out @ concat cs"
    using "2.prems" by (intro "2.IH") simp
  moreover have "take (offset + length c) ?out = take offset buf @ c"
    using "2.prems" by simp
  ultimately show ?case by simp
qed

lemma copy_chunks_fresh: "copy_chunks cs 0 (replicate (length (concat cs)) 0) = concat cs"
  by (simp add: copy_chunks_concat)

lemma read_chunks_result:
  assumes "transferred = int (length (concat chunks))"
  shows "fst (read_chunks l tot err vs chunks transferred w) =
    (case err of Some e \<Rightarrow> Inl e
     | None \<Rightarrow> Inr (chunks @ filter (\<lambda>v. v \<noteq> []) vs, int (length (concat (chunks @ vs)))))"
  using assms
  by (induction l tot err vs chunks transferred w rule: read_chunks.induct)
    (auto split: option.split)

lemma concat_nonempty: "concat (filter (\<lambda>v. v \<noteq> []) vs) = concat vs"
  by (induction vs) simp_all

lemma streaming_result:
  assumes "br_body response = Some body"
  shows "fst (readResponseBodyStreamingWithProgress options response w) =
    (case st_error body of Some e \<Rightarrow> Inl e | None \<Rightarrow> Inr (concat (st_chunks body)))"
proof -
  let ?tot = "resolveExpectedTotal response (ro_expectedBytesTotal options)"
  let ?l = "ro_onDownloadProgress options"
  let ?run = "read_chunks ?l ?tot (st_error body) (st_chunks body) [] 0"
  have copy: "copy_chunks (filter (\<lambda>v. v \<noteq> []) (st_chunks body)) 0
      (replicate (length (concat (st_chunks body))) 0) = concat (st_chunks body)"
    using copy_chunks_fresh [of "filter (\<lambda>v. v \<noteq> []) (st_chunks body)"]
    by (simp only: concat_nonempty)
  have res: "fst (?run w') = (case st_error body of Some e \<Rightarrow> Inl e
     | None \<Rightarrow> Inr (filter (\<lambda>v. v \<noteq> []) (st_chunks body), int (length (concat (st_chunks body)))))" for w'
    using read_chunks_result [of 0 "[]" ?l ?tot "st_error body" "st_chunks body" w'] by (simp split: option.splits)
  obtain r w2 where run: "?run (notify ?l 0 ?tot w) = (r, w2)" by fastforce
  show ?thesis
  proof (cases "st_error body")
    case (Some e)
    then have "r = Inl e" using res [of "notify ?l 0 ?tot w"] run by simp
    then show ?thesis
      using assms run Some
      by (simp add: readResponseBodyStreamingWithProgress_def Let_def aseq_def abind_def)
  next
    case None
    then have "r = Inr (filter (\<lambda>v. v \<noteq> []) (st_chunks body), int (length (concat (st_chunks body))))"
      using res [of "notify ?l 0 ?tot w"] run by simp
    then show ?thesis
      using assms run None copy
      by (simp add: readResponseBodyStreamingWithProgress_def Let_def aseq_def abind_def)
  qed
qed

lemma array_buffer_result:
  "fst (readResponseBodyViaArrayBufferFallback options response w) = br_arrayBuffer response"
  by (cases "br_arrayBuffer response")
    (simp_all add: readResponseBodyViaArrayBufferFallback_def Let_def aseq_def abind_def)

text \<open>
  A response whose two ways of delivering the body agree, as those of one HTTP response do.
\<close>

definition body_consistent :: "body_response \<Rightarrow> bool" where
  "body_consistent r \<longleftrightarrow> (case br_body r of
     None \<Rightarrow> True
   | Some b \<Rightarrow> br_arrayBuffer r =
       (case st_error b of Some e \<Rightarrow> Inl e | None \<Rightarrow> Inr (concat (st_chunks b))))"

lemma readResponseBody_result:
  "body_consistent response \<Longrightarrow> fst (readResponseBody options response w) = br_arrayBuffer response"
  by (auto simp: readResponseBody_def array_buffer_result canUseStreamingResponseBody_def
      streaming_result body_consistent_def split: option.splits)

section \<open>GET with fallback targets\<close>

record get_request =
  gq_url :: string
  gq_headers :: "(string, json) jsmap option"

text \<open>
  The candidates after the preferred one inherit its headers when they have none. The body is
  read through the throttled listener; an aborted signal is the world's \<open>aborted\<close>.
\<close>

definition candidates_of :: "relay_endpoint \<Rightarrow> get_request list" where
  "candidates_of endpoint =
     \<lparr>gq_url = ep_url endpoint, gq_headers = ep_headers endpoint\<rparr> #
     map (\<lambda>c. \<lparr>gq_url = ep_url c,
              gq_headers = (case ep_headers c of Some h \<Rightarrow> Some h | None \<Rightarrow> ep_headers endpoint)\<rparr>)
       (ep_fallbacks endpoint)"

record 'w get_options =
  go_fetchFn :: "get_request \<Rightarrow> ('w, body_response) act"
  go_rejectNonOk :: bool
  go_aborted :: "'w \<Rightarrow> bool"
  go_read :: "'w read_options"

definition status_ok :: "nat \<Rightarrow> bool" where
  "status_ok n \<longleftrightarrow> 200 \<le> n \<and> n \<le> 299"

definition get_candidate :: "string \<Rightarrow> 'w get_options \<Rightarrow> get_request \<Rightarrow> ('w, bytes) act" where
  "get_candidate token options c =
     abind (go_fetchFn options c) (\<lambda>response.
       if go_rejectNonOk options \<and> \<not> status_ok (br_status response)
       then athrow (ErrorObj (''GET '' @ token @ '' failed: HTTP '' @ dec (br_status response)))
       else readResponseBody (go_read options) response)"

definition get_failed :: "string \<Rightarrow> thrown option \<Rightarrow> thrown" where
  "get_failed token lastError = (case lastError of
     Some e \<Rightarrow> if is_Error e then e
               else ErrorObj (''GET '' @ token @ '' failed on all targets'')
   | None \<Rightarrow> ErrorObj (''GET '' @ token @ '' failed on all targets''))"

fun get_loop ::
    "string \<Rightarrow> 'w get_options \<Rightarrow> get_request list \<Rightarrow> thrown option \<Rightarrow> ('w, bytes) act" where
  "get_loop token options [] lastError w = (Inl (get_failed token lastError), w)"
| "get_loop token options (c # cs) lastError w =
     (case get_candidate token options c w of
        (Inr data, w') \<Rightarrow> (Inr data, w')
      | (Inl error, w') \<Rightarrow>
          if go_aborted options w' then (Inl error, w')
          else get_loop token options cs (Some error) w')"

definition getWithFallbacks ::
    "string \<Rightarrow> relay_endpoint \<Rightarrow> 'w get_options \<Rightarrow> ('w, bytes) act" where
  "getWithFallbacks token endpoint options = get_loop token options (candidates_of endpoint) None"

section \<open>PUT of a wire block\<close>

record put_request =
  pq_url :: string
  pq_headers :: "(string, json) jsmap"
  pq_body :: bytes

text \<open>
  What an \<open>XMLHttpRequest\<close> does after \<open>send\<close>: upload progress events (\<open>lengthComputable\<close>,
  \<open>loaded\<close>, \<open>total\<close>), then one of the closing events.
\<close>

datatype xhr_end = XhrLoad nat | XhrError | XhrAbort

record xhr_run =
  xr_progress :: "(bool \<times> int \<times> int) list"
  xr_end :: xhr_end

record 'w put_options =
  po_headers :: "(string, json) jsmap option"
  po_rejectNonOk :: "bool option"
  po_aborted :: "'w \<Rightarrow> bool"
  po_onUploadProgress :: "'w listener"

definition put_headers :: "(string, json) jsmap option \<Rightarrow> (string, json) jsmap" where
  "put_headers h =
     spread [(''Content-Type'', JStr ''application/octet-stream'')] (default_to h [])"

definition xhr_progress_event :: "'w listener \<Rightarrow> int \<Rightarrow> bool \<times> int \<times> int \<Rightarrow> 'w \<Rightarrow> 'w" where
  "xhr_progress_event l bytesTotal ev w = (case ev of (lengthComputable, loaded, tot) \<Rightarrow>
     notify l loaded (Some (if lengthComputable then tot else bytesTotal)) w)"

definition putBodyWithUploadProgressViaXhr ::
    "(put_request \<Rightarrow> 'w \<Rightarrow> xhr_run \<times> 'w) \<Rightarrow> 'w put_options \<Rightarrow> string \<Rightarrow> bytes \<Rightarrow> ('w, unit) act"
where
  "putBodyWithUploadProgressViaXhr xhr options url body w =
     (let bytesTotal = int (length body); l = po_onUploadProgress options;
          rq = \<lparr>pq_url = url, pq_headers = put_headers (po_headers options), pq_body = body\<rparr>
      in if po_aborted options w
         then (Inl (ErrorObj (''PUT '' @ url @ '' failed: aborted'')), w)
         else
           (case xhr rq (notify l 0 (Some bytesTotal) w) of (run, w1) \<Rightarrow>
             let w2 = fold (xhr_progress_event l bytesTotal) (xr_progress run) w1
             in case xr_end run of
                  XhrLoad status \<Rightarrow>
                    ((if po_rejectNonOk options \<noteq> Some False \<and> \<not> status_ok status
                      then Inl (ErrorObj (''PUT '' @ url @ '' failed: HTTP '' @ dec status))
                      else Inr ()), notify l bytesTotal (Some bytesTotal) w2)
                | XhrError \<Rightarrow> (Inl (ErrorObj (''PUT '' @ url @ '' failed: network error'')), w2)
                | XhrAbort \<Rightarrow> (Inl (ErrorObj (''PUT '' @ url @ '' failed: aborted'')), w2)))"

definition putBodyViaFetchFallback ::
    "(put_request \<Rightarrow> ('w, nat) act) \<Rightarrow> 'w put_options \<Rightarrow> string \<Rightarrow> bytes \<Rightarrow> ('w, unit) act" where
  "putBodyViaFetchFallback fetch options url body =
     abind (fetch \<lparr>pq_url = url, pq_headers = put_headers (po_headers options), pq_body = body\<rparr>)
       (\<lambda>status.
          if po_rejectNonOk options \<noteq> Some False \<and> \<not> status_ok status
          then athrow (ErrorObj (''PUT '' @ url @ '' failed: HTTP '' @ dec status))
          else amodify (notify (po_onUploadProgress options) (int (length body))
                 (Some (int (length body)))))"

text \<open>\<open>xhr\<close> is \<open>None\<close> where \<open>XMLHttpRequest\<close> is undefined.\<close>

definition putWireBlockBody ::
    "(put_request \<Rightarrow> 'w \<Rightarrow> xhr_run \<times> 'w) option \<Rightarrow> (put_request \<Rightarrow> ('w, nat) act) \<Rightarrow> bool \<Rightarrow>
     'w put_options \<Rightarrow> string \<Rightarrow> bytes \<Rightarrow> ('w, unit) act" where
  "putWireBlockBody xhr fetch forceFetchPutFallback options url body =
     (case xhr of
        Some x \<Rightarrow> if \<not> forceFetchPutFallback
                   then putBodyWithUploadProgressViaXhr x options url body
                   else putBodyViaFetchFallback fetch options url body
      | None \<Rightarrow> putBodyViaFetchFallback fetch options url body)"

section \<open>The upload client\<close>

text \<open>\<open>FetchUploadClient\<close>: the browser's functions and the client's fixed options.\<close>

record 'w upload_client =
  uc_fetch :: "put_request \<Rightarrow> ('w, nat) act"
  uc_xhr :: "(put_request \<Rightarrow> 'w \<Rightarrow> xhr_run \<times> 'w) option"
  uc_rejectNonOk :: bool
  uc_forceFetchPutFallback :: bool
  uc_throttle :: "'w listener \<Rightarrow> 'w listener"
  uc_performance :: "('w \<Rightarrow> perf_entry list) option"
  uc_head :: "string \<Rightarrow> ('w, unit) act"

definition upload_client_new ::
    "(put_request \<Rightarrow> ('w, nat) act) \<Rightarrow> (put_request \<Rightarrow> 'w \<Rightarrow> xhr_run \<times> 'w) option \<Rightarrow> bool option \<Rightarrow>
     bool option \<Rightarrow> ('w listener \<Rightarrow> 'w listener) \<Rightarrow> ('w \<Rightarrow> perf_entry list) option \<Rightarrow>
     (string \<Rightarrow> ('w, unit) act) \<Rightarrow> 'w upload_client" where
  "upload_client_new fetch xhr rejectNonOk forceFetch throttled performance head =
     \<lparr>uc_fetch = fetch, uc_xhr = xhr, uc_rejectNonOk = default_to rejectNonOk True,
      uc_forceFetchPutFallback = (forceFetch = Some True), uc_throttle = throttled,
      uc_performance = performance, uc_head = head\<rparr>"

definition client_put ::
    "'w upload_client \<Rightarrow> relay_endpoint \<Rightarrow> bytes \<Rightarrow> 'w listener \<Rightarrow> ('w \<Rightarrow> bool) \<Rightarrow> ('w, unit) act" where
  "client_put c endpoint body onUploadProgress aborted =
     putWireBlockBody (uc_xhr c) (uc_fetch c) (uc_forceFetchPutFallback c)
       \<lparr>po_headers = ep_headers endpoint, po_rejectNonOk = Some (uc_rejectNonOk c),
        po_aborted = aborted, po_onUploadProgress = uc_throttle c onUploadProgress\<rparr>
       (ep_url endpoint) body"

definition probeHopProtocol :: "'w upload_client \<Rightarrow> string \<Rightarrow> ('w, hop_protocol) act" where
  "probeHopProtocol c sampleUrl = detectRelayHopProtocol (uc_performance c) (uc_head c) sampleUrl"

definition putViaRouter ::
    "'w upload_client \<Rightarrow> (string \<Rightarrow> ('w, relay_endpoint) act) \<Rightarrow> string \<Rightarrow> bytes \<Rightarrow> 'w listener \<Rightarrow>
     ('w \<Rightarrow> bool) \<Rightarrow> ('w, unit) act" where
  "putViaRouter c resolve token body l aborted =
     abind (resolve token) (\<lambda>endpoint. client_put c endpoint body l aborted)"

section \<open>Properties\<close>

text \<open>C24. Reading a GET body by streaming gives the same bytes as reading it as an array buffer,
  whatever the chunking, and when the stream ends in an error that error is thrown and no partial
  body is returned.\<close>

theorem readResponseBody_streaming_equiv:
  assumes "br_body response = Some body"
    and "br_arrayBuffer response = (case st_error body of Some e \<Rightarrow> Inl e
           | None \<Rightarrow> Inr (concat (st_chunks body)))"
  shows "fst (readResponseBody (options\<lparr>ro_forceArrayBufferFallback := False\<rparr>) response w) =
         fst (readResponseBody (options\<lparr>ro_forceArrayBufferFallback := True\<rparr>) response w')"
  using assms by (simp add: readResponseBody_result body_consistent_def)

definition demo_response :: body_response where
  "demo_response = \<lparr>br_status = 200, br_contentLength = None,
     br_body = Some \<lparr>st_hasReader = True, st_chunks = [[1, 2], [], [3]], st_error = None\<rparr>,
     br_arrayBuffer = Inr [1, 2, 3]\<rparr>"

definition no_listener_read :: "'w read_options" where
  "no_listener_read = \<lparr>ro_onDownloadProgress = None, ro_expectedBytesTotal = None,
     ro_forceArrayBufferFallback = False\<rparr>"

lemma readResponseBody_streaming_equiv_witness:
  "fst (readResponseBody no_listener_read demo_response ()) =
   fst (readResponseBody (no_listener_read\<lparr>ro_forceArrayBufferFallback := True\<rparr>) demo_response ())"
  using readResponseBody_streaming_equiv [of demo_response
      "\<lparr>st_hasReader = True, st_chunks = [[1, 2], [], [3]], st_error = None\<rparr>"
      "no_listener_read" "()" "()"]
  by (simp add: demo_response_def no_listener_read_def)

text \<open>
  Scripted GETs: the response to each request is fixed, the world collects the URLs requested.
\<close>

definition scripted_get ::
    "(get_request \<Rightarrow> body_response res) \<Rightarrow> bool \<Rightarrow> string list get_options" where
  "scripted_get f rejectNonOk =
     \<lparr>go_fetchFn = (\<lambda>rq urls. (f rq, urls @ [gq_url rq])), go_rejectNonOk = rejectNonOk,
      go_aborted = (\<lambda>_. False), go_read = no_listener_read\<rparr>"

definition target_outcome ::
    "(get_request \<Rightarrow> body_response res) \<Rightarrow> bool \<Rightarrow> string \<Rightarrow> get_request \<Rightarrow> bytes res" where
  "target_outcome f rejectNonOk token c = rbind (f c) (\<lambda>r.
     if rejectNonOk \<and> \<not> status_ok (br_status r)
     then Inl (ErrorObj (''GET '' @ token @ '' failed: HTTP '' @ dec (br_status r)))
     else br_arrayBuffer r)"

lemma read_no_listener_world: "snd (readResponseBody no_listener_read r w) = w"
proof -
  have chunks: "snd (read_chunks None t err vs cs n w) = w"
    for t err vs cs n and w :: 'a
    by (induction "None :: 'a listener" t err vs cs n w rule: read_chunks.induct)
      (auto simp: notify_def split: option.split)
  show ?thesis
  proof (cases "canUseStreamingResponseBody r")
    case True
    then obtain b where b: "br_body r = Some b"
      by (auto simp: canUseStreamingResponseBody_def split: option.splits)
    obtain x w2 where run: "read_chunks None (resolveExpectedTotal r None) (st_error b) (st_chunks b) [] 0 w = (x, w2)"
      by fastforce
    moreover have "w2 = w" using chunks [of "resolveExpectedTotal r None" "st_error b" "st_chunks b" "[]" 0 w] run by simp
    ultimately show ?thesis using True b
      by (cases x) (auto simp: readResponseBody_def no_listener_read_def notify_def aseq_def
          abind_def readResponseBodyStreamingWithProgress_def Let_def)
  next
    case False
    then show ?thesis
      by (cases "br_arrayBuffer r") (simp_all add: readResponseBody_def no_listener_read_def
          readResponseBodyViaArrayBufferFallback_def notify_def aseq_def abind_def Let_def)
  qed
qed

lemma get_candidate_scripted:
  assumes "\<And>r. f c = Inr r \<Longrightarrow> body_consistent r"
  shows "get_candidate token (scripted_get f rej) c urls = (target_outcome f rej token c, urls @ [gq_url c])"
proof (cases "f c")
  case (Inl e)
  then show ?thesis
    by (simp add: get_candidate_def scripted_get_def target_outcome_def abind_def)
next
  case (Inr r)
  have "readResponseBody no_listener_read r w = (br_arrayBuffer r, w)" for w :: "string list"
    using readResponseBody_result [OF assms [OF Inr], of no_listener_read w]
      read_no_listener_world [of r w] by (metis prod.collapse)
  then show ?thesis
    by (simp add: get_candidate_def scripted_get_def target_outcome_def abind_def Inr)
qed


definition demo_endpoint :: relay_endpoint where
  "demo_endpoint = \<lparr>ep_url = ''https://a/t'', ep_headers = None,
     ep_fallbacks = [\<lparr>ep_url = ''https://b/t'', ep_headers = None\<rparr>]\<rparr>"


end
