(* ===== verification/Receive.thy ===== *)
theory Receive
  imports Bodies Systems
begin

text \<open>
  \<open>transport/fetch-receive-transport.ts\<close>: the download transport. Its maps are fields of
  \<open>receive_transport\<close>; every piece of a method between two awaits is one definition that
  transforms this state, and the promises it awaits settle through the events \<open>batch_settled\<close>
  (the registry answered a batch of tokens), \<open>get_progress\<close> and \<open>get_settled\<close> (the relay GET of a
  token). \<open>transport_step\<close> lets these events, cancellations and consumptions interleave in any
  order. \<open>get_loop\<close> puts the pieces of \<open>get\<close> together over an environment that says how awaited
  promises settle; its rounds are bounded by the two attempt limits, so it always ends.
  Activities are logged with the in-flight count and the byte count the listener would read.
\<close>

section \<open>State\<close>

datatype wait_reason = WaitRegistry | WaitRelay

datatype activity =
    Resolving int
  | DownloadStarted string
  | DownloadByteProgress int int int
  | Waiting string wait_reason int

text \<open>
  \<open>PendingGet\<close>: \<open>pg_outcome\<close> is the settled value of its promise, if it has one. A rejected entry
  made for a failed batch has no endpoint.
\<close>

record pending_get =
  pg_endpoint :: "relay_endpoint option"
  pg_outcome :: "bytes res option"

record receive_config =
  rc_resolveMaxAttempts :: int
  rc_resolveRetryDelayMs :: int
  rc_getMaxAttempts :: int
  rc_forceArrayBufferFallback :: bool
  rc_rejectNonOk :: bool

definition receive_config_new ::
    "bool option \<Rightarrow> int option \<Rightarrow> int option \<Rightarrow> int option \<Rightarrow> bool option \<Rightarrow> receive_config" where
  "receive_config_new rejectNonOk resolveMax retryDelay getMax forceArray =
     \<lparr>rc_resolveMaxAttempts = default_to resolveMax 20,
      rc_resolveRetryDelayMs = default_to retryDelay 500,
      rc_getMaxAttempts = default_to getMax 120,
      rc_forceArrayBufferFallback = (forceArray = Some True),
      rc_rejectNonOk = default_to rejectNonOk True\<rparr>"

definition REGISTRY_WAIT_BASE_DELAY_MS :: int where
  "REGISTRY_WAIT_BASE_DELAY_MS = 2000"

definition WAITING_ACTIVITY_MIN_INTERVAL_MS :: int where
  "WAITING_ACTIVITY_MIN_INTERVAL_MS = 3000"

definition WAITING_ACTIVITY_ATTEMPT_STEP :: int where
  "WAITING_ACTIVITY_ATTEMPT_STEP = 5"

record receive_transport =
  rt_pending :: "(string, pending_get) jsmap"
  rt_cancelledBeforeResolve :: "string set"
  rt_inflight :: "(string, nat) jsmap"
  rt_nextBatch :: nat
  rt_expectedWireBlockBytes :: "int option"
  rt_meter :: "string meter"
  rt_bufferedReceivedBytes :: "(string, int) jsmap"
  rt_listening :: bool
  rt_lastWaitingActivity :: "(string, int \<times> int) jsmap"
  rt_log :: "(activity \<times> int \<times> int) list"

definition transport_new :: "int option \<Rightarrow> receive_transport" where
  "transport_new expected =
     \<lparr>rt_pending = [], rt_cancelledBeforeResolve = {}, rt_inflight = [], rt_nextBatch = 0,
      rt_expectedWireBlockBytes =
        (case expected of Some b \<Rightarrow> if 0 < b then Some b else None | None \<Rightarrow> None),
      rt_meter = [], rt_bufferedReceivedBytes = [], rt_listening = False,
      rt_lastWaitingActivity = [], rt_log = []\<rparr>"

section \<open>Counters and activities\<close>

definition getReceivedWireBytesNotConsumed :: "receive_transport \<Rightarrow> int" where
  "getReceivedWireBytesNotConsumed s =
     sum_list (map snd (rt_bufferedReceivedBytes s)) + window_bytes (rt_meter s)"

definition inFlightCount :: "receive_transport \<Rightarrow> int" where
  "inFlightCount s = int (card (set (jm_keys (rt_pending s)) \<union> set (jm_keys (rt_inflight s))))"

definition emitActivity :: "activity \<Rightarrow> receive_transport \<Rightarrow> receive_transport" where
  "emitActivity a s =
     (if rt_listening s
      then s\<lparr>rt_log := rt_log s @ [(a, inFlightCount s, getReceivedWireBytesNotConsumed s)]\<rparr>
      else s)"

definition setActivityListener :: "bool \<Rightarrow> receive_transport \<Rightarrow> receive_transport" where
  "setActivityListener b s = s\<lparr>rt_listening := b\<rparr>"

definition setExpectedWireBlockBytes :: "int option \<Rightarrow> receive_transport \<Rightarrow> receive_transport" where
  "setExpectedWireBlockBytes bytes s = s\<lparr>rt_expectedWireBlockBytes :=
     (case bytes of Some b \<Rightarrow> if 0 < b then Some b else None | None \<Rightarrow> None)\<rparr>"

definition emitDownloadByteProgress :: "receive_transport \<Rightarrow> receive_transport" where
  "emitDownloadByteProgress s =
     emitActivity (DownloadByteProgress (window_bytes (rt_meter s)) (window_total (rt_meter s))
        (getReceivedWireBytesNotConsumed s)) s"

definition maybeEmitWaiting ::
    "string \<Rightarrow> wait_reason \<Rightarrow> int \<Rightarrow> int \<Rightarrow> receive_transport \<Rightarrow> receive_transport" where
  "maybeEmitWaiting token reason attempt nowMs s =
     (if (case jm_get (rt_lastWaitingActivity s) token of
            None \<Rightarrow> False
          | Some (prevAttempt, prevAt) \<Rightarrow>
              attempt \<noteq> 1 \<and> nowMs - prevAt < WAITING_ACTIVITY_MIN_INTERVAL_MS \<and>
              attempt - prevAttempt < WAITING_ACTIVITY_ATTEMPT_STEP)
      then s
      else emitActivity (Waiting token reason attempt)
             (s\<lparr>rt_lastWaitingActivity :=
                  jm_set token (attempt, nowMs) (rt_lastWaitingActivity s)\<rparr>))"

definition isTransientDownloadError :: "thrown \<Rightarrow> bool" where
  "isTransientDownloadError error =
     (case error of
        TokenPlacementExpiredError _ \<Rightarrow> False
      | _ \<Rightarrow>
        if \<not> is_Error error then False
        else list_ex (str_includes (error_message error))
               [''HTTP 404'', ''HTTP 503'', ''HTTP 502'', ''HTTP 429'', ''failed on all targets'',
                ''fetch failed'', ''network''])"

section \<open>Starting and cancelling\<close>

definition startGet :: "string \<Rightarrow> relay_endpoint \<Rightarrow> receive_transport \<Rightarrow> receive_transport" where
  "startGet token endpoint s =
     (let s1 = emitActivity (DownloadStarted token) s;
          s2 = s1\<lparr>rt_bufferedReceivedBytes := jm_delete token (rt_bufferedReceivedBytes s1),
                  rt_meter := meter_begin token (default_to (rt_expectedWireBlockBytes s1) 0)
                                (rt_meter s1)\<rparr>;
          s3 = emitDownloadByteProgress s2
      in s3\<lparr>rt_pending := jm_set token \<lparr>pg_endpoint = Some endpoint, pg_outcome = None\<rparr>
                            (rt_pending s3)\<rparr>)"

definition skips :: "receive_transport \<Rightarrow> string \<Rightarrow> bool" where
  "skips s token \<longleftrightarrow>
     jm_get (rt_pending s) token \<noteq> None \<or> token \<in> rt_cancelledBeforeResolve s"

definition needed_tokens :: "string list \<Rightarrow> receive_transport \<Rightarrow> string list" where
  "needed_tokens tokens s =
     filter (\<lambda>t. \<not> skips s t \<and> jm_get (rt_inflight s) t = None) (js_unique tokens)"

text \<open>
  \<open>ensureTokensStarted\<close> up to its promise: the tokens of the new batch and the batches the promise
  waits for. The head of \<open>resolveAndStart\<close> runs synchronously and emits \<open>resolving\<close>.
\<close>

definition ensureTokensStarted ::
    "string list \<Rightarrow> receive_transport \<Rightarrow> string list \<times> nat list \<times> receive_transport" where
  "ensureTokensStarted tokens s =
     (let needed = needed_tokens tokens s;
          s1 = (if needed \<noteq> []
                then let s0 = emitActivity (Resolving (int (length needed))) s
                     in s0\<lparr>rt_inflight :=
                             fold (\<lambda>t. jm_set t (rt_nextBatch s0)) needed (rt_inflight s0),
                           rt_nextBatch := rt_nextBatch s0 + 1\<rparr>
                else s);
          waits = List.map_filter (jm_get (rt_inflight s1)) tokens
      in (needed, waits, s1))"

fun start_resolved ::
    "endpoint_map \<Rightarrow> string list \<Rightarrow> receive_transport \<Rightarrow> receive_transport" where
  "start_resolved endpoints [] s = s"
| "start_resolved endpoints (token # tokens) s =
     start_resolved endpoints tokens
       (if skips s token then s
        else case jm_get endpoints token of
               None \<Rightarrow> s
             | Some endpoint \<Rightarrow> startGet token endpoint s)"

fun reject_pending :: "thrown \<Rightarrow> string list \<Rightarrow> receive_transport \<Rightarrow> receive_transport" where
  "reject_pending error [] s = s"
| "reject_pending error (token # tokens) s =
     reject_pending error tokens
       (if skips s token then s
        else s\<lparr>rt_pending := jm_set token
                 \<lparr>pg_endpoint = None, pg_outcome = Some (Inl error)\<rparr> (rt_pending s)\<rparr>)"

text \<open>
  The rest of \<open>resolveAndStart\<close> when \<open>resolveMany\<close> has settled, and the \<open>finally\<close> that takes the
  batch out of \<open>inflight\<close>.
\<close>

definition resolveAndStart ::
    "string list \<Rightarrow> endpoint_map res \<Rightarrow> receive_transport \<Rightarrow> unit res \<times> receive_transport" where
  "resolveAndStart tokens resolved s = (case resolved of
     Inr endpoints \<Rightarrow> (Inr (), start_resolved endpoints tokens s)
   | Inl error \<Rightarrow>
       (case error of
          TokenPlacementExpiredError _ \<Rightarrow> (Inl error, s)
        | _ \<Rightarrow> (Inr (), reject_pending error tokens s)))"

definition batch_settled ::
    "string list \<Rightarrow> endpoint_map res \<Rightarrow> receive_transport \<Rightarrow> unit res \<times> receive_transport" where
  "batch_settled needed resolved s =
     (case resolveAndStart needed resolved s of
        (r, s') \<Rightarrow> (r, s'\<lparr>rt_inflight := fold jm_delete needed (rt_inflight s')\<rparr>))"

definition get_progress :: "string \<Rightarrow> byte_progress \<Rightarrow> receive_transport \<Rightarrow> receive_transport" where
  "get_progress token progress s =
     (let m1 = (case bp_bytesTotal progress of
                  Some t \<Rightarrow> if 0 < t then meter_setTotal token t (rt_meter s) else rt_meter s
                | None \<Rightarrow> rt_meter s);
          m2 = meter_setTransferred token (bp_bytesTransferred progress) m1
      in emitDownloadByteProgress (s\<lparr>rt_meter := m2\<rparr>))"

text \<open>
  The continuations chained to \<open>getWithFallbacks\<close> in \<open>startGet\<close>: the body counts as buffered, the
  lane ends, and the promise of the entry, if it is still listed, has its value.
\<close>

definition settle_entry :: "bytes res \<Rightarrow> pending_get \<Rightarrow> pending_get" where
  "settle_entry outcome pg = pg\<lparr>pg_outcome := Some outcome\<rparr>"

definition get_settled :: "string \<Rightarrow> bytes res \<Rightarrow> receive_transport \<Rightarrow> receive_transport" where
  "get_settled token outcome s =
     (let s1 = (case outcome of
                  Inr data \<Rightarrow> s\<lparr>rt_bufferedReceivedBytes :=
                    jm_set token (int (length data)) (rt_bufferedReceivedBytes s)\<rparr>
                | Inl _ \<Rightarrow> s);
          s2 = emitDownloadByteProgress (s1\<lparr>rt_meter := meter_end token (rt_meter s1)\<rparr>)
      in case jm_get (rt_pending s2) token of
           None \<Rightarrow> s2
         | Some pg \<Rightarrow> s2\<lparr>rt_pending := jm_set token (settle_entry outcome pg) (rt_pending s2)\<rparr>)"

definition cancel_one :: "string \<Rightarrow> receive_transport \<Rightarrow> receive_transport" where
  "cancel_one token s =
     (let s1 = s\<lparr>rt_cancelledBeforeResolve := insert token (rt_cancelledBeforeResolve s)\<rparr>
      in case jm_get (rt_pending s1) token of
           None \<Rightarrow> s1
         | Some _ \<Rightarrow> s1\<lparr>rt_pending := jm_delete token (rt_pending s1),
                        rt_bufferedReceivedBytes := jm_delete token (rt_bufferedReceivedBytes s1),
                        rt_meter := meter_end token (rt_meter s1)\<rparr>)"

definition cancelPending :: "string list \<Rightarrow> receive_transport \<Rightarrow> receive_transport" where
  "cancelPending tokens s = emitDownloadByteProgress (fold cancel_one tokens s)"

section \<open>The get method\<close>

definition cancelled_error :: "string \<Rightarrow> thrown" where
  "cancelled_error token = ErrorObj (''download cancelled for token: '' @ token)"

definition unresolved_error :: "string \<Rightarrow> thrown" where
  "unresolved_error token = ErrorObj (''no relay endpoint resolved for token: '' @ token @
     '' (credential may be wrong, sender has not started upload, or placement expired)'')"

text \<open>The bookkeeping after the entry's promise resolved or rejected.\<close>

definition consume_success :: "string \<Rightarrow> receive_transport \<Rightarrow> receive_transport" where
  "consume_success token s = emitDownloadByteProgress
     (s\<lparr>rt_pending := jm_delete token (rt_pending s),
        rt_bufferedReceivedBytes := jm_delete token (rt_bufferedReceivedBytes s),
        rt_cancelledBeforeResolve := rt_cancelledBeforeResolve s - {token},
        rt_lastWaitingActivity := jm_delete token (rt_lastWaitingActivity s)\<rparr>)"

definition consume_failure :: "string \<Rightarrow> receive_transport \<Rightarrow> receive_transport" where
  "consume_failure token s = emitDownloadByteProgress
     (s\<lparr>rt_pending := jm_delete token (rt_pending s),
        rt_bufferedReceivedBytes := jm_delete token (rt_bufferedReceivedBytes s)\<rparr>)"

text \<open>
  What a round of the loop decides: return, throw, or sleep and go round again with one more
  attempt counted against the registry or the relay.
\<close>

datatype round = RoundReturn bytes | RoundThrow thrown | RoundSleep int bool

definition round_after_body ::
    "receive_config \<Rightarrow> string \<Rightarrow> int \<Rightarrow> int \<Rightarrow> bytes res \<Rightarrow> receive_transport \<Rightarrow>
     round \<times> receive_transport" where
  "round_after_body cfg token relayAttempts nowMs outcome s = (case outcome of
     Inr data \<Rightarrow> (RoundReturn data, consume_success token s)
   | Inl error \<Rightarrow>
       let s1 = consume_failure token s
       in if isTransientDownloadError error
          then if rc_getMaxAttempts cfg \<le> relayAttempts + 1 then (RoundThrow error, s1)
               else (RoundSleep (min 5000 (backoffDelayMs (rc_resolveRetryDelayMs cfg)
                                             (relayAttempts + 1))) True,
                     maybeEmitWaiting token WaitRelay (relayAttempts + 1) nowMs s1)
          else (RoundThrow error, s1))"

definition round_no_entry ::
    "receive_config \<Rightarrow> string \<Rightarrow> int \<Rightarrow> int \<Rightarrow> receive_transport \<Rightarrow> round \<times> receive_transport" where
  "round_no_entry cfg token registryAttempts nowMs s =
     (if rc_resolveMaxAttempts cfg \<le> registryAttempts + 1
      then (RoundThrow (unresolved_error token), s)
      else (RoundSleep (min 5000 (backoffDelayMs REGISTRY_WAIT_BASE_DELAY_MS
                                    (registryAttempts + 1))) False,
            maybeEmitWaiting token WaitRegistry (registryAttempts + 1) nowMs s))"

text \<open>
  The environment of a \<open>get\<close>: the clock; how the promise of \<open>ensureTokensStarted\<close> and the promise
  of a pending entry settle, with whatever other activity of the transport happens meanwhile;
  and the passing of time.
\<close>

type_synonym 'e world = "receive_transport \<times> 'e"

record 'e get_env =
  ge_now :: "'e \<Rightarrow> int"
  ge_settle :: "string list \<Rightarrow> nat list \<Rightarrow> 'e world \<Rightarrow> unit res \<times> 'e world"
  ge_body :: "string \<Rightarrow> 'e world \<Rightarrow> bytes res \<times> 'e world"
  ge_sleep :: "int \<Rightarrow> 'e world \<Rightarrow> 'e world"

definition get_round ::
    "receive_config \<Rightarrow> 'e get_env \<Rightarrow> string \<Rightarrow> int \<Rightarrow> int \<Rightarrow> 'e world \<Rightarrow> round \<times> 'e world" where
  "get_round cfg env token registryAttempts relayAttempts w =
     (case w of (s, e) \<Rightarrow>
        if token \<in> rt_cancelledBeforeResolve s then (RoundThrow (cancelled_error token), (s, e))
        else
          (case ensureTokensStarted [token] s of (needed, waits, s1) \<Rightarrow>
             (case ge_settle env needed waits (s1, e) of
                (Inl error, w2) \<Rightarrow> (RoundThrow error, w2)
              | (Inr _, (s2, e2)) \<Rightarrow>
                  if token \<in> rt_cancelledBeforeResolve s2
                  then (RoundThrow (cancelled_error token), (s2, e2))
                  else case jm_get (rt_pending s2) token of
                    Some _ \<Rightarrow>
                      (case ge_body env token (s2, e2) of (outcome, (s3, e3)) \<Rightarrow>
                         (case round_after_body cfg token relayAttempts (ge_now env e3) outcome s3 of
                            (r, s4) \<Rightarrow> (r, (s4, e3))))
                  | None \<Rightarrow>
                      (case round_no_entry cfg token registryAttempts (ge_now env e2) s2 of
                         (r, s3) \<Rightarrow> (r, (s3, e2))))))"

lemma get_round_sleep:
  assumes "get_round cfg env token reg rel w = (RoundSleep d relay, w')"
  shows "relay \<Longrightarrow> rel + 1 < rc_getMaxAttempts cfg" "\<not> relay \<Longrightarrow> reg + 1 < rc_resolveMaxAttempts cfg"
    and "d \<le> 5000"
  using assms
  by (auto simp: get_round_def round_after_body_def round_no_entry_def Let_def
      split: prod.splits sum.splits option.splits if_splits)

lemma get_round_relay_sleep:
  "(RoundSleep d True, w') = get_round cfg env token reg rel w \<Longrightarrow> rel < rc_getMaxAttempts cfg"
  using get_round_sleep(1) [of cfg env token reg rel w d True w'] by simp

lemma get_round_registry_sleep:
  "(RoundSleep d False, w') = get_round cfg env token reg rel w \<Longrightarrow> reg < rc_resolveMaxAttempts cfg"
  using get_round_sleep(2) [of cfg env token reg rel w d False w'] by simp

text \<open>The \<open>while (true)\<close> of \<open>get\<close>.\<close>

function get_rounds ::
    "receive_config \<Rightarrow> 'e get_env \<Rightarrow> string \<Rightarrow> int \<Rightarrow> int \<Rightarrow> ('e world, bytes) act" where
  "get_rounds cfg env token reg rel w =
     (case get_round cfg env token reg rel w of
        (RoundReturn data, w') \<Rightarrow> (Inr data, w')
      | (RoundThrow error, w') \<Rightarrow> (Inl error, w')
      | (RoundSleep d relay, w') \<Rightarrow>
          if relay then get_rounds cfg env token reg (rel + 1) (ge_sleep env d w')
          else get_rounds cfg env token (reg + 1) rel (ge_sleep env d w'))"
  by pat_completeness auto
termination
proof (relation "measure (\<lambda>(cfg, env, token, reg, rel, w).
    nat (rc_resolveMaxAttempts cfg - reg) + nat (rc_getMaxAttempts cfg - rel))")
qed (auto dest: get_round_relay_sleep get_round_registry_sleep)

declare get_rounds.simps [simp del]

definition transport_get ::
    "receive_config \<Rightarrow> 'e get_env \<Rightarrow> string \<Rightarrow> ('e world, bytes) act" where
  "transport_get cfg env token = get_rounds cfg env token 0 0"

section \<open>Invariant\<close>

text \<open>
  A token with a running GET has a lane and no buffered bytes, one whose GET delivered a body has
  exactly that many buffered bytes and no lane, any other has neither; a cancelled token is not
  pending.
\<close>

definition entry_ok :: "pending_get option \<Rightarrow> lane option \<Rightarrow> int option \<Rightarrow> bool" where
  "entry_ok pg l b \<longleftrightarrow> (case pg of
     None \<Rightarrow> l = None \<and> b = None
   | Some p \<Rightarrow> (case pg_outcome p of
       None \<Rightarrow> l \<noteq> None \<and> b = None
     | Some (Inl _) \<Rightarrow> l = None \<and> b = None
     | Some (Inr data) \<Rightarrow> l = None \<and> b = Some (int (length data))))"

definition transport_inv :: "receive_transport \<Rightarrow> bool" where
  "transport_inv s \<longleftrightarrow> meter_ok (rt_meter s) \<and> jm_wf (rt_bufferedReceivedBytes s) \<and>
     (\<forall>t. entry_ok (jm_get (rt_pending s) t) (jm_get (rt_meter s) t)
            (jm_get (rt_bufferedReceivedBytes s) t)) \<and>
     (\<forall>t \<in> rt_cancelledBeforeResolve s. jm_get (rt_pending s) t = None)"

lemma emitActivity_fields [simp]:
  "rt_pending (emitActivity a s) = rt_pending s"
  "rt_cancelledBeforeResolve (emitActivity a s) = rt_cancelledBeforeResolve s"
  "rt_inflight (emitActivity a s) = rt_inflight s"
  "rt_nextBatch (emitActivity a s) = rt_nextBatch s"
  "rt_expectedWireBlockBytes (emitActivity a s) = rt_expectedWireBlockBytes s"
  "rt_meter (emitActivity a s) = rt_meter s"
  "rt_bufferedReceivedBytes (emitActivity a s) = rt_bufferedReceivedBytes s"
  "rt_lastWaitingActivity (emitActivity a s) = rt_lastWaitingActivity s"
  "rt_listening (emitActivity a s) = rt_listening s"
  by (simp_all add: emitActivity_def)

lemma emitProgress_fields [simp]:
  "rt_pending (emitDownloadByteProgress s) = rt_pending s"
  "rt_cancelledBeforeResolve (emitDownloadByteProgress s) = rt_cancelledBeforeResolve s"
  "rt_inflight (emitDownloadByteProgress s) = rt_inflight s"
  "rt_nextBatch (emitDownloadByteProgress s) = rt_nextBatch s"
  "rt_expectedWireBlockBytes (emitDownloadByteProgress s) = rt_expectedWireBlockBytes s"
  "rt_meter (emitDownloadByteProgress s) = rt_meter s"
  "rt_bufferedReceivedBytes (emitDownloadByteProgress s) = rt_bufferedReceivedBytes s"
  "rt_listening (emitDownloadByteProgress s) = rt_listening s"
  by (simp_all add: emitDownloadByteProgress_def)

lemma maybeEmitWaiting_fields [simp]:
  "rt_pending (maybeEmitWaiting t r n now s) = rt_pending s"
  "rt_cancelledBeforeResolve (maybeEmitWaiting t r n now s) = rt_cancelledBeforeResolve s"
  "rt_inflight (maybeEmitWaiting t r n now s) = rt_inflight s"
  "rt_expectedWireBlockBytes (maybeEmitWaiting t r n now s) = rt_expectedWireBlockBytes s"
  "rt_meter (maybeEmitWaiting t r n now s) = rt_meter s"
  "rt_bufferedReceivedBytes (maybeEmitWaiting t r n now s) = rt_bufferedReceivedBytes s"
  by (simp_all add: maybeEmitWaiting_def)

text \<open>The invariant only reads four fields.\<close>

lemma transport_inv_cong:
  "rt_pending s' = rt_pending s \<Longrightarrow> rt_meter s' = rt_meter s \<Longrightarrow>
   rt_bufferedReceivedBytes s' = rt_bufferedReceivedBytes s \<Longrightarrow>
   rt_cancelledBeforeResolve s' = rt_cancelledBeforeResolve s \<Longrightarrow>
     transport_inv s' = transport_inv s"
  by (simp add: transport_inv_def)

lemma transport_inv_emit [simp]:
  "transport_inv (emitActivity a s) = transport_inv s"
  "transport_inv (emitDownloadByteProgress s) = transport_inv s"
  "transport_inv (maybeEmitWaiting t r n now s) = transport_inv s"
  by (rule transport_inv_cong; simp)+

lemma meter_dom [simp]:
  "jm_get (meter_setTotal k n m) t = None \<longleftrightarrow> jm_get m t = None"
  "jm_get (meter_setTransferred k n m) t = None \<longleftrightarrow> jm_get m t = None"
  by (auto simp: meter_setTotal_def meter_setTransferred_def Let_def jm_get_set
      simp del: map_of_eq_None_iff split: option.splits)

lemma meter_get [simp]:
  "jm_get (meter_begin k n m) t =
     (if t = k then Some \<lparr>ln_transferred = 0, ln_total = max 0 n\<rparr> else jm_get m t)"
  "jm_get (meter_end k m) t = (if t = k then None else jm_get m t)"
  by (simp_all add: meter_begin_def meter_end_def jm_get_set jm_get_delete)

lemma entry_ok_lane: "(l = None) = (l' = None) \<Longrightarrow> entry_ok pg l b = entry_ok pg l' b"
  by (auto simp: entry_ok_def split: option.splits sum.splits)

lemma entry_ok_None [simp]: "entry_ok None None None"
  by (simp add: entry_ok_def)

lemma transport_inv_entry:
  "transport_inv s \<Longrightarrow> entry_ok (jm_get (rt_pending s) t) (jm_get (rt_meter s) t)
     (jm_get (rt_bufferedReceivedBytes s) t)"
  by (simp add: transport_inv_def)

text \<open>A change at one token only.\<close>

lemma transport_inv_at:
  assumes "transport_inv s" "meter_ok (rt_meter s')" "jm_wf (rt_bufferedReceivedBytes s')"
    and other: "\<And>u. u \<noteq> t \<Longrightarrow> jm_get (rt_pending s') u = jm_get (rt_pending s) u"
      "\<And>u. u \<noteq> t \<Longrightarrow> (jm_get (rt_meter s') u = None) = (jm_get (rt_meter s) u = None)"
      "\<And>u. u \<noteq> t \<Longrightarrow> jm_get (rt_bufferedReceivedBytes s') u = jm_get (rt_bufferedReceivedBytes s) u"
    and at: "entry_ok (jm_get (rt_pending s') t) (jm_get (rt_meter s') t)
               (jm_get (rt_bufferedReceivedBytes s') t)"
    and cancelled: "rt_cancelledBeforeResolve s' \<subseteq> insert t (rt_cancelledBeforeResolve s)"
      "t \<in> rt_cancelledBeforeResolve s' \<Longrightarrow> jm_get (rt_pending s') t = None"
  shows "transport_inv s'"
proof -
  have "entry_ok (jm_get (rt_pending s') u) (jm_get (rt_meter s') u)
      (jm_get (rt_bufferedReceivedBytes s') u)" for u
  proof (cases "u = t")
    case False
    show ?thesis
      using transport_inv_entry [OF assms(1), of u] entry_ok_lane [OF other(2) [OF False]]
      unfolding other(1,3) [OF False] by blast
  qed (use at in simp)
  moreover have "jm_get (rt_pending s') u = None" if "u \<in> rt_cancelledBeforeResolve s'" for u
  proof (cases "u = t")
    case False
    then have "u \<in> rt_cancelledBeforeResolve s" using that cancelled(1) by auto
    then show ?thesis using assms(1) other(1) [OF False] by (simp add: transport_inv_def)
  qed (use that cancelled(2) in simp)
  ultimately show ?thesis using assms(2,3) by (simp add: transport_inv_def)
qed

lemma transport_inv_fields:
  assumes "transport_inv s"
  shows "meter_ok (rt_meter s)" "jm_wf (rt_bufferedReceivedBytes s)"
    "t \<in> rt_cancelledBeforeResolve s \<Longrightarrow> jm_get (rt_pending s) t = None"
  using assms by (auto simp: transport_inv_def)

lemma transport_new_inv: "transport_inv (transport_new e)"
  by (simp add: transport_inv_def transport_new_def)

lemma startGet_inv:
  "transport_inv s \<Longrightarrow> t \<notin> rt_cancelledBeforeResolve s \<Longrightarrow> transport_inv (startGet t ep s)"
  by (rule transport_inv_at [where t = t])
    (auto simp: startGet_def Let_def jm_get_set jm_get_delete meter_ok_begin transport_inv_fields
      entry_ok_def simp del: map_of_eq_None_iff)

lemma start_resolved_inv: "transport_inv s \<Longrightarrow> transport_inv (start_resolved eps ts s)"
  by (induction eps ts s rule: start_resolved.induct)
    (auto simp: skips_def startGet_inv split: option.split)

lemma reject_pending_inv: "transport_inv s \<Longrightarrow> transport_inv (reject_pending e ts s)"
proof (induction e ts s rule: reject_pending.induct)
  case (1 e s)
  then show ?case by simp
next
  case (2 e t ts s)
  have "transport_inv (s\<lparr>rt_pending := jm_set t \<lparr>pg_endpoint = None, pg_outcome = Some (Inl e)\<rparr>
      (rt_pending s)\<rparr>)" if "\<not> skips s t"
    using "2.prems" that transport_inv_entry [OF "2.prems", of t]
    by (intro transport_inv_at [OF "2.prems", where t = t])
      (auto simp: jm_get_set skips_def transport_inv_fields entry_ok_def simp del: map_of_eq_None_iff)
  then show ?case using "2.IH" "2.prems" by simp
qed

lemma batch_settled_inv: "transport_inv s \<Longrightarrow> transport_inv (snd (batch_settled ts r s))"
proof -
  assume inv: "transport_inv s"
  have "transport_inv (snd (resolveAndStart ts r s))"
    using inv by (auto simp: resolveAndStart_def start_resolved_inv reject_pending_inv
        split: sum.split thrown.split)
  moreover have "transport_inv (s'\<lparr>rt_inflight := f\<rparr>) = transport_inv s'" for s' f
    by (rule transport_inv_cong) simp_all
  ultimately show ?thesis by (auto simp: batch_settled_def split: prod.split)
qed

lemma ensure_inv: "transport_inv s \<Longrightarrow> transport_inv (snd (snd (ensureTokensStarted ts s)))"
proof -
  assume "transport_inv s"
  moreover have "transport_inv (s'\<lparr>rt_inflight := f, rt_nextBatch := n\<rparr>) = transport_inv s'" for s' f n
    by (rule transport_inv_cong) simp_all
  ultimately show ?thesis by (simp add: ensureTokensStarted_def Let_def)
qed

lemma get_progress_fields [simp]:
  "rt_pending (get_progress t p s) = rt_pending s"
  "rt_bufferedReceivedBytes (get_progress t p s) = rt_bufferedReceivedBytes s"
  "rt_cancelledBeforeResolve (get_progress t p s) = rt_cancelledBeforeResolve s"
  "jm_get (rt_meter (get_progress t p s)) u = None \<longleftrightarrow> jm_get (rt_meter s) u = None"
  "meter_ok (rt_meter s) \<Longrightarrow> meter_ok (rt_meter (get_progress t p s))"
  by (auto simp: get_progress_def Let_def meter_ok_ops simp del: map_of_eq_None_iff split: option.split)

lemma get_progress_inv:
  assumes "transport_inv s"
  shows "transport_inv (get_progress t p s)"
proof (rule transport_inv_at [OF assms, where t = t])
  show "entry_ok (jm_get (rt_pending (get_progress t p s)) t) (jm_get (rt_meter (get_progress t p s)) t)
     (jm_get (rt_bufferedReceivedBytes (get_progress t p s)) t)"
    using transport_inv_entry [OF assms, of t] entry_ok_lane [OF get_progress_fields(4)]
    unfolding get_progress_fields(1,2) by blast
qed (auto simp: transport_inv_fields [OF assms] simp del: map_of_eq_None_iff)

lemma get_settled_fields:
  "rt_pending (get_settled t r s) = (case jm_get (rt_pending s) t of None \<Rightarrow> rt_pending s
     | Some pg \<Rightarrow> jm_set t (settle_entry r pg) (rt_pending s))"
  "rt_meter (get_settled t r s) = meter_end t (rt_meter s)"
  "rt_bufferedReceivedBytes (get_settled t r s) = (case r of
     Inr data \<Rightarrow> jm_set t (int (length data)) (rt_bufferedReceivedBytes s) | Inl _ \<Rightarrow> rt_bufferedReceivedBytes s)"
  "rt_cancelledBeforeResolve (get_settled t r s) = rt_cancelledBeforeResolve s"
  by (auto simp: get_settled_def Let_def split: option.splits sum.splits)

lemma get_settled_inv:
  assumes inv: "transport_inv s"
    and run: "jm_get (rt_pending s) t = Some pg \<and> pg_outcome pg = None \<or>
              jm_get (rt_pending s) t = None \<and> (\<exists>e. r = Inl e)"
  shows "transport_inv (get_settled t r s)"
proof -
  note entry = transport_inv_entry [OF inv, of t]
  have at: "entry_ok (jm_get (rt_pending (get_settled t r s)) t) (jm_get (rt_meter (get_settled t r s)) t)
     (jm_get (rt_bufferedReceivedBytes (get_settled t r s)) t)"
    using run
  proof
    assume pg: "jm_get (rt_pending s) t = Some pg \<and> pg_outcome pg = None"
    then have "jm_get (rt_bufferedReceivedBytes s) t = None" using entry by (simp add: entry_ok_def)
    with pg show ?thesis
      by (cases r) (simp_all add: get_settled_fields jm_get_set settle_entry_def entry_ok_def)
  next
    assume "jm_get (rt_pending s) t = None \<and> (\<exists>e. r = Inl e)"
    with entry show ?thesis by (auto simp: get_settled_fields entry_ok_def simp del: map_of_eq_None_iff)
  qed
  have cancelled: "t \<in> rt_cancelledBeforeResolve s \<Longrightarrow> jm_get (rt_pending (get_settled t r s)) t = None"
    using transport_inv_fields(3) [OF inv, of t] by (simp add: get_settled_fields)
  show ?thesis
  proof (rule transport_inv_at [OF inv _ _ _ _ _ at])
    show "t \<in> rt_cancelledBeforeResolve (get_settled t r s) \<Longrightarrow>
        jm_get (rt_pending (get_settled t r s)) t = None"
      using cancelled by (simp only: get_settled_fields(4))
  qed (auto simp: get_settled_fields jm_get_set meter_ok_end transport_inv_fields(1,2) [OF inv]
      split: option.split sum.split)
qed

lemma cancel_one_inv:
  assumes inv: "transport_inv s"
  shows "transport_inv (cancel_one t s)"
proof (cases "jm_get (rt_pending s) t")
  case None
  show ?thesis
    by (rule transport_inv_at [OF inv, where t = t])
      (use None transport_inv_entry [OF inv, of t] in
        \<open>auto simp: cancel_one_def Let_def transport_inv_fields(1,2) [OF inv]\<close>)
next
  case (Some pg)
  show ?thesis
    by (rule transport_inv_at [OF inv, where t = t])
      (auto simp: Some cancel_one_def Let_def jm_get_delete meter_ok_end transport_inv_fields(1,2) [OF inv])
qed

lemma cancelPending_inv: "transport_inv s \<Longrightarrow> transport_inv (cancelPending ts s)"
proof -
  have "transport_inv s \<Longrightarrow> transport_inv (fold cancel_one ts s)"
    by (induction ts arbitrary: s) (simp_all add: cancel_one_inv)
  then show "transport_inv s \<Longrightarrow> transport_inv (cancelPending ts s)"
    by (simp add: cancelPending_def)
qed

lemma consume_inv:
  assumes inv: "transport_inv s" and idle: "jm_get (rt_meter s) t = None"
  shows "transport_inv (consume_success t s)" "transport_inv (consume_failure t s)"
  using idle
  by (intro transport_inv_at [OF inv, where t = t];
      auto simp: consume_success_def consume_failure_def transport_inv_fields(1,2) [OF inv] jm_get_delete
      simp del: map_of_eq_None_iff)+

section \<open>Interleavings\<close>

text \<open>
  What can happen to the transport next, in any order: tokens are asked for, a registry batch
  settles, a GET reports progress or settles, a caller of \<open>get\<close> takes an outcome or sees its GET
  aborted, tokens are cancelled, and the bookkeeping calls. An aborted \<open>fetch\<close> rejects, so a GET
  whose entry is gone settles with an error.
\<close>

inductive transport_step :: "receive_transport \<Rightarrow> receive_transport \<Rightarrow> bool" where
  started: "transport_step s (snd (snd (ensureTokensStarted tokens s)))"
| resolved: "transport_step s (snd (batch_settled needed r s))"
| progress: "transport_step s (get_progress t p s)"
| settled: "jm_get (rt_pending s) t = Some pg \<Longrightarrow> pg_outcome pg = None \<Longrightarrow>
    transport_step s (get_settled t r s)"
| aborted: "jm_get (rt_pending s) t = None \<Longrightarrow> transport_step s (get_settled t (Inl e) s)"
| taken: "jm_get (rt_pending s) t = Some pg \<Longrightarrow> pg_outcome pg = Some (Inr data) \<Longrightarrow>
    transport_step s (consume_success t s)"
| failed: "jm_get (rt_pending s) t = Some pg \<Longrightarrow> pg_outcome pg = Some (Inl e) \<Longrightarrow>
    transport_step s (consume_failure t s)"
| gone: "jm_get (rt_pending s) t = None \<Longrightarrow> transport_step s (consume_failure t s)"
| cancelled: "transport_step s (cancelPending tokens s)"
| waiting: "transport_step s (maybeEmitWaiting t reason n now s)"
| listener: "transport_step s (setActivityListener b s)"
| expected: "transport_step s (setExpectedWireBlockBytes n s)"

lemma entry_ok_settled: "entry_ok (Some pg) l b \<Longrightarrow> pg_outcome pg \<noteq> None \<Longrightarrow> l = None"
  by (auto simp: entry_ok_def split: option.splits sum.splits)

lemma transport_step_inv: "transport_step s s' \<Longrightarrow> transport_inv s \<Longrightarrow> transport_inv s'"
proof (induction rule: transport_step.induct)
  case (taken s t pg data)
  then have "jm_get (rt_meter s) t = None"
    using transport_inv_entry [OF taken.prems, of t] by (auto dest: entry_ok_settled)
  with taken show ?case by (simp add: consume_inv)
next
  case (failed s t pg e)
  then have "jm_get (rt_meter s) t = None"
    using transport_inv_entry [OF failed.prems, of t] by (auto dest: entry_ok_settled)
  with failed show ?case by (simp add: consume_inv)
next
  case (gone s t)
  have "jm_get (rt_meter s) t = None"
    using transport_inv_entry [OF gone.prems, of t] gone.hyps by (simp add: entry_ok_def)
  with gone show ?case by (simp add: consume_inv)
next
  case (listener s b)
  then show ?case by (subst transport_inv_cong [of _ s]) (simp_all add: setActivityListener_def)
next
  case (expected s n)
  then show ?case by (subst transport_inv_cong [of _ s]) (simp_all add: setExpectedWireBlockBytes_def)
qed (auto simp: ensure_inv batch_settled_inv get_progress_inv get_settled_inv cancelPending_inv)

interpretation transport: safe_system transport_step transport_inv
  by unfold_locales (rule transport_step_inv)

lemma idle_bytes:
  assumes "transport_inv s" "rt_pending s = []"
  shows "getReceivedWireBytesNotConsumed s = 0"
proof -
  have none: "jm_get (rt_meter s) t = None \<and> jm_get (rt_bufferedReceivedBytes s) t = None" for t
    using transport_inv_entry [OF assms(1), of t] assms(2) by (simp add: entry_ok_def)
  then have "rt_meter s = []" "rt_bufferedReceivedBytes s = []"
    by (metis map_of_eq_empty_iff ext)+
  then show ?thesis by (simp add: getReceivedWireBytesNotConsumed_def meter_snapshot_def)
qed

lemma buffered_nonneg:
  assumes "transport_inv s"
  shows "0 \<le> sum_list (map snd (rt_bufferedReceivedBytes s))"
proof (rule sum_list_nonneg)
  fix n assume "n \<in> set (map snd (rt_bufferedReceivedBytes s))"
  then obtain t where "(t, n) \<in> set (rt_bufferedReceivedBytes s)" by auto
  then have "jm_get (rt_bufferedReceivedBytes s) t = Some n"
    using transport_inv_fields(2) [OF assms] by (simp add: jm_wf_def)
  then show "0 \<le> n"
    using transport_inv_entry [OF assms, of t]
    by (auto simp: entry_ok_def split: option.splits sum.splits)
qed

lemma cancel_one_cancelled: "rt_cancelledBeforeResolve (cancel_one t s) = insert t (rt_cancelledBeforeResolve s)"
  by (auto simp: cancel_one_def Let_def split: option.split)

lemma cancelPending_cancelled:
  "rt_cancelledBeforeResolve (cancelPending ts s) = set ts \<union> rt_cancelledBeforeResolve s"
proof -
  have "rt_cancelledBeforeResolve (fold cancel_one ts s) = set ts \<union> rt_cancelledBeforeResolve s"
    by (induction ts arbitrary: s) (auto simp: cancel_one_cancelled)
  then show ?thesis by (simp add: cancelPending_def)
qed

lemma start_resolved_cancelled:
  "rt_cancelledBeforeResolve (start_resolved eps ts s) = rt_cancelledBeforeResolve s"
  by (induction eps ts s rule: start_resolved.induct)
    (auto simp: startGet_def Let_def split: option.split)

lemma reject_pending_cancelled:
  "rt_cancelledBeforeResolve (reject_pending e ts s) = rt_cancelledBeforeResolve s"
  by (induction e ts s rule: reject_pending.induct) auto

lemma batch_settled_cancelled:
  "rt_cancelledBeforeResolve (snd (batch_settled ts r s)) = rt_cancelledBeforeResolve s"
proof -
  have "rt_cancelledBeforeResolve (snd (resolveAndStart ts r s)) = rt_cancelledBeforeResolve s"
    by (auto simp: resolveAndStart_def start_resolved_cancelled reject_pending_cancelled
        split: sum.split thrown.split)
  then show ?thesis by (simp add: batch_settled_def case_prod_beta)
qed

lemma step_keeps_cancelled:
  "transport_step s s' \<Longrightarrow> transport_inv s \<Longrightarrow> t \<in> rt_cancelledBeforeResolve s \<Longrightarrow>
     t \<in> rt_cancelledBeforeResolve s'"
proof (induction rule: transport_step.induct)
  case (taken s u pg data)
  then have "u \<noteq> t" using transport_inv_fields(3) [OF taken.prems(1) taken.prems(2)] by auto
  with taken show ?case by (simp add: consume_success_def)
qed (simp_all add: ensureTokensStarted_def Let_def batch_settled_cancelled get_settled_fields(4)
    consume_failure_def cancelPending_cancelled setActivityListener_def setExpectedWireBlockBytes_def)

lemma steps_keep_cancelled:
  "transport_step\<^sup>*\<^sup>* s s' \<Longrightarrow> transport_inv s \<Longrightarrow> t \<in> rt_cancelledBeforeResolve s \<Longrightarrow>
     t \<in> rt_cancelledBeforeResolve s'"
proof (induction rule: rtranclp_induct)
  case base
  then show ?case by simp
next
  case (step u v)
  then have "transport_inv u" by (blast intro: transport.inv_steps)
  with step show ?case by (blast intro: step_keeps_cancelled)
qed

lemma transport_get_cancelled:
  "t \<in> rt_cancelledBeforeResolve s \<Longrightarrow> transport_get cfg env t (s, e) = (Inl (cancelled_error t), (s, e))"
  unfolding transport_get_def by (subst get_rounds.simps) (simp add: get_round_def)

section \<open>A transport on its own backend\<close>

text \<open>
  The environment in which the awaited promises settle with the answers of a registry and relays
  (\<open>be_resolveMany\<close> is the router, \<open>be_get\<close> the GET with fallbacks), each batch as soon as it is
  awaited and each GET when its outcome is.
\<close>

record 'e backend =
  be_resolveMany :: "string list \<Rightarrow> 'e \<Rightarrow> endpoint_map res \<times> 'e"
  be_get :: "string \<Rightarrow> relay_endpoint \<Rightarrow> 'e \<Rightarrow> bytes res \<times> 'e"
  be_now :: "'e \<Rightarrow> int"
  be_sleep :: "int \<Rightarrow> 'e \<Rightarrow> 'e"

definition solo_settle :: "'e backend \<Rightarrow> string list \<Rightarrow> nat list \<Rightarrow> 'e world \<Rightarrow> unit res \<times> 'e world" where
  "solo_settle b needed waits w = (case w of (s, e) \<Rightarrow>
     if needed = [] then (Inr (), (s, e))
     else (case be_resolveMany b needed e of (r, e1) \<Rightarrow>
       (case batch_settled needed r s of (u, s1) \<Rightarrow> (u, (s1, e1)))))"

definition solo_body :: "'e backend \<Rightarrow> string \<Rightarrow> 'e world \<Rightarrow> bytes res \<times> 'e world" where
  "solo_body b token w = (case w of (s, e) \<Rightarrow>
     (case jm_get (rt_pending s) token of
        None \<Rightarrow> (Inl (cancelled_error token), (s, e))
      | Some pg \<Rightarrow>
          (case (pg_outcome pg, pg_endpoint pg) of
             (Some r, _) \<Rightarrow> (r, (s, e))
           | (None, Some ep) \<Rightarrow>
               (case be_get b token ep e of (r, e1) \<Rightarrow> (r, (get_settled token r s, e1)))
           | (None, None) \<Rightarrow> (Inl (cancelled_error token), (s, e)))))"

definition solo_env :: "'e backend \<Rightarrow> 'e get_env" where
  "solo_env b = \<lparr>ge_now = be_now b, ge_settle = solo_settle b, ge_body = solo_body b,
     ge_sleep = (\<lambda>d w. (fst w, be_sleep b d (snd w)))\<rparr>"

definition transport_start :: "'e backend \<Rightarrow> string list \<Rightarrow> ('e world, unit) act" where
  "transport_start b tokens w = (case w of (s, e) \<Rightarrow>
     (case ensureTokensStarted tokens s of (needed, waits, s1) \<Rightarrow> solo_settle b needed waits (s1, e)))"

definition transport_cancel :: "string list \<Rightarrow> 'e world \<Rightarrow> 'e world" where
  "transport_cancel tokens w = (cancelPending tokens (fst w), snd w)"

text \<open>No entry, no batch and no cancellation for the token.\<close>

definition clear_of :: "string \<Rightarrow> receive_transport \<Rightarrow> bool" where
  "clear_of t s \<longleftrightarrow> jm_get (rt_pending s) t = None \<and> t \<notin> rt_cancelledBeforeResolve s \<and>
     jm_get (rt_inflight s) t = None"

lemma round_after_body_frame:
  "jm_get (rt_pending (snd (round_after_body cfg t rel now r s))) t = None"
  "t \<notin> rt_cancelledBeforeResolve s \<Longrightarrow>
     rt_cancelledBeforeResolve (snd (round_after_body cfg t rel now r s)) = rt_cancelledBeforeResolve s"
  "rt_inflight (snd (round_after_body cfg t rel now r s)) = rt_inflight s"
  by (auto simp: round_after_body_def consume_success_def consume_failure_def jm_get_delete Let_def
      split: sum.split)

lemma round_after_body_kind:
  "fst (round_after_body cfg t rel now r s) = fst (round_after_body cfg t rel 0 r undefined)"
  by (auto simp: round_after_body_def Let_def split: sum.split)

lemma solo_round_fresh:
  assumes "clear_of t s" "be_resolveMany b [t] e = (Inr m, e1)" "jm_get m t = Some ep"
    and "be_get b t ep e1 = (r, e2)"
  obtains s' where "get_round cfg (solo_env b) t reg rel (s, e) =
      (fst (round_after_body cfg t rel 0 r undefined), (s', e2))" "clear_of t s'"
proof -
  have needed: "needed_tokens [t] s = [t]"
    using assms(1) by (simp add: needed_tokens_def skips_def clear_of_def js_unique_def)
  obtain waits s1 where s1: "ensureTokensStarted [t] s = ([t], waits, s1)"
    "rt_pending s1 = rt_pending s" "rt_cancelledBeforeResolve s1 = rt_cancelledBeforeResolve s"
    by (simp add: ensureTokensStarted_def needed Let_def)
  define s2 where "s2 = snd (batch_settled [t] (Inr m) s1)"
  have s2: "batch_settled [t] (Inr m) s1 = (Inr (), s2)"
    "jm_get (rt_pending s2) t = Some \<lparr>pg_endpoint = Some ep, pg_outcome = None\<rparr>"
    "t \<notin> rt_cancelledBeforeResolve s2" "jm_get (rt_inflight s2) t = None"
    using assms(1,3) s1(2,3)
    by (simp_all add: s2_def batch_settled_def resolveAndStart_def skips_def clear_of_def startGet_def
        Let_def jm_get_set jm_get_delete)
  define s3 where "s3 = get_settled t r s2"
  have s3: "t \<notin> rt_cancelledBeforeResolve s3" "rt_inflight s3 = rt_inflight s2"
    using s2(3) by (auto simp: s3_def get_settled_fields get_settled_def Let_def split: option.split sum.split)
  define s4 where "s4 = snd (round_after_body cfg t rel (be_now b e2) r s3)"
  have "get_round cfg (solo_env b) t reg rel (s, e) = (fst (round_after_body cfg t rel (be_now b e2) r s3), (s4, e2))"
    using assms(1,2,4) s1 s2
    by (simp add: get_round_def solo_env_def solo_settle_def solo_body_def clear_of_def s3_def s4_def
        case_prod_beta)
  moreover have "clear_of t s4"
    using round_after_body_frame [where cfg = cfg and t = t and rel = rel and now = "be_now b e2" and r = r and s = s3] s3 s2(4)
    by (simp add: clear_of_def s4_def)
  ultimately show thesis using that [of s4] round_after_body_kind [where cfg = cfg and t = t and rel = rel and now = "be_now b e2" and r = r and s = s3] by simp
qed

lemma solo_round_unresolved:
  assumes "clear_of t s" "be_resolveMany b [t] e = (Inr m, e1)" "jm_get m t = None"
  obtains s' where "get_round cfg (solo_env b) t reg rel (s, e) =
      (fst (round_no_entry cfg t reg 0 undefined), (s', e1))" "clear_of t s'"
proof -
  have needed: "needed_tokens [t] s = [t]"
    using assms(1) by (simp add: needed_tokens_def skips_def clear_of_def js_unique_def)
  obtain waits s1 where s1: "ensureTokensStarted [t] s = ([t], waits, s1)"
    "rt_pending s1 = rt_pending s" "rt_cancelledBeforeResolve s1 = rt_cancelledBeforeResolve s"
    by (simp add: ensureTokensStarted_def needed Let_def)
  define s2 where "s2 = snd (batch_settled [t] (Inr m) s1)"
  have s2: "batch_settled [t] (Inr m) s1 = (Inr (), s2)" "clear_of t s2"
    using assms(1,3) s1(2,3)
    by (simp_all add: s2_def batch_settled_def resolveAndStart_def skips_def clear_of_def Let_def
        jm_get_delete)
  define s3 where "s3 = snd (round_no_entry cfg t reg (be_now b e1) s2)"
  have "get_round cfg (solo_env b) t reg rel (s, e) = (fst (round_no_entry cfg t reg (be_now b e1) s2), (s3, e1))"
    using assms(1,2) s1 s2
    by (simp add: get_round_def solo_env_def solo_settle_def clear_of_def s3_def case_prod_beta)
  moreover have "clear_of t s3" using s2(2) by (simp add: s3_def round_no_entry_def clear_of_def)
  moreover have "fst (round_no_entry cfg t reg (be_now b e1) s2) = fst (round_no_entry cfg t reg 0 undefined)"
    by (simp add: round_no_entry_def)
  ultimately show thesis using that [of s3] by simp
qed

section \<open>Properties\<close>




text \<open>
  Scripted relays: every token resolves, the outcome of the \<open>i\<close>-th GET is \<open>os i\<close>; the backend counts
  the GETs and collects the delays.
\<close>

definition scripted_relay :: "relay_endpoint \<Rightarrow> (nat \<Rightarrow> bytes res) \<Rightarrow> (nat \<times> int list) backend" where
  "scripted_relay ep os =
     \<lparr>be_resolveMany = (\<lambda>ts e. (Inr (map (\<lambda>t. (t, ep)) ts), e)),
      be_get = (\<lambda>t p e. (os (fst e), (Suc (fst e), snd e))),
      be_now = (\<lambda>e. 0), be_sleep = (\<lambda>d e. (fst e, snd e @ [d]))\<rparr>"


definition get_outcome_ends :: "receive_config \<Rightarrow> (nat \<Rightarrow> bytes res) \<Rightarrow> nat \<Rightarrow> bool" where
  "get_outcome_ends cfg os k = (case os k of
     Inr _ \<Rightarrow> True
   | Inl e \<Rightarrow> \<not> isTransientDownloadError e \<or> rc_getMaxAttempts cfg \<le> int k + 1)"

definition relay_delay :: "receive_config \<Rightarrow> nat \<Rightarrow> int" where
  "relay_delay cfg j = min 5000 (rc_resolveRetryDelayMs cfg * 2 ^ j)"

lemma get_rounds_scripted:
  assumes "get_outcome_ends cfg os k" "\<And>j. i \<le> j \<Longrightarrow> j < k \<Longrightarrow> \<not> get_outcome_ends cfg os j"
    and "i \<le> k" "clear_of t s"
  shows "\<exists>s'. get_rounds cfg (solo_env (scripted_relay ep os)) t reg (int i) (s, (i, ds)) =
     (os k, (s', (Suc k, ds @ map (relay_delay cfg) [i..<k]))) \<and> clear_of t s'"
  using assms
proof (induction "k - i" arbitrary: i ds s)
  case (0 i ds s)
  then have ik: "i = k" by simp
  obtain s' where s': "get_round cfg (solo_env (scripted_relay ep os)) t reg (int i) (s, (i, ds)) =
      (fst (round_after_body cfg t (int i) 0 (os i) undefined), (s', (Suc i, ds)))" "clear_of t s'"
    by (rule solo_round_fresh [of t s "scripted_relay ep os" "(i, ds)" "[(t, ep)]" "(i, ds)" ep "os i" "(Suc i, ds)"])
      (use 0 in \<open>simp_all add: scripted_relay_def\<close>)
  have "fst (round_after_body cfg t (int i) 0 (os i) undefined) =
      (case os i of Inr d \<Rightarrow> RoundReturn d | Inl e \<Rightarrow> RoundThrow e)"
    using "0.prems"(1) ik
    by (auto simp: round_after_body_def get_outcome_ends_def Let_def split: sum.splits)
  then show ?case using s' ik
    by (subst get_rounds.simps) (auto split: sum.split)
next
  case (Suc n i ds s)
  then have less: "i < k" and no: "\<not> get_outcome_ends cfg os i" by auto
  then obtain e where e: "os i = Inl e" "isTransientDownloadError e" "\<not> rc_getMaxAttempts cfg \<le> int i + 1"
    by (auto simp: get_outcome_ends_def split: sum.splits)
  obtain s' where s': "get_round cfg (solo_env (scripted_relay ep os)) t reg (int i) (s, (i, ds)) =
      (fst (round_after_body cfg t (int i) 0 (os i) undefined), (s', (Suc i, ds)))" "clear_of t s'"
    by (rule solo_round_fresh [of t s "scripted_relay ep os" "(i, ds)" "[(t, ep)]" "(i, ds)" ep "os i" "(Suc i, ds)"])
      (use Suc.prems in \<open>simp_all add: scripted_relay_def\<close>)
  have "fst (round_after_body cfg t (int i) 0 (os i) undefined) = RoundSleep (relay_delay cfg i) True"
    using e by (simp add: round_after_body_def Let_def relay_delay_def backoffDelayMs_def)
  moreover have "\<exists>s''. get_rounds cfg (solo_env (scripted_relay ep os)) t reg (int (Suc i))
        (s', (Suc i, ds @ [relay_delay cfg i])) =
      (os k, (s'', (Suc k, (ds @ [relay_delay cfg i]) @ map (relay_delay cfg) [Suc i..<k]))) \<and> clear_of t s''"
    using Suc.hyps(2) Suc.prems less s'(2) by (intro Suc.hyps(1)) auto
  ultimately show ?case using s'(1) less
    by (subst get_rounds.simps)
      (simp add: solo_env_def scripted_relay_def upt_conv_Cons add.commute)
qed

text \<open>C20. A download \<open>get\<close> of a resolvable block always ends: it repeats a GET that failed
  transiently after delays that double up to five seconds, gives up on a permanent failure at
  once and on transient ones after \<open>getMaxAttempts\<close> GETs, returns the first body it receives or
  throws the last failure, and leaves no entry of the token behind.\<close>

theorem transport_get_retries:
  assumes "clear_of t s"
  shows "\<exists>k s'. get_outcome_ends cfg os k \<and> (\<forall>j < k. \<not> get_outcome_ends cfg os j) \<and>
    int k + 1 \<le> max 1 (rc_getMaxAttempts cfg) \<and>
    transport_get cfg (solo_env (scripted_relay ep os)) t (s, (0, [])) =
      (os k, (s', (Suc k, map (relay_delay cfg) [0..<k]))) \<and> clear_of t s'"
proof -
  let ?m = "nat (rc_getMaxAttempts cfg - 1)"
  define k where "k = (LEAST k. get_outcome_ends cfg os k)"
  have m: "get_outcome_ends cfg os ?m" by (auto simp: get_outcome_ends_def split: sum.split)
  then have k: "get_outcome_ends cfg os k" unfolding k_def by (rule LeastI)
  have below: "\<not> get_outcome_ends cfg os j" if "j < k" for j
    using that unfolding k_def by (rule not_less_Least)
  have "k \<le> ?m" unfolding k_def using m by (rule Least_le)
  then have "int k + 1 \<le> max 1 (rc_getMaxAttempts cfg)" by linarith
  then show ?thesis
    using get_rounds_scripted [OF k below, of 0 t s ep 0 "[]"] assms k below
    by (auto simp: transport_get_def)
qed

lemma transport_get_retries_witness:
  "\<exists>k s'. transport_get (receive_config_new None None None None None)
     (solo_env (scripted_relay demo_endpoint (\<lambda>i. if i = 0 then Inl (ErrorObj ''GET t failed: HTTP 404'') else Inr [7])))
     ''t'' (transport_new None, (0, [])) = (Inr [7], (s', (Suc k, [500]))) \<and> clear_of ''t'' s'"
proof -
  let ?os = "\<lambda>i::nat. if i = 0 then Inl (ErrorObj ''GET t failed: HTTP 404'') else Inr [7]"
  let ?cfg = "receive_config_new None None None None None"
  have "clear_of ''t'' (transport_new None)" by (simp add: clear_of_def transport_new_def)
  from transport_get_retries [OF this, of ?cfg ?os demo_endpoint] obtain k s' where
    k: "get_outcome_ends ?cfg ?os k" "\<forall>j < k. \<not> get_outcome_ends ?cfg ?os j"
    and run: "transport_get ?cfg (solo_env (scripted_relay demo_endpoint ?os)) ''t'' (transport_new None, (0, [])) =
      (?os k, (s', (Suc k, map (relay_delay ?cfg) [0..<k])))" "clear_of ''t'' s'"
    by blast
  have "\<not> get_outcome_ends ?cfg ?os 0" "get_outcome_ends ?cfg ?os 1" by code_simp+
  then have "k = 1" using k by (metis less_one linorder_cases)
  moreover have "relay_delay ?cfg 0 = 500" by code_simp
  ultimately show ?thesis using run by auto
qed

text \<open>
  A registry that never knows the token: the backend counts the lookups.
\<close>

definition silent_registry :: "(nat \<times> int list) backend" where
  "silent_registry =
     \<lparr>be_resolveMany = (\<lambda>ts e. (Inr [], (Suc (fst e), snd e))),
      be_get = (\<lambda>t p e. (Inr [], e)),
      be_now = (\<lambda>e. 0), be_sleep = (\<lambda>d e. (fst e, snd e @ [d]))\<rparr>"

lemma get_rounds_silent:
  assumes "clear_of t s" "int i < max 1 (rc_resolveMaxAttempts cfg)"
  shows "\<exists>s'. get_rounds cfg (solo_env silent_registry) t (int i) rel (s, (i, ds)) =
     (Inl (unresolved_error t), (s', (nat (max 1 (rc_resolveMaxAttempts cfg)),
        ds @ map (\<lambda>j. min 5000 (2000 * 2 ^ j)) [i..<nat (rc_resolveMaxAttempts cfg - 1)])))"
  using assms
proof (induction "nat (rc_resolveMaxAttempts cfg - 1) - i" arbitrary: i ds s)
  case (0 i ds s)
  obtain s' where s': "get_round cfg (solo_env silent_registry) t (int i) rel (s, (i, ds)) =
      (fst (round_no_entry cfg t (int i) 0 undefined), (s', (Suc i, ds)))" "clear_of t s'"
    by (rule solo_round_unresolved [of t s silent_registry "(i, ds)" "[]" "(Suc i, ds)"])
      (use 0 in \<open>simp_all add: silent_registry_def\<close>)
  have "rc_resolveMaxAttempts cfg \<le> int i + 1" using "0.hyps" by linarith
  then have "fst (round_no_entry cfg t (int i) 0 undefined) = RoundThrow (unresolved_error t)"
    by (simp add: round_no_entry_def)
  moreover have "Suc i = nat (max 1 (rc_resolveMaxAttempts cfg))" using 0 by linarith
  moreover have "[i..<nat (rc_resolveMaxAttempts cfg - 1)] = []" using "0.hyps" by simp
  ultimately show ?case using s'(1) by (subst get_rounds.simps) simp
next
  case (Suc n i ds s)
  obtain s' where s': "get_round cfg (solo_env silent_registry) t (int i) rel (s, (i, ds)) =
      (fst (round_no_entry cfg t (int i) 0 undefined), (s', (Suc i, ds)))" "clear_of t s'"
    by (rule solo_round_unresolved [of t s silent_registry "(i, ds)" "[]" "(Suc i, ds)"])
      (use Suc.prems in \<open>simp_all add: silent_registry_def\<close>)
  have less: "int i + 1 < rc_resolveMaxAttempts cfg" "i < nat (rc_resolveMaxAttempts cfg - 1)"
    using Suc.hyps(2) by linarith+
  then have "fst (round_no_entry cfg t (int i) 0 undefined) = RoundSleep (min 5000 (2000 * 2 ^ i)) False"
    by (simp add: round_no_entry_def REGISTRY_WAIT_BASE_DELAY_MS_def backoffDelayMs_def)
  moreover have "\<exists>s''. get_rounds cfg (solo_env silent_registry) t (int (Suc i)) rel
        (s', (Suc i, ds @ [min 5000 (2000 * 2 ^ i)])) =
      (Inl (unresolved_error t), (s'', (nat (max 1 (rc_resolveMaxAttempts cfg)),
        (ds @ [min 5000 (2000 * 2 ^ i)]) @ map (\<lambda>j. min 5000 (2000 * 2 ^ j)) [Suc i..<nat (rc_resolveMaxAttempts cfg - 1)])))"
    using Suc.hyps(2) less s'(2) by (intro Suc.hyps(1)) auto
  ultimately show ?case using s'(1) less(2)
    by (subst get_rounds.simps)
      (simp add: solo_env_def silent_registry_def upt_conv_Cons add.commute)
qed

text \<open>A \<open>get\<close> of a token the registry never learns about gives up with the unresolved error after
  exactly \<open>resolveMaxAttempts\<close> lookups (at least one), having waited two, four and then five
  seconds between them.\<close>

theorem transport_get_unresolved:
  assumes "clear_of t s"
  shows "\<exists>s'. transport_get cfg (solo_env silent_registry) t (s, (0, [])) =
     (Inl (unresolved_error t), (s', (nat (max 1 (rc_resolveMaxAttempts cfg)),
        map (\<lambda>j. min 5000 (2000 * 2 ^ j)) [0..<nat (rc_resolveMaxAttempts cfg - 1)])))"
  using get_rounds_silent [OF assms, of 0 cfg 0 "[]"] by (simp add: transport_get_def)

lemma transport_get_unresolved_witness:
  "\<exists>s'. transport_get (receive_config_new None (Some 3) None None None) (solo_env silent_registry) ''t''
     (transport_new None, (0, [])) = (Inl (unresolved_error ''t''), (s', (3, [2000, 4000])))"
proof -
  have "clear_of ''t'' (transport_new None)" by (simp add: clear_of_def transport_new_def)
  moreover have "map (\<lambda>j. min 5000 (2000 * 2 ^ j)) [0..<2] = [2000, 4000 :: int]" by code_simp
  ultimately show ?thesis
    using transport_get_unresolved [of "''t''" "transport_new None" "receive_config_new None (Some 3) None None None"]
    by (simp add: receive_config_new_def)
qed

end
