(* ===== verification/Stripe.thy ===== *)
theory Stripe
  imports Bodies Systems
begin

text \<open>
  \<open>uploadStripePrimaryBlocks\<close> of \<open>session/upload-session.ts\<close>: the pool of workers that PUT the
  primary blocks. The closure variables of the function are the fields of \<open>stripe_state\<close>, each
  worker has a program counter, and each piece of a worker between two awaits is one definition:
  the slot test (\<open>stripe_poll\<close>), taking a block once the slot promise has resolved
  (\<open>stripe_resume\<close>), a progress callback, and the settling of its \<open>putWithRetry\<close>
  (\<open>stripe_finish\<close>). \<open>stripe_step\<close> lets the workers interleave in any order.
\<close>

section \<open>Status updates and configuration\<close>

text \<open>\<open>UploadStatusUpdate\<close> of \<open>session/upload-status.ts\<close>.\<close>

datatype upload_status =
    Preparing "int option" "int option" "int option" "int option"
  | Hashing int int
  | Reserving
  | Uploading (us_completed: int) (us_inFlight: int) (us_total: int)
      (us_transferred: int) (us_bytesTotal: int)

record stripe_config =
  sc_entries :: "(string \<times> bytes) list"
  sc_endpoints :: endpoint_map
  sc_maxConcurrency :: int
  sc_rampConcurrency :: bool
  sc_putMaxAttempts :: int
  sc_putTransientMaxAttempts :: int
  sc_putRetryDelayMs :: int

text \<open>
  A worker waits for a slot (\<open>AtSlot\<close>), has been granted one and is about to continue
  (\<open>Granted\<close>), has a PUT in flight, has returned, or has thrown.
\<close>

datatype worker = AtSlot | Granted | Putting nat | WorkerDone | WorkerFailed thrown

record stripe_state =
  ss_completed :: int
  ss_inFlight :: int
  ss_nextIndex :: nat
  ss_completedBytes :: int
  ss_meter :: "(string \<times> nat) meter"
  ss_highWater :: int
  ss_workers :: "worker list"
  ss_failure :: "thrown option"
  ss_started :: "nat list"
  ss_stored :: "nat list"
  ss_reports :: "upload_status list"

definition stripe_total :: "stripe_config \<Rightarrow> nat" where
  "stripe_total cfg = length (sc_entries cfg)"

definition block_bytes :: "stripe_config \<Rightarrow> nat \<Rightarrow> int" where
  "block_bytes cfg i = int (length (snd (sc_entries cfg ! i)))"

definition transferBytesTotal :: "stripe_config \<Rightarrow> int" where
  "transferBytesTotal cfg = sum_list (map (\<lambda>(_, blob). int (length blob)) (sc_entries cfg))"

section \<open>Operations\<close>

definition reportUploading :: "stripe_config \<Rightarrow> stripe_state \<Rightarrow> stripe_state" where
  "reportUploading cfg s =
     (let transferred = max (ss_highWater s) (ss_completedBytes s + window_bytes (ss_meter s))
      in s\<lparr>ss_highWater := transferred,
           ss_reports := ss_reports s @ [Uploading (ss_completed s) (ss_inFlight s)
             (int (stripe_total cfg)) transferred (transferBytesTotal cfg)]\<rparr>)"

definition slot_free :: "stripe_config \<Rightarrow> stripe_state \<Rightarrow> bool" where
  "slot_free cfg s = stripe_slot_free (sc_rampConcurrency cfg) (ss_inFlight s) (ss_completed s)
     (sc_maxConcurrency cfg)"

definition set_worker :: "nat \<Rightarrow> worker \<Rightarrow> stripe_state \<Rightarrow> stripe_state" where
  "set_worker i w s = s\<lparr>ss_workers := (ss_workers s)[i := w]\<rparr>"

text \<open>
  The call of \<open>waitForStripePutSlot\<close>: its first test runs at once, and a failed test is repeated
  after \<open>RAMP_SLOT_POLL_MS\<close>.
\<close>

definition stripe_poll :: "stripe_config \<Rightarrow> nat \<Rightarrow> stripe_state \<Rightarrow> stripe_state" where
  "stripe_poll cfg i s = set_worker i (if slot_free cfg s then Granted else AtSlot) s"

text \<open>A worker's throw rejects \<open>Promise.all\<close>, which keeps the first rejection.\<close>

definition worker_throw :: "nat \<Rightarrow> thrown \<Rightarrow> stripe_state \<Rightarrow> stripe_state" where
  "worker_throw i e s =
     set_worker i (WorkerFailed e)
       (s\<lparr>ss_failure := (case ss_failure s of None \<Rightarrow> Some e | Some e0 \<Rightarrow> Some e0)\<rparr>)"

definition no_endpoint_error :: "string \<Rightarrow> thrown" where
  "no_endpoint_error token = ErrorObj (''no stripe primary relay endpoint for token: '' @ token)"

definition stripe_resume :: "stripe_config \<Rightarrow> nat \<Rightarrow> stripe_state \<Rightarrow> stripe_state" where
  "stripe_resume cfg i s =
     (if stripe_total cfg \<le> ss_nextIndex s then set_worker i WorkerDone s
      else
        let current = ss_nextIndex s;
            s1 = s\<lparr>ss_nextIndex := current + 1\<rparr>;
            token = fst (sc_entries cfg ! current)
        in case jm_get (sc_endpoints cfg) token of
             None \<Rightarrow> worker_throw i (no_endpoint_error token) s1
           | Some endpoint \<Rightarrow>
               set_worker i (Putting current)
                 (reportUploading cfg
                   (s1\<lparr>ss_inFlight := ss_inFlight s1 + 1,
                       ss_meter := meter_begin (token, current) (block_bytes cfg current) (ss_meter s1),
                       ss_started := ss_started s1 @ [current]\<rparr>)))"

definition lane_of :: "stripe_config \<Rightarrow> nat \<Rightarrow> string \<times> nat" where
  "lane_of cfg current = (fst (sc_entries cfg ! current), current)"

definition stripe_progress :: "stripe_config \<Rightarrow> nat \<Rightarrow> int \<Rightarrow> stripe_state \<Rightarrow> stripe_state" where
  "stripe_progress cfg current bytesTransferred s =
     reportUploading cfg
       (s\<lparr>ss_meter := meter_setTransferred (lane_of cfg current) bytesTransferred (ss_meter s)\<rparr>)"

definition put_failure :: "stripe_config \<Rightarrow> nat \<Rightarrow> thrown \<Rightarrow> thrown" where
  "put_failure cfg current cause =
     (case cause of
        PutRetryExhaustedError attempts cause0 \<Rightarrow>
          UploadPutError (fst (sc_entries cfg ! current)) attempts cause0
      | _ \<Rightarrow> UploadPutError (fst (sc_entries cfg ! current)) (sc_putTransientMaxAttempts cfg) cause)"

text \<open>
  The settling of the worker's PUT. After a success the loop goes on to its next slot test without
  an await.
\<close>

definition stripe_finish ::
    "stripe_config \<Rightarrow> nat \<Rightarrow> nat \<Rightarrow> unit res \<Rightarrow> stripe_state \<Rightarrow> stripe_state" where
  "stripe_finish cfg i current outcome s = (case outcome of
     Inr _ \<Rightarrow>
       stripe_poll cfg i (reportUploading cfg
         (s\<lparr>ss_completedBytes := ss_completedBytes s + block_bytes cfg current,
            ss_meter := meter_end (lane_of cfg current) (ss_meter s),
            ss_completed := ss_completed s + 1,
            ss_inFlight := ss_inFlight s - 1,
            ss_stored := ss_stored s @ [current]\<rparr>))
   | Inl cause \<Rightarrow>
       worker_throw i (put_failure cfg current cause)
         (s\<lparr>ss_meter := meter_end (lane_of cfg current) (ss_meter s),
            ss_inFlight := ss_inFlight s - 1\<rparr>))"

text \<open>
  The start: \<open>Array.from({ length: min(maxConcurrency, total) }, () => worker())\<close> runs every worker
  up to its first await, so all of them make their first slot test before any takes a block.
\<close>

definition worker_count :: "stripe_config \<Rightarrow> nat" where
  "worker_count cfg = nat (min (sc_maxConcurrency cfg) (int (stripe_total cfg)))"

definition stripe_blank :: "stripe_config \<Rightarrow> stripe_state" where
  "stripe_blank cfg =
     \<lparr>ss_completed = 0, ss_inFlight = 0, ss_nextIndex = 0, ss_completedBytes = 0, ss_meter = [],
      ss_highWater = 0, ss_workers = replicate (worker_count cfg) AtSlot, ss_failure = None,
      ss_started = [], ss_stored = [], ss_reports = []\<rparr>"

definition stripe_start :: "stripe_config \<Rightarrow> stripe_state" where
  "stripe_start cfg = fold (stripe_poll cfg) [0..<worker_count cfg] (stripe_blank cfg)"

text \<open>What the awaited \<open>Promise.all\<close> of a settled pool gives.\<close>

definition stripe_result :: "stripe_state \<Rightarrow> unit res" where
  "stripe_result s = (case ss_failure s of Some e \<Rightarrow> Inl e | None \<Rightarrow> Inr ())"

section \<open>Interleavings\<close>

inductive stripe_work :: "stripe_config \<Rightarrow> stripe_state \<Rightarrow> stripe_state \<Rightarrow> bool" for cfg where
  poll: "i < length (ss_workers s) \<Longrightarrow> ss_workers s ! i = AtSlot \<Longrightarrow> slot_free cfg s \<Longrightarrow>
    stripe_work cfg s (stripe_poll cfg i s)"
| resume: "i < length (ss_workers s) \<Longrightarrow> ss_workers s ! i = Granted \<Longrightarrow>
    stripe_work cfg s (stripe_resume cfg i s)"
| finish: "i < length (ss_workers s) \<Longrightarrow> ss_workers s ! i = Putting k \<Longrightarrow>
    stripe_work cfg s (stripe_finish cfg i k outcome s)"

inductive stripe_step :: "stripe_config \<Rightarrow> stripe_state \<Rightarrow> stripe_state \<Rightarrow> bool" for cfg where
  work: "stripe_work cfg s t \<Longrightarrow> stripe_step cfg s t"
| progress: "i < length (ss_workers s) \<Longrightarrow> ss_workers s ! i = Putting k \<Longrightarrow>
    stripe_step cfg s (stripe_progress cfg k n s)"

inductive_cases stripe_workE: "stripe_work cfg s t"
inductive_cases stripe_stepE: "stripe_step cfg s t"

definition putting :: "worker \<Rightarrow> nat list" where
  "putting w = (case w of Putting k \<Rightarrow> [k] | _ \<Rightarrow> [])"

definition in_flight_blocks :: "stripe_state \<Rightarrow> nat list" where
  "in_flight_blocks s = concat (map putting (ss_workers s))"

text \<open>
  The invariant, in three parts. Counters: \<open>inFlight\<close> counts the PUTs, the blocks taken so far are
  an initial segment, each taken once, and without a failure each taken block is stored or in
  flight. Lanes: every PUT has its lane, with its block's size as the total, and no other lane is
  open. Bytes: the reported byte count never goes back and never exceeds the total.
\<close>

definition stripe_counts :: "stripe_config \<Rightarrow> stripe_state \<Rightarrow> bool" where
  "stripe_counts cfg s \<longleftrightarrow>
     length (ss_workers s) = worker_count cfg \<and>
     ss_inFlight s = int (length (in_flight_blocks s)) \<and>
     ss_completed s = int (length (ss_stored s)) \<and>
     ss_nextIndex s \<le> stripe_total cfg \<and>
     distinct (in_flight_blocks s @ ss_stored s) \<and>
     set (in_flight_blocks s @ ss_stored s) \<subseteq> {..<ss_nextIndex s} \<and>
     (ss_failure s = None \<longrightarrow> {..<ss_nextIndex s} \<subseteq> set (in_flight_blocks s @ ss_stored s)) \<and>
     (ss_failure s = None \<longleftrightarrow> (\<forall>e. WorkerFailed e \<notin> set (ss_workers s))) \<and>
     (WorkerDone \<in> set (ss_workers s) \<longrightarrow> ss_nextIndex s = stripe_total cfg) \<and>
     distinct (ss_started s) \<and> set (ss_started s) \<subseteq> {..<ss_nextIndex s} \<and>
     set (in_flight_blocks s @ ss_stored s) \<subseteq> set (ss_started s)"

definition stripe_lanes :: "stripe_config \<Rightarrow> stripe_state \<Rightarrow> bool" where
  "stripe_lanes cfg s \<longleftrightarrow> meter_ok (ss_meter s) \<and>
     set (jm_keys (ss_meter s)) = lane_of cfg ` set (in_flight_blocks s) \<and>
     (\<forall>k l. jm_get (ss_meter s) (lane_of cfg k) = Some l \<longrightarrow> ln_total l = block_bytes cfg k) \<and>
     window_total (ss_meter s) = sum_list (map (block_bytes cfg) (in_flight_blocks s)) \<and>
     ss_completedBytes s = sum_list (map (block_bytes cfg) (ss_stored s))"

definition report_bytes :: "stripe_state \<Rightarrow> int list" where
  "report_bytes s = map us_transferred (ss_reports s)"

definition stripe_reports :: "stripe_config \<Rightarrow> stripe_state \<Rightarrow> bool" where
  "stripe_reports cfg s \<longleftrightarrow> 0 \<le> ss_highWater s \<and> ss_highWater s \<le> transferBytesTotal cfg \<and>
     sorted (report_bytes s @ [ss_highWater s])"

definition stripe_inv :: "stripe_config \<Rightarrow> stripe_state \<Rightarrow> bool" where
  "stripe_inv cfg s \<longleftrightarrow> stripe_counts cfg s \<and> stripe_lanes cfg s \<and> stripe_reports cfg s"

text \<open>Wire blocks are never empty.\<close>

definition blocks_nonempty :: "stripe_config \<Rightarrow> bool" where
  "blocks_nonempty cfg \<longleftrightarrow> (\<forall>(t, blob) \<in> set (sc_entries cfg). blob \<noteq> [])"

lemma block_bytes_pos: "blocks_nonempty cfg \<Longrightarrow> k < stripe_total cfg \<Longrightarrow> 0 < block_bytes cfg k"
  unfolding blocks_nonempty_def block_bytes_def stripe_total_def
  by (metis (mono_tags, lifting) case_prod_unfold length_greater_0_conv nth_mem of_nat_0_less_iff)

lemma block_bytes_nonneg [simp]: "0 \<le> block_bytes cfg k"
  by (simp add: block_bytes_def)

lemma transferBytesTotal_sum: "transferBytesTotal cfg = (\<Sum>k<stripe_total cfg. block_bytes cfg k)"
proof -
  have "map (\<lambda>(_, blob). int (length blob)) (sc_entries cfg) =
      map (block_bytes cfg) [0..<stripe_total cfg]"
    by (rule nth_equalityI) (simp_all add: stripe_total_def block_bytes_def case_prod_beta)
  then have "transferBytesTotal cfg = sum_list (map (block_bytes cfg) [0..<stripe_total cfg])"
    by (simp add: transferBytesTotal_def)
  then show ?thesis by (simp add: interv_sum_list_conv_sum_set_nat lessThan_atLeast0)
qed

lemma sum_blocks_le:
  assumes "distinct ks" "set ks \<subseteq> {..<stripe_total cfg}"
  shows "sum_list (map (block_bytes cfg) ks) \<le> transferBytesTotal cfg"
  using assms by (simp add: sum_list_distinct_conv_sum_set transferBytesTotal_sum sum_mono2)

text \<open>Replacing one worker.\<close>

lemma workers_update:
  assumes "i < length ws"
  obtains A B R where "concat (map putting ws) = A @ putting (ws ! i) @ B"
    "\<And>w. concat (map putting (ws[i := w])) = A @ putting w @ B"
    "set ws = insert (ws ! i) R" "\<And>w. set (ws[i := w]) = insert w R"
proof
  have ws: "ws = take i ws @ ws ! i # drop (Suc i) ws" using assms by (rule id_take_nth_drop)
  show "concat (map putting ws) = concat (map putting (take i ws)) @ putting (ws ! i) @
      concat (map putting (drop (Suc i) ws))"
    by (subst ws) simp
  show "concat (map putting (ws[i := w])) = concat (map putting (take i ws)) @ putting w @
      concat (map putting (drop (Suc i) ws))" for w
    using assms by (simp add: upd_conv_take_nth_drop)
  show "set ws = insert (ws ! i) (set (take i ws) \<union> set (drop (Suc i) ws))"
    by (subst ws) simp
  show "set (ws[i := w]) = insert w (set (take i ws) \<union> set (drop (Suc i) ws))" for w
    using assms by (simp add: upd_conv_take_nth_drop)
qed

lemma putting_simps [simp]:
  "putting AtSlot = []" "putting Granted = []" "putting (Putting k) = [k]"
  "putting WorkerDone = []" "putting (WorkerFailed e) = []"
  by (simp_all add: putting_def)

lemma reportUploading_fields [simp]:
  "ss_completed (reportUploading cfg s) = ss_completed s"
  "ss_inFlight (reportUploading cfg s) = ss_inFlight s"
  "ss_nextIndex (reportUploading cfg s) = ss_nextIndex s"
  "ss_completedBytes (reportUploading cfg s) = ss_completedBytes s"
  "ss_meter (reportUploading cfg s) = ss_meter s"
  "ss_workers (reportUploading cfg s) = ss_workers s"
  "ss_failure (reportUploading cfg s) = ss_failure s"
  "ss_started (reportUploading cfg s) = ss_started s"
  "ss_stored (reportUploading cfg s) = ss_stored s"
  by (simp_all add: reportUploading_def Let_def)

lemma stripe_counts_report [simp]: "stripe_counts cfg (reportUploading cfg s) = stripe_counts cfg s"
  by (simp add: stripe_counts_def in_flight_blocks_def)

lemma stripe_lanes_report [simp]: "stripe_lanes cfg (reportUploading cfg s) = stripe_lanes cfg s"
  by (simp add: stripe_lanes_def in_flight_blocks_def)

lemma lane_of_inj [simp]: "lane_of cfg k = lane_of cfg k' \<longleftrightarrow> k = k'"
  by (auto simp: lane_of_def)

lemma window_le:
  assumes "blocks_nonempty cfg" "stripe_counts cfg s" "stripe_lanes cfg s"
  shows "0 \<le> ss_completedBytes s + window_bytes (ss_meter s)"
    "ss_completedBytes s + window_bytes (ss_meter s) \<le> transferBytesTotal cfg"
proof -
  have ok: "meter_ok (ss_meter s)" using assms(3) by (simp add: stripe_lanes_def)
  have "0 \<le> window_bytes (ss_meter s)" using ok by (rule window_bytes_nonneg)
  moreover have "0 \<le> ss_completedBytes s"
    using assms(3) by (auto simp: stripe_lanes_def intro!: sum_list_nonneg)
  ultimately show "0 \<le> ss_completedBytes s + window_bytes (ss_meter s)" by simp
  have "\<forall>l \<in> set (ss_meter s). ln_total (snd l) = 0 \<longrightarrow> ln_transferred (snd l) = 0"
  proof
    fix p assume p: "p \<in> set (ss_meter s)"
    obtain key l where pk: "p = (key, l)" by (cases p)
    have "key \<in> set (jm_keys (ss_meter s))" using p pk by force
    then obtain k where k: "k \<in> set (in_flight_blocks s)" "key = lane_of cfg k"
      using assms(3) by (auto simp: stripe_lanes_def)
    have "jm_get (ss_meter s) key = Some l"
      using ok p pk by (simp add: meter_ok_def jm_wf_def)
    then have "ln_total l = block_bytes cfg k" using assms(3) k(2) by (auto simp: stripe_lanes_def)
    moreover have "k < stripe_total cfg"
      using assms(2) k(1) by (auto simp: stripe_counts_def)
    ultimately have "0 < ln_total l" using block_bytes_pos [OF assms(1)] by simp
    then show "ln_total (snd p) = 0 \<longrightarrow> ln_transferred (snd p) = 0" using pk by simp
  qed
  then have "window_bytes (ss_meter s) \<le> window_total (ss_meter s)"
    using ok by (rule window_bytes_le_total [rotated])
  then have "ss_completedBytes s + window_bytes (ss_meter s) \<le>
      sum_list (map (block_bytes cfg) (in_flight_blocks s @ ss_stored s))"
    using assms(3) by (simp add: stripe_lanes_def)
  also have "\<dots> \<le> transferBytesTotal cfg"
    using assms(2) by (intro sum_blocks_le) (auto simp: stripe_counts_def)
  finally show "ss_completedBytes s + window_bytes (ss_meter s) \<le> transferBytesTotal cfg" .
qed

lemma report_inv:
  assumes "blocks_nonempty cfg" "stripe_counts cfg s" "stripe_lanes cfg s" "stripe_reports cfg s"
  shows "stripe_reports cfg (reportUploading cfg s)"
  using assms(4) window_le [OF assms(1-3)]
  by (auto simp: stripe_reports_def reportUploading_def Let_def report_bytes_def sorted_append)

section \<open>Every step keeps the invariant\<close>

lemma set_worker_fields [simp]:
  "ss_completed (set_worker i w s) = ss_completed s"
  "ss_inFlight (set_worker i w s) = ss_inFlight s"
  "ss_nextIndex (set_worker i w s) = ss_nextIndex s"
  "ss_completedBytes (set_worker i w s) = ss_completedBytes s"
  "ss_meter (set_worker i w s) = ss_meter s"
  "ss_workers (set_worker i w s) = (ss_workers s)[i := w]"
  "ss_failure (set_worker i w s) = ss_failure s"
  "ss_started (set_worker i w s) = ss_started s"
  "ss_stored (set_worker i w s) = ss_stored s"
  "ss_highWater (set_worker i w s) = ss_highWater s"
  "ss_reports (set_worker i w s) = ss_reports s"
  by (simp_all add: set_worker_def)

lemma stripe_reports_cong:
  "ss_highWater s' = ss_highWater s \<Longrightarrow> ss_reports s' = ss_reports s \<Longrightarrow>
     stripe_reports cfg s' = stripe_reports cfg s"
  by (simp add: stripe_reports_def report_bytes_def)

text \<open>A worker that holds no block moves to another state without one.\<close>

lemma move_inv:
  assumes inv: "stripe_inv cfg s" and i: "i < length (ss_workers s)"
    and old: "putting (ss_workers s ! i) = []" "\<forall>e. ss_workers s ! i \<noteq> WorkerFailed e"
    and new: "w = AtSlot \<or> w = Granted \<or> (w = WorkerDone \<and> stripe_total cfg \<le> ss_nextIndex s)"
    and notdone: "ss_workers s ! i \<noteq> WorkerDone"
  shows "stripe_inv cfg (set_worker i w s)"
proof -
  obtain A B R where ws: "concat (map putting (ss_workers s)) = A @ putting (ss_workers s ! i) @ B"
    "\<And>w. concat (map putting ((ss_workers s)[i := w])) = A @ putting w @ B"
    "set (ss_workers s) = insert (ss_workers s ! i) R"
    "\<And>w. set ((ss_workers s)[i := w]) = insert w R"
    by (rule workers_update [OF i]) blast
  have counts: "stripe_counts cfg s" using inv by (simp add: stripe_inv_def)
  have blocks: "in_flight_blocks (set_worker i w s) = in_flight_blocks s"
    using ws(1,2) old(1) new by (auto simp: in_flight_blocks_def)
  have next_le: "ss_nextIndex s \<le> stripe_total cfg"
    and old_done: "WorkerDone \<in> set (ss_workers s) \<longrightarrow> ss_nextIndex s = stripe_total cfg"
    using counts by (simp_all add: stripe_counts_def)
  have dn: "WorkerDone \<in> set (ss_workers (set_worker i w s)) \<longrightarrow> ss_nextIndex s = stripe_total cfg"
    using next_le old_done new ws(3,4) by auto
  have failed: "(\<forall>e. WorkerFailed e \<notin> set (ss_workers (set_worker i w s))) \<longleftrightarrow>
      (\<forall>e. WorkerFailed e \<notin> set (ss_workers s))"
    using new ws(3,4) old(2) [THEN spec, THEN not_sym] by auto
  have "stripe_counts cfg (set_worker i w s)"
    using counts dn unfolding stripe_counts_def blocks failed by simp
  moreover have "stripe_lanes cfg (set_worker i w s)"
    using inv unfolding stripe_inv_def stripe_lanes_def blocks by simp
  moreover have "stripe_reports cfg (set_worker i w s) = stripe_reports cfg s"
    by (rule stripe_reports_cong) simp_all
  ultimately show ?thesis using inv by (simp add: stripe_inv_def)
qed

lemma stripe_inv_parts:
  assumes "stripe_inv cfg s"
  shows "stripe_counts cfg s" "stripe_lanes cfg s" "stripe_reports cfg s"
  using assms by (simp_all add: stripe_inv_def)

lemma putting_nth: "i < length ws \<Longrightarrow> ws ! i = Putting k \<Longrightarrow> k \<in> set (concat (map putting ws))"
  by (metis in_set_conv_decomp putting_simps(3) workers_update append_Cons)

lemma lane_absent:
  assumes "stripe_counts cfg s" "stripe_lanes cfg s" "ss_nextIndex s \<le> k"
  shows "jm_get (ss_meter s) (lane_of cfg k) = None"
proof -
  have "k \<notin> set (in_flight_blocks s)" using assms(1,3) by (auto simp: stripe_counts_def)
  then have "lane_of cfg k \<notin> set (jm_keys (ss_meter s))" using assms(2) by (auto simp: stripe_lanes_def)
  then show ?thesis by (simp add: map_of_eq_None_iff)
qed

lemma resume_inv:
  assumes pos: "blocks_nonempty cfg" and inv: "stripe_inv cfg s"
    and i: "i < length (ss_workers s)" and w: "ss_workers s ! i = Granted"
  shows "stripe_inv cfg (stripe_resume cfg i s)"
proof (cases "stripe_total cfg \<le> ss_nextIndex s")
  case True
  then show ?thesis
    using move_inv [OF inv i, of WorkerDone] w by (simp add: stripe_resume_def)
next
  case False
  let ?k = "ss_nextIndex s"
  let ?token = "fst (sc_entries cfg ! ?k)"
  note parts = stripe_inv_parts [OF inv]
  obtain A B R where ws: "concat (map putting (ss_workers s)) = A @ putting (ss_workers s ! i) @ B"
    "\<And>w. concat (map putting ((ss_workers s)[i := w])) = A @ putting w @ B"
    "set (ss_workers s) = insert (ss_workers s ! i) R"
    "\<And>w. set ((ss_workers s)[i := w]) = insert w R"
    by (rule workers_update [OF i]) blast
  have blocks: "in_flight_blocks s = A @ B" using ws(1) w by (simp add: in_flight_blocks_def)
  have no_done: "WorkerDone \<notin> set (ss_workers s)" using parts(1) False by (auto simp: stripe_counts_def)
  show ?thesis
  proof (cases "jm_get (sc_endpoints cfg) ?token")
    case None
    let ?e = "no_endpoint_error ?token"
    have eq: "stripe_resume cfg i s = worker_throw i ?e (s\<lparr>ss_nextIndex := ?k + 1\<rparr>)"
      using False None by (simp add: stripe_resume_def Let_def)
    have fields: "in_flight_blocks (stripe_resume cfg i s) = in_flight_blocks s"
      using ws(2) blocks by (simp add: eq worker_throw_def in_flight_blocks_def)
    have workers: "set (ss_workers (stripe_resume cfg i s)) = insert (WorkerFailed ?e) R"
      "length (ss_workers (stripe_resume cfg i s)) = length (ss_workers s)"
      using ws(4) by (simp_all add: eq worker_throw_def)
    have failure: "ss_failure (stripe_resume cfg i s) \<noteq> None"
      by (simp add: eq worker_throw_def split: option.split)
    have wider: "set xs \<subseteq> {..<?k + 1}" if "set xs \<subseteq> {..<?k}" for xs :: "nat list"
      using that by (auto simp: subset_iff)
    have counts: "stripe_counts cfg (stripe_resume cfg i s)"
      using parts(1) False no_done failure ws(3) wider
      unfolding stripe_counts_def fields workers
      by (auto simp: eq worker_throw_def)
    have "stripe_lanes cfg (stripe_resume cfg i s)"
      using parts(2) unfolding stripe_lanes_def fields by (simp add: eq worker_throw_def)
    moreover have "stripe_reports cfg (stripe_resume cfg i s) = stripe_reports cfg s"
      by (rule stripe_reports_cong) (simp_all add: eq worker_throw_def)
    ultimately show ?thesis using counts parts(3) by (simp add: stripe_inv_def)
  next
    case (Some ep)
    let ?s1 = "s\<lparr>ss_nextIndex := ?k + 1, ss_inFlight := ss_inFlight s + 1,
        ss_meter := meter_begin (lane_of cfg ?k) (block_bytes cfg ?k) (ss_meter s),
        ss_started := ss_started s @ [?k], ss_workers := (ss_workers s)[i := Putting ?k]\<rparr>"
    have eq: "stripe_resume cfg i s = reportUploading cfg ?s1"
      using False Some by (simp add: stripe_resume_def Let_def lane_of_def set_worker_def reportUploading_def)
    have blocks1: "in_flight_blocks ?s1 = A @ ?k # B" using ws(2) by (simp add: in_flight_blocks_def)
    have counts: "stripe_counts cfg ?s1"
      using parts(1) False ws(3,4) no_done w unfolding stripe_counts_def blocks1 blocks
      by (auto simp: less_Suc_eq)
    have absent: "lane_of cfg ?k \<notin> fst ` set (ss_meter s)"
      using lane_absent [OF parts(1,2), of ?k] by (simp add: map_of_eq_None_iff)
    have mok: "meter_ok (ss_meter ?s1)"
      using parts(2) by (simp add: meter_ok_begin stripe_lanes_def)
    have lanes: "stripe_lanes cfg ?s1"
      using parts(2) absent mok unfolding stripe_lanes_def blocks1 blocks
      by (auto simp: meter_begin_def jm_get_set meter_snapshot_def sum_jm_set_new)
    have "stripe_reports cfg ?s1 = stripe_reports cfg s" by (rule stripe_reports_cong) simp_all
    then show ?thesis
      unfolding eq stripe_inv_def using counts lanes parts(3) by (simp add: report_inv [OF pos])
  qed
qed

text \<open>The PUT of a worker ends: its lane closes and its block leaves the in-flight blocks.\<close>

lemma lanes_end:
  assumes lanes: "stripe_lanes cfg s" and flight: "in_flight_blocks s = A @ k # B"
    and dist: "distinct (in_flight_blocks s)"
    and m: "ss_meter s' = meter_end (lane_of cfg k) (ss_meter s)" and flight': "in_flight_blocks s' = A @ B"
    and bytes: "ss_completedBytes s' = sum_list (map (block_bytes cfg) (ss_stored s'))"
  shows "stripe_lanes cfg s'"
proof -
  have "lane_of cfg k \<in> set (jm_keys (ss_meter s))"
    using lanes flight by (auto simp: stripe_lanes_def)
  then obtain l where l: "jm_get (ss_meter s) (lane_of cfg k) = Some l"
    by (metis jm_get_None_iff not_None_eq)
  then have tot: "ln_total l = block_bytes cfg k" using lanes by (auto simp: stripe_lanes_def)
  have ok: "meter_ok (ss_meter s)" using lanes by (simp add: stripe_lanes_def)
  then have wf: "jm_wf (ss_meter s)" by (simp add: meter_ok_def)
  have w: "window_total (ss_meter s') = window_total (ss_meter s) - block_bytes cfg k"
    using sum_jm_delete [OF wf l, of ln_total] tot by (simp add: m meter_end_def meter_snapshot_def)
  have keys: "set (jm_keys (ss_meter s')) = lane_of cfg ` set (in_flight_blocks s')"
  proof -
    have "set (jm_keys (ss_meter s')) = set (jm_keys (ss_meter s)) - {lane_of cfg k}"
      unfolding m meter_end_def delete_keys by auto
    also have "\<dots> = lane_of cfg ` set (in_flight_blocks s')"
      using lanes dist flight flight' by (auto simp: stripe_lanes_def)
    finally show ?thesis .
  qed
  show ?thesis
    unfolding stripe_lanes_def
  proof (intro conjI)
    show "meter_ok (ss_meter s')" using ok by (simp add: m meter_ok_end)
    show "set (jm_keys (ss_meter s')) = lane_of cfg ` set (in_flight_blocks s')" by (rule keys)
    show "\<forall>k l. jm_get (ss_meter s') (lane_of cfg k) = Some l \<longrightarrow> ln_total l = block_bytes cfg k"
      using lanes by (auto simp: m meter_end_def jm_get_delete stripe_lanes_def)
    show "window_total (ss_meter s') = sum_list (map (block_bytes cfg) (in_flight_blocks s'))"
      using w lanes flight flight' by (simp add: stripe_lanes_def)
  qed (rule bytes)
qed

lemma finish_inv:
  assumes pos: "blocks_nonempty cfg" and inv: "stripe_inv cfg s"
    and i: "i < length (ss_workers s)" and w: "ss_workers s ! i = Putting k"
  shows "stripe_inv cfg (stripe_finish cfg i k outcome s)"
proof -
  note parts = stripe_inv_parts [OF inv]
  obtain A B R where ws: "concat (map putting (ss_workers s)) = A @ putting (ss_workers s ! i) @ B"
    "\<And>w. concat (map putting ((ss_workers s)[i := w])) = A @ putting w @ B"
    "set (ss_workers s) = insert (ss_workers s ! i) R"
    "\<And>w. set ((ss_workers s)[i := w]) = insert w R"
    by (rule workers_update [OF i]) blast
  have flight: "in_flight_blocks s = A @ k # B" using ws(1) w by (simp add: in_flight_blocks_def)
  have dist: "distinct (in_flight_blocks s)" using parts(1) by (simp add: stripe_counts_def)
  show ?thesis
  proof (cases outcome)
    case (Inl cause)
    let ?s1 = "s\<lparr>ss_meter := meter_end (lane_of cfg k) (ss_meter s), ss_inFlight := ss_inFlight s - 1\<rparr>"
    let ?t = "worker_throw i (put_failure cfg k cause) ?s1"
    have eq: "stripe_finish cfg i k outcome s = ?t" by (simp add: stripe_finish_def Inl)
    have flight': "in_flight_blocks ?t = A @ B" using ws(2) by (simp add: in_flight_blocks_def worker_throw_def)
    have workers: "set (ss_workers ?t) = insert (WorkerFailed (put_failure cfg k cause)) R"
      "length (ss_workers ?t) = length (ss_workers s)"
      using ws(4) by (simp_all add: worker_throw_def)
    have failure: "ss_failure ?t \<noteq> None" by (simp add: worker_throw_def split: option.split)
    have "stripe_counts cfg ?t"
      using parts(1) failure ws(3) w unfolding stripe_counts_def flight flight' workers
      by (auto simp: worker_throw_def)
    moreover have "stripe_lanes cfg ?t"
      by (rule lanes_end [OF parts(2) flight dist _ flight'])
        (use parts(2) in \<open>simp_all add: worker_throw_def stripe_lanes_def\<close>)
    moreover have "stripe_reports cfg ?t = stripe_reports cfg s"
      by (rule stripe_reports_cong) (simp_all add: worker_throw_def)
    ultimately show ?thesis using parts(3) unfolding eq stripe_inv_def by simp
  next
    case (Inr u)
    let ?s1 = "s\<lparr>ss_completedBytes := ss_completedBytes s + block_bytes cfg k,
        ss_meter := meter_end (lane_of cfg k) (ss_meter s), ss_completed := ss_completed s + 1,
        ss_inFlight := ss_inFlight s - 1, ss_stored := ss_stored s @ [k], ss_workers := (ss_workers s)[i := AtSlot]\<rparr>"
    have eq: "stripe_finish cfg i k outcome s = stripe_poll cfg i (reportUploading cfg ?s1)"
      by (simp add: stripe_finish_def Inr stripe_poll_def set_worker_def reportUploading_def Let_def
          slot_free_def)
    have flight': "in_flight_blocks ?s1 = A @ B" using ws(2) by (simp add: in_flight_blocks_def)
    have workers: "set (ss_workers ?s1) = insert AtSlot R" "length (ss_workers ?s1) = length (ss_workers s)"
      using ws(4) by simp_all
    have counts: "stripe_counts cfg ?s1"
      using parts(1) ws(3) w unfolding stripe_counts_def flight flight' workers
      by auto
    have lanes: "stripe_lanes cfg ?s1"
      by (rule lanes_end [OF parts(2) flight dist _ flight'])
        (use parts(2) in \<open>simp_all add: stripe_lanes_def\<close>)
    have "stripe_reports cfg ?s1 = stripe_reports cfg s" by (rule stripe_reports_cong) simp_all
    then have "stripe_inv cfg (reportUploading cfg ?s1)"
      unfolding stripe_inv_def using counts lanes parts(3) by (simp add: report_inv [OF pos])
    then show ?thesis
      unfolding eq stripe_poll_def by (rule move_inv) (use i in auto)
  qed
qed

lemma progress_inv:
  assumes pos: "blocks_nonempty cfg" and inv: "stripe_inv cfg s"
    and i: "i < length (ss_workers s)" and w: "ss_workers s ! i = Putting k"
  shows "stripe_inv cfg (stripe_progress cfg k n s)"
proof -
  note parts = stripe_inv_parts [OF inv]
  let ?m = "meter_setTransferred (lane_of cfg k) n (ss_meter s)"
  let ?s1 = "s\<lparr>ss_meter := ?m\<rparr>"
  have flight: "in_flight_blocks ?s1 = in_flight_blocks s" by (simp add: in_flight_blocks_def)
  have "k \<in> set (in_flight_blocks s)" using putting_nth [OF i w] by (simp add: in_flight_blocks_def)
  then have "lane_of cfg k \<in> set (jm_keys (ss_meter s))" using parts(2) by (auto simp: stripe_lanes_def)
  then obtain l where l: "jm_get (ss_meter s) (lane_of cfg k) = Some l"
    by (metis jm_get_None_iff not_None_eq)
  have wf: "jm_wf (ss_meter s)" using parts(2) by (simp add: stripe_lanes_def meter_ok_def)
  obtain l' where l': "?m = jm_set (lane_of cfg k) l' (ss_meter s)" "ln_total l' = ln_total l"
    using l by (simp add: meter_setTransferred_def Let_def)
  have tot: "window_total ?m = window_total (ss_meter s)"
    using sum_jm_set_old [OF wf l, of ln_total l'] l' by (simp add: meter_snapshot_def)
  have counts: "stripe_counts cfg ?s1"
    using parts(1) unfolding stripe_counts_def flight by simp
  have mok: "meter_ok ?m" using parts(2) by (simp add: meter_ok_setTransferred stripe_lanes_def)
  have keys: "set (jm_keys ?m) = set (jm_keys (ss_meter s))"
    using l l'(1) by (auto simp: map_of_eq_None_iff dest: map_of_SomeD) (metis fst_conv image_eqI map_of_SomeD)
  have "stripe_lanes cfg ?s1"
    using parts(2) mok keys tot l l' unfolding stripe_lanes_def flight
    by (auto simp: jm_get_set split: if_splits)
  moreover have "stripe_reports cfg ?s1 = stripe_reports cfg s" by (rule stripe_reports_cong) simp_all
  ultimately show ?thesis
    unfolding stripe_progress_def stripe_inv_def using counts parts(3) by (simp add: report_inv [OF pos])
qed

section \<open>Runs\<close>

lemma slot_free_set_worker [simp]: "slot_free cfg (set_worker i w s) = slot_free cfg s"
  by (simp add: slot_free_def)

lemma polls_at_start:
  "n \<le> length (ss_workers s) \<Longrightarrow> fold (stripe_poll cfg) [0..<n] s =
     s\<lparr>ss_workers := replicate n (if slot_free cfg s then Granted else AtSlot) @ drop n (ss_workers s)\<rparr>"
proof (induction n)
  case 0
  then show ?case by simp
next
  case (Suc n)
  let ?w = "if slot_free cfg s then Granted else AtSlot"
  have sf: "slot_free cfg (s\<lparr>ss_workers := ws\<rparr>) = slot_free cfg s" for ws
    by (simp add: slot_free_def)
  have "(replicate n ?w @ drop n (ss_workers s))[n := ?w] = replicate (Suc n) ?w @ drop (Suc n) (ss_workers s)"
    using Suc.prems by (simp add: list_update_append replicate_app_Cons_same Cons_nth_drop_Suc [symmetric])
  then show ?case
    using Suc by (simp add: stripe_poll_def set_worker_def sf)
qed

lemma stripe_start_eq:
  "stripe_start cfg = (stripe_blank cfg)\<lparr>ss_workers := replicate (worker_count cfg)
     (if slot_free cfg (stripe_blank cfg) then Granted else AtSlot)\<rparr>"
  by (simp add: stripe_start_def polls_at_start stripe_blank_def)

lemma transferBytesTotal_nonneg: "0 \<le> transferBytesTotal cfg"
  by (auto simp: transferBytesTotal_sum intro: sum_nonneg)

lemma stripe_start_inv: "stripe_inv cfg (stripe_start cfg)"
proof -
  have none: "concat (map putting (replicate n w)) = []" if "w = Granted \<or> w = AtSlot" for n w
    using that by (induction n) auto
  then have "in_flight_blocks (stripe_start cfg) = []"
    by (simp add: in_flight_blocks_def stripe_start_eq)
  then show ?thesis
    by (auto simp: stripe_inv_def stripe_counts_def stripe_lanes_def stripe_reports_def report_bytes_def
        stripe_start_eq stripe_blank_def meter_snapshot_def transferBytesTotal_nonneg)
qed

lemma stripe_work_inv:
  assumes "blocks_nonempty cfg"
  shows "stripe_work cfg s t \<Longrightarrow> stripe_inv cfg s \<Longrightarrow> stripe_inv cfg t"
proof (induction rule: stripe_work.induct)
  case (poll i s)
  then show ?case by (auto simp: stripe_poll_def intro!: move_inv)
qed (auto intro: resume_inv finish_inv assms)

lemma stripe_step_inv:
  assumes "blocks_nonempty cfg"
  shows "stripe_step cfg s t \<Longrightarrow> stripe_inv cfg s \<Longrightarrow> stripe_inv cfg t"
  by (induction rule: stripe_step.induct) (auto intro: stripe_work_inv progress_inv assms)

definition weight :: "worker \<Rightarrow> nat" where
  "weight w = (case w of AtSlot \<Rightarrow> 2 | Granted \<Rightarrow> 1 | Putting _ \<Rightarrow> 3 | _ \<Rightarrow> 0)"

definition stripe_rank :: "stripe_config \<Rightarrow> stripe_state \<Rightarrow> nat" where
  "stripe_rank cfg s = 3 * (stripe_total cfg - ss_nextIndex s) + sum_list (map weight (ss_workers s))"

lemma weight_update:
  assumes "i < length ws"
  shows "sum_list (map weight (ws[i := w])) + weight (ws ! i) = sum_list (map weight ws) + weight w"
  using arg_cong [OF id_take_nth_drop [OF assms, symmetric], of "\<lambda>x. sum_list (map weight x)"] assms
  by (simp add: upd_conv_take_nth_drop)

lemma stripe_work_rank: "stripe_work cfg s t \<Longrightarrow> stripe_rank cfg t < stripe_rank cfg s"
proof (induction rule: stripe_work.induct)
  case (poll i s)
  then show ?case using weight_update [OF poll(1), of Granted]
    by (simp add: stripe_poll_def stripe_rank_def weight_def)
next
  case (resume i s)
  have w: "weight (ss_workers s ! i) = 1" using resume(2) by (simp add: weight_def)
  show ?case
    using weight_update [OF resume(1), of WorkerDone]
      weight_update [OF resume(1), of "Putting (ss_nextIndex s)"]
      weight_update [OF resume(1), of "WorkerFailed (no_endpoint_error (fst (sc_entries cfg ! ss_nextIndex s)))"] w
    by (auto simp: stripe_resume_def stripe_rank_def weight_def worker_throw_def Let_def split: option.split)
next
  case (finish i s k outcome)
  have w: "weight (ss_workers s ! i) = 3" using finish(2) by (simp add: weight_def)
  show ?case
  proof (cases outcome)
    case (Inl cause)
    then show ?thesis using weight_update [OF finish(1), of "WorkerFailed (put_failure cfg k cause)"] w
      by (simp add: stripe_finish_def stripe_rank_def weight_def worker_throw_def)
  next
    case (Inr u)
    then show ?thesis
      using weight_update [OF finish(1), of AtSlot] weight_update [OF finish(1), of Granted] w
      by (simp add: stripe_finish_def stripe_poll_def stripe_rank_def weight_def)
  qed
qed

text \<open>
  The contracts, for configurations without empty blocks: every interleaving keeps the invariant,
  and the work steps use up the rank, so a pool of workers always comes to rest.
\<close>

definition stripe_ok :: "stripe_config \<Rightarrow> stripe_state \<Rightarrow> bool" where
  "stripe_ok cfg s \<longleftrightarrow> blocks_nonempty cfg \<and> stripe_inv cfg s"

interpretation stripe: safe_system "stripe_step cfg" "stripe_ok cfg" for cfg
  by unfold_locales (auto simp: stripe_ok_def intro: stripe_step_inv)

interpretation stripe_pool: draining_system "stripe_work cfg" "stripe_ok cfg" "stripe_rank cfg" for cfg
  by unfold_locales (auto simp: stripe_ok_def intro: stripe_work_inv stripe_work_rank)

lemma stripe_started_once:
  assumes "stripe_inv cfg s"
  shows "distinct (ss_started s)" "set (ss_started s) \<subseteq> {..<stripe_total cfg}"
  using assms by (auto simp: stripe_inv_def stripe_counts_def)

lemma in_flight_le_workers: "length (in_flight_blocks s) \<le> length (ss_workers s)"
proof -
  have "length (concat (map putting ws)) \<le> length ws" for ws
    by (induction ws) (auto simp: putting_def split: worker.split)
  then show ?thesis by (simp add: in_flight_blocks_def)
qed

text \<open>A pool at rest: every worker has returned or thrown.\<close>

lemma stripe_stuck:
  assumes inv: "stripe_inv cfg s" and stuck: "\<not> (\<exists>t. stripe_work cfg s t)"
    and conc: "0 < sc_maxConcurrency cfg"
  shows "\<forall>w \<in> set (ss_workers s). w = WorkerDone \<or> (\<exists>e. w = WorkerFailed e)"
proof
  fix w assume "w \<in> set (ss_workers s)"
  then obtain i where i: "i < length (ss_workers s)" "ss_workers s ! i = w" by (auto simp: in_set_conv_nth)
  have no_put: "\<not> (\<exists>j k. j < length (ss_workers s) \<and> ss_workers s ! j = Putting k)"
    using stuck stripe_work.finish by blast
  have "in_flight_blocks s = []"
  proof -
    have "putting v = []" if v: "v \<in> set (ss_workers s)" for v
    proof -
      obtain j where "j < length (ss_workers s)" "ss_workers s ! j = v"
        using v by (auto simp: in_set_conv_nth)
      then show ?thesis using no_put by (cases v) auto
    qed
    then show ?thesis by (auto simp: in_flight_blocks_def)
  qed
  then have "ss_inFlight s = 0" using inv by (simp add: stripe_inv_def stripe_counts_def)
  then have free: "slot_free cfg s"
    using conc ramped_bounds [OF conc, of "ss_completed s"]
    by (simp add: slot_free_def stripe_slot_free_def stripe_slot_limit_def)
  show "w = WorkerDone \<or> (\<exists>e. w = WorkerFailed e)"
  proof (cases w)
    case AtSlot
    with i free stuck show ?thesis using stripe_work.poll by blast
  next
    case Granted
    with i stuck show ?thesis using stripe_work.resume by blast
  next
    case (Putting k)
    with i no_put show ?thesis by blast
  qed auto
qed

section \<open>Properties\<close>

lemma worker_count_le: "int (worker_count cfg) = max 0 (min (sc_maxConcurrency cfg) (int (stripe_total cfg)))"
  by (simp add: worker_count_def)

text \<open>C7. Under every interleaving of the workers' steps and progress events, no more PUTs run at
  once than \<open>min(maxConcurrency, total)\<close>, no block is ever PUT by two workers, the completed
  count is the number of blocks stored, and the byte count reported to the UI never goes back and
  never exceeds the total.\<close>

theorem stripe_safety:
  assumes "blocks_nonempty cfg" "(stripe_step cfg)\<^sup>*\<^sup>* (stripe_start cfg) s"
  shows "ss_inFlight s \<le> max 0 (min (sc_maxConcurrency cfg) (int (stripe_total cfg))) \<and>
    distinct (ss_started s) \<and> set (ss_started s) \<subseteq> {..<stripe_total cfg} \<and>
    distinct (ss_stored s) \<and> ss_completed s = int (length (ss_stored s)) \<and>
    sorted (report_bytes s) \<and> (\<forall>b \<in> set (report_bytes s). b \<le> transferBytesTotal cfg)"
proof -
  have "stripe_ok cfg (stripe_start cfg)" using assms(1) stripe_start_inv by (simp add: stripe_ok_def)
  then have ok: "stripe_ok cfg s" using assms(2) by (rule stripe.inv_steps [rotated])
  then have inv: "stripe_inv cfg s" by (simp add: stripe_ok_def)
  have "ss_inFlight s \<le> int (length (ss_workers s))"
    using inv in_flight_le_workers [of s] by (simp add: stripe_inv_def stripe_counts_def)
  then have "ss_inFlight s \<le> max 0 (min (sc_maxConcurrency cfg) (int (stripe_total cfg)))"
    using inv worker_count_le [of cfg] by (simp add: stripe_inv_def stripe_counts_def)
  moreover have "sorted (report_bytes s @ [ss_highWater s])" "ss_highWater s \<le> transferBytesTotal cfg"
    using inv by (simp_all add: stripe_inv_def stripe_reports_def)
  moreover from this have "sorted (report_bytes s)" "\<forall>b \<in> set (report_bytes s). b \<le> transferBytesTotal cfg"
    by (auto simp: sorted_append)
  ultimately show ?thesis
    using inv stripe_started_once [OF inv] by (auto simp: stripe_inv_def stripe_counts_def)
qed

definition demo_stripe :: stripe_config where
  "demo_stripe = \<lparr>sc_entries = [(''a'', [1, 2]), (''b'', [3])],
     sc_endpoints = [(''a'', demo_endpoint), (''b'', demo_endpoint)], sc_maxConcurrency = 6,
     sc_rampConcurrency = True, sc_putMaxAttempts = 3, sc_putTransientMaxAttempts = 8,
     sc_putRetryDelayMs = 2000\<rparr>"

lemma demo_stripe_nonempty: "blocks_nonempty demo_stripe"
  by (simp add: blocks_nonempty_def demo_stripe_def)

lemma stripe_safety_witness:
  "\<exists>s. (stripe_step demo_stripe)\<^sup>*\<^sup>* (stripe_start demo_stripe) s \<and> ss_started s = [0] \<and> ss_inFlight s \<le> 2"
proof -
  let ?s = "stripe_resume demo_stripe 0 (stripe_start demo_stripe)"
  have "0 < length (ss_workers (stripe_start demo_stripe))" "ss_workers (stripe_start demo_stripe) ! 0 = Granted"
    by code_simp+
  then have "stripe_work demo_stripe (stripe_start demo_stripe) ?s" by (rule stripe_work.resume)
  then have "stripe_step demo_stripe (stripe_start demo_stripe) ?s" by (rule stripe_step.work)
  then have run: "(stripe_step demo_stripe)\<^sup>*\<^sup>* (stripe_start demo_stripe) ?s" by (rule r_into_rtranclp)
  have "stripe_total demo_stripe = 2" "sc_maxConcurrency demo_stripe = 6" by (simp_all add: stripe_total_def demo_stripe_def)
  with stripe_safety [OF demo_stripe_nonempty run] have "ss_inFlight ?s \<le> 2" by simp
  moreover have "ss_started ?s = [0]" by code_simp
  ultimately show ?thesis using run by blast
qed

lemma stripe_outcome:
  assumes "blocks_nonempty cfg" "0 < sc_maxConcurrency cfg"
    and "(stripe_step cfg)\<^sup>*\<^sup>* (stripe_start cfg) s"
  shows "(\<exists>t. (stripe_work cfg)\<^sup>*\<^sup>* s t \<and> \<not> (\<exists>u. stripe_work cfg t u)) \<and>
    (\<not> (\<exists>u. stripe_work cfg s u) \<longrightarrow>
      (case ss_failure s of
         None \<Rightarrow> stripe_result s = Inr () \<and> set (ss_stored s) = {..<stripe_total cfg} \<and>
           ss_completed s = int (stripe_total cfg) \<and> ss_inFlight s = 0 \<and>
           ss_completedBytes s = transferBytesTotal cfg
       | Some e \<Rightarrow> stripe_result s = Inl e))"
proof -
  have "stripe_ok cfg (stripe_start cfg)" using assms(1) stripe_start_inv by (simp add: stripe_ok_def)
  then have ok: "stripe_ok cfg s" using assms(3) by (rule stripe.inv_steps [rotated])
  then have inv: "stripe_inv cfg s" by (simp add: stripe_ok_def)
  have "\<exists>t. (stripe_work cfg)\<^sup>*\<^sup>* s t \<and> \<not> (\<exists>u. stripe_work cfg t u)"
    using stripe_pool.reaches_stuck [OF ok] by blast
  moreover have "stripe_result s = Inr () \<and> set (ss_stored s) = {..<stripe_total cfg} \<and>
      ss_completed s = int (stripe_total cfg) \<and> ss_inFlight s = 0 \<and>
      ss_completedBytes s = transferBytesTotal cfg"
    if stuck: "\<not> (\<exists>u. stripe_work cfg s u)" and ok: "ss_failure s = None"
  proof -
    have workers: "\<forall>w \<in> set (ss_workers s). w = WorkerDone"
      using stripe_stuck [OF inv stuck assms(2)] inv ok by (auto simp: stripe_inv_def stripe_counts_def)
    then have flight: "in_flight_blocks s = []" by (auto simp: in_flight_blocks_def)
    have counts: "stripe_counts cfg s" using inv by (simp add: stripe_inv_def)
    have "ss_nextIndex s = stripe_total cfg"
    proof (cases "stripe_total cfg = 0")
      case True
      then show ?thesis using counts by (simp add: stripe_counts_def)
    next
      case False
      then have "0 < length (ss_workers s)"
        using counts assms(2) by (simp add: stripe_counts_def worker_count_def)
      then have "ss_workers s ! 0 \<in> set (ss_workers s)" by simp
      moreover from this workers have "ss_workers s ! 0 = WorkerDone" by blast
      ultimately show ?thesis using counts by (simp add: stripe_counts_def)
    qed
    then have stored: "set (ss_stored s) = {..<stripe_total cfg}" "distinct (ss_stored s)"
      using counts ok flight by (auto simp: stripe_counts_def)
    then have "length (ss_stored s) = stripe_total cfg" using distinct_card by fastforce
    moreover have "sum_list (map (block_bytes cfg) (ss_stored s)) = transferBytesTotal cfg"
      using stored by (simp add: sum_list_distinct_conv_sum_set transferBytesTotal_sum)
    ultimately show ?thesis
      using inv flight stored ok by (simp add: stripe_inv_def stripe_counts_def stripe_lanes_def stripe_result_def)
  qed
  ultimately show ?thesis by (auto simp: stripe_result_def split: option.split)
qed



text \<open>
  All workers resumed in order after the start.
\<close>

lemma resume_granted:
  assumes "\<forall>j. i \<le> j \<and> j < n \<longrightarrow> ss_workers s ! j = Granted" "length (ss_workers s) = n" "ss_nextIndex s = i"
    and "n \<le> stripe_total cfg" "\<forall>(t, b) \<in> set (sc_entries cfg). jm_get (sc_endpoints cfg) t \<noteq> None" "i \<le> n"
  shows "(stripe_work cfg)\<^sup>*\<^sup>* s (fold (stripe_resume cfg) [i..<n] s) \<and>
    ss_inFlight (fold (stripe_resume cfg) [i..<n] s) = ss_inFlight s + int (n - i) \<and>
    ss_completed (fold (stripe_resume cfg) [i..<n] s) = ss_completed s"
  using assms
proof (induction "n - i" arbitrary: i s)
  case 0
  then show ?case by simp
next
  case (Suc m)
  then have i: "i < n" by simp
  let ?s = "stripe_resume cfg i s"
  have "sc_entries cfg ! i \<in> set (sc_entries cfg)" using i Suc.prems(4) by (simp add: stripe_total_def)
  then obtain ep where ep: "jm_get (sc_endpoints cfg) (fst (sc_entries cfg ! i)) = Some ep"
    using Suc.prems(5) by (fastforce simp: case_prod_beta)
  have fields: "ss_workers ?s = (ss_workers s)[i := Putting i]" "ss_nextIndex ?s = Suc i"
    "ss_inFlight ?s = ss_inFlight s + 1" "ss_completed ?s = ss_completed s"
    using Suc.prems(3,4) i ep by (simp_all add: stripe_resume_def Let_def)
  have step: "stripe_work cfg s ?s" using Suc.prems(1,2) i by (intro stripe_work.resume) auto
  have IH: "(stripe_work cfg)\<^sup>*\<^sup>* ?s (fold (stripe_resume cfg) [Suc i..<n] ?s) \<and>
    ss_inFlight (fold (stripe_resume cfg) [Suc i..<n] ?s) = ss_inFlight ?s + int (n - Suc i) \<and>
    ss_completed (fold (stripe_resume cfg) [Suc i..<n] ?s) = ss_completed ?s"
    using Suc.hyps(2) Suc.prems i fields by (intro Suc.hyps(1)) auto
  have "fold (stripe_resume cfg) [i..<n] s = fold (stripe_resume cfg) [Suc i..<n] ?s"
    using i by (simp add: upt_conv_Cons)
  with IH step fields i show ?case by (auto intro: converse_rtranclp_into_rtranclp)
qed

text \<open>The ramp does not ramp: all workers pass their first slot test before any of them takes a
  block, so although the ramp allows one PUT while nothing is completed, letting the workers
  continue puts \<open>min(maxConcurrency, total)\<close> PUTs in flight at once.\<close>

theorem stripe_ramp_overshoot:
  assumes "sc_rampConcurrency cfg" "1 < sc_maxConcurrency cfg" "1 < stripe_total cfg"
    and "\<forall>(t, b) \<in> set (sc_entries cfg). jm_get (sc_endpoints cfg) t \<noteq> None"
  shows "stripe_slot_limit (sc_rampConcurrency cfg) (ss_completed (stripe_start cfg)) (sc_maxConcurrency cfg) = 1 \<and>
    (\<exists>s. (stripe_work cfg)\<^sup>*\<^sup>* (stripe_start cfg) s \<and> ss_completed s = 0 \<and>
       ss_inFlight s = min (sc_maxConcurrency cfg) (int (stripe_total cfg)) \<and> 1 < ss_inFlight s)"
proof -
  let ?n = "worker_count cfg"
  have n: "int ?n = min (sc_maxConcurrency cfg) (int (stripe_total cfg))" "1 < ?n" "?n \<le> stripe_total cfg"
    using assms(2,3) by (auto simp: worker_count_def)
  have free: "slot_free cfg (stripe_blank cfg)"
    using assms(1,2) by (simp add: slot_free_def stripe_slot_free_def stripe_slot_limit_def stripe_blank_def
        resolveRampedStripeConcurrency_def)
  have start: "ss_workers (stripe_start cfg) = replicate ?n Granted" "ss_nextIndex (stripe_start cfg) = 0"
    "ss_inFlight (stripe_start cfg) = 0" "ss_completed (stripe_start cfg) = 0"
    using free by (simp_all add: stripe_start_eq stripe_blank_def)
  have run: "(stripe_work cfg)\<^sup>*\<^sup>* (stripe_start cfg) (fold (stripe_resume cfg) [0..<?n] (stripe_start cfg)) \<and>
    ss_inFlight (fold (stripe_resume cfg) [0..<?n] (stripe_start cfg)) = ss_inFlight (stripe_start cfg) + int (?n - 0) \<and>
    ss_completed (fold (stripe_resume cfg) [0..<?n] (stripe_start cfg)) = ss_completed (stripe_start cfg)"
    using assms(4) n start by (intro resume_granted) auto
  show ?thesis
    using run n start assms(1,2)
    by (intro conjI exI [of _ "fold (stripe_resume cfg) [0..<?n] (stripe_start cfg)"])
      (auto simp: stripe_slot_limit_def resolveRampedStripeConcurrency_def)
qed

lemma stripe_ramp_overshoot_witness:
  "\<exists>s. (stripe_work demo_stripe)\<^sup>*\<^sup>* (stripe_start demo_stripe) s \<and> ss_completed s = 0 \<and> ss_inFlight s = 2"
  using stripe_ramp_overshoot [of demo_stripe] by (auto simp: demo_stripe_def stripe_total_def)

end
