(* ===== verification/Credential.thy ===== *)
theory Credential
  imports Sizes
begin

text \<open>
  Transfer credentials of \<open>app/src/credential/\<close>: the style options, their validation, and the
  two generators (random characters per position, and consonant-vowel-consonant syllables).
  The bytes of \<open>crypto.getRandomValues\<close> are a parameter: \<open>random n\<close> is what it writes into a
  fresh array of \<open>n\<close> bytes. The localized texts (error messages, labels) are constructors of
  \<open>style_error\<close> and \<open>style_label\<close>, one for each text of the source.
\<close>

section \<open>Style options and character classes\<close>

record CredentialStyleOptions =
  includeUppercase :: bool
  includeLowercase :: bool
  allowAtMostOneHyphen :: bool
  lettersOnlyLastSix :: bool
  lettersOnlyFirstSix :: bool
  wordStyle :: bool

definition DEFAULT_CREDENTIAL_STYLE :: CredentialStyleOptions where
  "DEFAULT_CREDENTIAL_STYLE = \<lparr> includeUppercase = True, includeLowercase = True,
     allowAtMostOneHyphen = False, lettersOnlyLastSix = False, lettersOnlyFirstSix = False,
     wordStyle = False \<rparr>"

definition UPPERCASE :: string where
  "UPPERCASE = ''ABCDEFGHIJKLMNOPQRSTUVWXYZ''"

definition LOWERCASE :: string where
  "LOWERCASE = ''abcdefghijklmnopqrstuvwxyz''"

definition DIGITS :: string where
  "DIGITS = ''0123456789''"

definition VOWELS_LOWER :: string where
  "VOWELS_LOWER = ''aeiou''"

definition VOWELS_UPPER :: string where
  "VOWELS_UPPER = ''AEIOU''"

definition CONSONANTS_LOWER :: string where
  "CONSONANTS_LOWER = ''bcdfghjklmnpqrstvwxyz''"

definition CONSONANTS_UPPER :: string where
  "CONSONANTS_UPPER = ''BCDFGHJKLMNPQRSTVWXYZ''"

definition FORBIDDEN_TRAILING_CONSONANTS :: string where
  "FORBIDDEN_TRAILING_CONSONANTS = ''hzqjklm''"

definition WORD_STYLE_UPPERCASE_LEADING_POSITIONS :: "nat list" where
  "WORD_STYLE_UPPERCASE_LEADING_POSITIONS = [0, 6]"

definition WORD_STYLE_HYPHEN_POSITIONS :: "nat list" where
  "WORD_STYLE_HYPHEN_POSITIONS = [5, 6]"

definition SYLLABLE_LENGTH :: nat where
  "SYLLABLE_LENGTH = 3"

definition isFirstHalf :: "nat \<Rightarrow> bool" where
  "isFirstHalf index \<longleftrightarrow> index < CREDENTIAL_LENGTH div 2"

definition isLetterOnlyPosition :: "nat \<Rightarrow> CredentialStyleOptions \<Rightarrow> bool" where
  "isLetterOnlyPosition index options =
     (if lettersOnlyLastSix options \<and> \<not> isFirstHalf index then True
      else if lettersOnlyFirstSix options \<and> isFirstHalf index then True
      else False)"

definition isDigitOnlyPosition :: "nat \<Rightarrow> CredentialStyleOptions \<Rightarrow> bool" where
  "isDigitOnlyPosition index options =
     (if lettersOnlyLastSix options \<and> isFirstHalf index then True
      else if lettersOnlyFirstSix options \<and> \<not> isFirstHalf index then True
      else False)"

definition letterCharset :: "CredentialStyleOptions \<Rightarrow> string" where
  "letterCharset options =
     (if includeUppercase options then UPPERCASE else []) @
     (if includeLowercase options then LOWERCASE else [])"

definition charsetForPosition :: "nat \<Rightarrow> CredentialStyleOptions \<Rightarrow> string" where
  "charsetForPosition index options =
     (let letters = letterCharset options in
      if isLetterOnlyPosition index options then letters
      else if isDigitOnlyPosition index options then DIGITS
      else letters @ DIGITS)"

text \<open>An index into an empty string is \<open>undefined\<close>, which a template prints as text.\<close>

definition pickRandomChar :: "string \<Rightarrow> nat \<Rightarrow> char option" where
  "pickRandomChar charset randomByte =
     (if charset = [] then None else Some (charset ! (randomByte mod length charset)))"

definition interpolate :: "char option \<Rightarrow> string" where
  "interpolate c = (case c of None \<Rightarrow> ''undefined'' | Some x \<Rightarrow> [x])"

lemma interpolate_Some [simp]: "interpolate (Some c) = [c]"
  by (simp add: interpolate_def)

section \<open>Validation\<close>

datatype style_error =
    BothHalvesLettersOnly
  | WordStyleNeedsLetters
  | NoValidCredential

definition canUseWordStyle :: "CredentialStyleOptions \<Rightarrow> bool" where
  "canUseWordStyle options \<longleftrightarrow> includeUppercase options \<or> includeLowercase options"

definition validateCredentialStyle :: "CredentialStyleOptions \<Rightarrow> style_error option" where
  "validateCredentialStyle options =
     (if lettersOnlyFirstSix options \<and> lettersOnlyLastSix options
      then Some BothHalvesLettersOnly
      else if wordStyle options \<and> \<not> canUseWordStyle options then Some WordStyleNeedsLetters
      else if list_ex (\<lambda>index. charsetForPosition index options = []) [0..<CREDENTIAL_LENGTH]
      then Some NoValidCredential
      else if letterCharset options = [] \<and> \<not> allowAtMostOneHyphen options \<and>
        list_ex (\<lambda>index. isLetterOnlyPosition index options) [0..<CREDENTIAL_LENGTH]
      then Some NoValidCredential
      else None)"

section \<open>Word style\<close>

record WordStyleLayout =
  wordStart :: nat
  syllableCount :: nat
  digitPrefixLength :: nat
  digitSuffixLength :: nat

definition resolveWordStyleLayout :: "CredentialStyleOptions \<Rightarrow> WordStyleLayout" where
  "resolveWordStyleLayout options =
     (if lettersOnlyFirstSix options then
        \<lparr> wordStart = 0, syllableCount = 2, digitPrefixLength = 0,
          digitSuffixLength = CREDENTIAL_LENGTH div 2 \<rparr>
      else if lettersOnlyLastSix options then
        \<lparr> wordStart = CREDENTIAL_LENGTH div 2, syllableCount = 2,
          digitPrefixLength = CREDENTIAL_LENGTH div 2, digitSuffixLength = 0 \<rparr>
      else
        \<lparr> wordStart = 0, syllableCount = CREDENTIAL_LENGTH div SYLLABLE_LENGTH,
          digitPrefixLength = 0, digitSuffixLength = 0 \<rparr>)"

definition listConsonantSlots :: "WordStyleLayout \<Rightarrow> nat list" where
  "listConsonantSlots layout =
     concat (map (\<lambda>syllableIndex.
       let base = wordStart layout + syllableIndex * SYLLABLE_LENGTH in [base, base + 2])
       [0..<syllableCount layout])"

definition canLeadingConsonantBeUppercase :: "nat \<Rightarrow> bool" where
  "canLeadingConsonantBeUppercase baseIndex \<longleftrightarrow>
     List.member WORD_STYLE_UPPERCASE_LEADING_POSITIONS baseIndex"

definition shouldUseLeadingUppercase :: "CredentialStyleOptions \<Rightarrow> nat \<Rightarrow> bool" where
  "shouldUseLeadingUppercase options randomByte =
     (if includeUppercase options \<and> includeLowercase options then randomByte mod 2 = 1
      else includeUppercase options)"

definition pickConsonant :: "CredentialStyleOptions \<Rightarrow> bool \<Rightarrow> nat \<Rightarrow> char option" where
  "pickConsonant options uppercase randomByte =
     (if uppercase \<and> includeUppercase options then pickRandomChar CONSONANTS_UPPER randomByte
      else if includeLowercase options then pickRandomChar CONSONANTS_LOWER randomByte
      else pickRandomChar CONSONANTS_UPPER randomByte)"

definition buildTrailingConsonantCharset :: "string \<Rightarrow> string" where
  "buildTrailingConsonantCharset vowel =
     (let vowelLower = map lower_char vowel; allowY = vowelLower = ''a'';
          allowW = vowelLower = ''o'' in
      filter (\<lambda>char. \<not> List.member FORBIDDEN_TRAILING_CONSONANTS char
                \<and> \<not> (char = CHR ''y'' \<and> \<not> allowY) \<and> \<not> (char = CHR ''w'' \<and> \<not> allowW))
        CONSONANTS_LOWER)"

definition pickTrailingConsonant :: "string \<Rightarrow> nat \<Rightarrow> char option res" where
  "pickTrailingConsonant vowel randomByte =
     (let charset = buildTrailingConsonantCharset vowel in
      throw_if (charset = [])
        (ErrorObj (''no valid trailing consonant for vowel '' @ vowel))
        (Inr (pickRandomChar charset randomByte)))"

definition pickVowel :: "CredentialStyleOptions \<Rightarrow> bool \<Rightarrow> nat \<Rightarrow> char option" where
  "pickVowel options uppercase randomByte =
     (if uppercase \<and> includeUppercase options then pickRandomChar VOWELS_UPPER randomByte
      else if includeLowercase options then pickRandomChar VOWELS_LOWER randomByte
      else pickRandomChar VOWELS_UPPER randomByte)"

text \<open>\<open>randomBytes[offset] ?? 0\<close>, for the \<open>nextByte\<close> closures.\<close>

definition byte_at :: "bytes \<Rightarrow> nat \<Rightarrow> nat" where
  "byte_at bs i = (if i < length bs then bs ! i else 0)"

definition generateCvcSyllable ::
    "CredentialStyleOptions \<Rightarrow> nat \<Rightarrow> nat option \<Rightarrow> bytes \<Rightarrow> nat \<Rightarrow> (string \<times> nat) res" where
  "generateCvcSyllable options baseIndex hyphenIndex randomBytes randomOffset =
     (let can = canLeadingConsonantBeUppercase baseIndex;
          leadingWouldUpper =
            can \<and> shouldUseLeadingUppercase options (byte_at randomBytes randomOffset);
          offset = (if can then randomOffset + 1 else randomOffset);
          useHyphenAtLeading = hyphenIndex = Some baseIndex;
          useHyphenAtTrailing = hyphenIndex = Some (baseIndex + 2);
          leading = (if useHyphenAtLeading then ''-''
            else interpolate (pickConsonant options leadingWouldUpper
                   (byte_at randomBytes offset)));
          offset = (if useHyphenAtLeading then offset else offset + 1);
          vowelUpper = useHyphenAtLeading \<and> leadingWouldUpper;
          vowel = interpolate (pickVowel options vowelUpper (byte_at randomBytes offset));
          offset = offset + 1 in
      if useHyphenAtTrailing then Inr (leading @ vowel @ ''-'', offset)
      else rbind (pickTrailingConsonant vowel (byte_at randomBytes offset)) (\<lambda>trailing.
           Inr (leading @ vowel @ interpolate trailing, offset + 1)))"

definition listWordStyleHyphenSlots :: "WordStyleLayout \<Rightarrow> nat list" where
  "listWordStyleHyphenSlots layout =
     filter (List.member (listConsonantSlots layout)) WORD_STYLE_HYPHEN_POSITIONS"

text \<open>An \<open>undefined\<close> element is the empty string in \<open>join\<close>.\<close>

definition join_elem :: "char option \<Rightarrow> string" where
  "join_elem c = (case c of None \<Rightarrow> [] | Some x \<Rightarrow> [x])"

text \<open>The two loops that write digits; \<open>offset\<close> counts the bytes consumed.\<close>

fun fill_digits :: "bytes \<Rightarrow> nat list \<Rightarrow> string list \<times> nat \<Rightarrow> string list \<times> nat" where
  "fill_digits randomBytes [] (chars, offset) = (chars, offset)"
| "fill_digits randomBytes (index # rest) (chars, offset) =
     fill_digits randomBytes rest
       (chars[index := join_elem (pickRandomChar DIGITS (byte_at randomBytes offset))],
        offset + 1)"

text \<open>\<open>text[i]\<close>, \<open>undefined\<close> past the end.\<close>

definition char_at :: "string \<Rightarrow> nat \<Rightarrow> char option" where
  "char_at s i = (if i < length s then Some (s ! i) else None)"

fun fill_syllables ::
    "CredentialStyleOptions \<Rightarrow> nat \<Rightarrow> nat option \<Rightarrow> bytes \<Rightarrow> nat list \<Rightarrow> string list \<Rightarrow> nat \<Rightarrow>
     string list res" where
  "fill_syllables options start hyphenIndex randomBytes [] chars offset = Inr chars"
| "fill_syllables options start hyphenIndex randomBytes (syllableIndex # rest) chars offset =
     (let base = start + syllableIndex * SYLLABLE_LENGTH in
      rbind (generateCvcSyllable options base hyphenIndex randomBytes offset)
        (\<lambda>(text, nextOffset).
          fill_syllables options start hyphenIndex randomBytes rest
            (fold (\<lambda>index cs. cs[base + index := join_elem (char_at text index)])
               [0..<SYLLABLE_LENGTH] chars)
            nextOffset))"

definition word_hyphenIndex ::
    "CredentialStyleOptions \<Rightarrow> nat list \<Rightarrow> bytes \<Rightarrow> nat \<Rightarrow> nat option \<times> nat" where
  "word_hyphenIndex options hyphenSlots randomBytes offset =
     (if allowAtMostOneHyphen options \<and> hyphenSlots \<noteq> [] then
        if byte_at randomBytes offset mod 2 = 1 then
          (Some (hyphenSlots ! (byte_at randomBytes (offset + 1) mod length hyphenSlots)),
           offset + 2)
        else (None, offset + 1)
      else (None, offset))"

definition generateWordStyleCredential ::
    "(nat \<Rightarrow> bytes) \<Rightarrow> CredentialStyleOptions \<Rightarrow> string res" where
  "generateWordStyleCredential random options =
     (let layout = resolveWordStyleLayout options;
          chars = replicate CREDENTIAL_LENGTH [];
          randomBytes = random (CREDENTIAL_LENGTH * 4);
          (chars, offset) =
            fill_digits randomBytes [0..<digitPrefixLength layout] (chars, 0);
          digitSuffixStart = CREDENTIAL_LENGTH - digitSuffixLength layout;
          (chars, offset) =
            fill_digits randomBytes [digitSuffixStart..<CREDENTIAL_LENGTH] (chars, offset);
          hyphenSlots = listWordStyleHyphenSlots layout;
          (hyphenIndex, offset) = word_hyphenIndex options hyphenSlots randomBytes offset in
      rbind (fill_syllables options (wordStart layout) hyphenIndex randomBytes
              [0..<syllableCount layout] chars offset) (\<lambda>chars. Inr (concat chars)))"

section \<open>Random style\<close>

definition pickHyphenIndex :: "CredentialStyleOptions \<Rightarrow> nat \<Rightarrow> nat option" where
  "pickHyphenIndex options randomByte =
     (if \<not> allowAtMostOneHyphen options then None
      else if randomByte mod 2 = 0 then None
      else
        let validPositions =
          filter (\<lambda>index. \<not> isLetterOnlyPosition index options) [0..<CREDENTIAL_LENGTH] in
        if validPositions = [] then None
        else Some (validPositions ! (randomByte mod length validPositions)))"

definition generateRandomCredential ::
    "(nat \<Rightarrow> bytes) \<Rightarrow> CredentialStyleOptions \<Rightarrow> string" where
  "generateRandomCredential random options =
     (let randomBytes = random (CREDENTIAL_LENGTH + 1);
          hyphenIndex = pickHyphenIndex options (byte_at randomBytes 0) in
      concat (map (\<lambda>index.
        if Some index = hyphenIndex then ''-''
        else interpolate (pickRandomChar (charsetForPosition index options)
               (byte_at randomBytes (index + 1)))) [0..<CREDENTIAL_LENGTH]))"

section \<open>Entry points\<close>

text \<open>\<open>throw new Error(validationError)\<close> is \<open>Inl\<close> of the validation error.\<close>

datatype style_failure = InvalidStyle style_error | StyleThrow thrown

definition generateStyledCredential ::
    "(nat \<Rightarrow> bytes) \<Rightarrow> CredentialStyleOptions \<Rightarrow> style_failure + string" where
  "generateStyledCredential random options =
     (case validateCredentialStyle options of
        Some validationError \<Rightarrow> Inl (InvalidStyle validationError)
      | None \<Rightarrow>
          if wordStyle options then
            (case generateWordStyleCredential random options of
               Inl e \<Rightarrow> Inl (StyleThrow e) | Inr c \<Rightarrow> Inr c)
          else Inr (generateRandomCredential random options))"

definition generateCredential ::
    "(nat \<Rightarrow> bytes) \<Rightarrow> CredentialStyleOptions option \<Rightarrow> style_failure + string" where
  "generateCredential random options = generateStyledCredential random
     (case options of Some opts \<Rightarrow> opts | None \<Rightarrow> DEFAULT_CREDENTIAL_STYLE)"

datatype style_label =
    LUppercase | LLowercase | LWordStyle | LOneHyphen | LFirstSix | LLastSix

text \<open>The parts of the label; \<open>None\<close> is the text for an unset style.\<close>

definition formatCredentialStyleLabel ::
    "CredentialStyleOptions \<Rightarrow> style_label list option" where
  "formatCredentialStyleLabel options =
     (let parts =
        (if includeUppercase options then [LUppercase] else []) @
        (if includeLowercase options then [LLowercase] else []) @
        (if wordStyle options then [LWordStyle] else []) @
        (if allowAtMostOneHyphen options then [LOneHyphen] else []) @
        (if lettersOnlyFirstSix options then [LFirstSix] else []) @
        (if lettersOnlyLastSix options then [LLastSix] else []) in
      if parts \<noteq> [] then Some parts else None)"

section \<open>Characters of a credential\<close>

definition is_letter :: "char \<Rightarrow> bool" where
  "is_letter c \<longleftrightarrow> List.member (UPPERCASE @ LOWERCASE) c"

definition credential_char :: "char \<Rightarrow> bool" where
  "credential_char c \<longleftrightarrow> List.member (UPPERCASE @ LOWERCASE @ DIGITS @ ''-'') c"

text \<open>What a style promises for a position: the hyphen apart, the halves keep their kind.\<close>

definition position_ok :: "CredentialStyleOptions \<Rightarrow> nat \<Rightarrow> char \<Rightarrow> bool" where
  "position_ok options index c \<longleftrightarrow> c = CHR ''-'' \<or>
     (if isLetterOnlyPosition index options then is_letter c
      else if isDigitOnlyPosition index options then List.member DIGITS c
      else is_letter c \<or> List.member DIGITS c)"

named_theorems style_simps \<open>unfolding of the style options\<close>

lemma position_simps [style_simps]:
  "isLetterOnlyPosition i options \<longleftrightarrow>
     lettersOnlyLastSix options \<and> 6 \<le> i \<or> lettersOnlyFirstSix options \<and> i < 6"
  "isDigitOnlyPosition i options \<longleftrightarrow>
     lettersOnlyLastSix options \<and> i < 6 \<or> lettersOnlyFirstSix options \<and> 6 \<le> i"
  by (auto simp: isLetterOnlyPosition_def isDigitOnlyPosition_def isFirstHalf_def
        CREDENTIAL_LENGTH_def)

lemma letterCharset_empty: "letterCharset options = [] \<longleftrightarrow> \<not> canUseWordStyle options"
  by (simp add: letterCharset_def canUseWordStyle_def UPPERCASE_def LOWERCASE_def)

lemma letterCharset_letter: "c \<in> set (letterCharset options) \<Longrightarrow> is_letter c"
  by (auto simp: letterCharset_def is_letter_def split: if_splits)

lemma DIGITS_nonempty [simp]: "DIGITS \<noteq> []"
  by (simp add: DIGITS_def)

lemma twelve_positions: "[0..<CREDENTIAL_LENGTH] = [0, 1, 2, 3, 4, 5, 6, 7, 8, 9, 10, 11]"
  by code_simp

lemma validateCredentialStyle_None:
  "validateCredentialStyle options = None \<longleftrightarrow>
     \<not> (lettersOnlyFirstSix options \<and> lettersOnlyLastSix options) \<and>
     (canUseWordStyle options \<or>
        \<not> wordStyle options \<and> \<not> lettersOnlyFirstSix options \<and> \<not> lettersOnlyLastSix options)"
  unfolding validateCredentialStyle_def twelve_positions
  by (auto simp: charsetForPosition_def position_simps letterCharset_empty Let_def)

lemma pickRandomChar_in:
  "charset \<noteq> [] \<Longrightarrow> \<exists>c. pickRandomChar charset b = Some c \<and> c \<in> set charset"
  by (auto simp: pickRandomChar_def)

lemma pickDigit: "\<exists>d. pickRandomChar DIGITS b = Some d \<and> List.member DIGITS d"
  using pickRandomChar_in[OF DIGITS_nonempty] by auto

lemma not_hyphen:
  "is_letter c \<Longrightarrow> c \<noteq> CHR ''-''" "List.member DIGITS c \<Longrightarrow> c \<noteq> CHR ''-''"
  by (auto simp: is_letter_def UPPERCASE_def LOWERCASE_def DIGITS_def)

lemma position_ok_hyphen: "position_ok options i (CHR ''-'')"
  by (simp add: position_ok_def)

lemma position_ok_credential_char: "position_ok options i c \<Longrightarrow> credential_char c"
  by (auto simp: position_ok_def credential_char_def is_letter_def split: if_splits)

section \<open>Syllables\<close>

lemma pick_letter:
  assumes "set charset \<subseteq> {c. is_letter c}" "charset \<noteq> []"
  shows "\<exists>c. interpolate (pickRandomChar charset b) = [c] \<and> is_letter c \<and> c \<in> set charset"
  using pickRandomChar_in[OF assms(2), of b] assms(1) by (auto simp: interpolate_def)

lemma consonant_sets:
  "set CONSONANTS_LOWER \<subseteq> {c. is_letter c}" "set CONSONANTS_UPPER \<subseteq> {c. is_letter c}"
  "set VOWELS_LOWER \<subseteq> {c. is_letter c}" "set VOWELS_UPPER \<subseteq> {c. is_letter c}"
  "CONSONANTS_LOWER \<noteq> []" "CONSONANTS_UPPER \<noteq> []" "VOWELS_LOWER \<noteq> []" "VOWELS_UPPER \<noteq> []"
  by (auto simp: CONSONANTS_LOWER_def CONSONANTS_UPPER_def VOWELS_LOWER_def VOWELS_UPPER_def
        is_letter_def UPPERCASE_def LOWERCASE_def)

lemma pickConsonant_letter:
  "\<exists>c. interpolate (pickConsonant options u b) = [c] \<and> is_letter c"
  unfolding pickConsonant_def
  using pick_letter[OF consonant_sets(1,5)] pick_letter[OF consonant_sets(2,6)] by auto

lemma pickVowel_letter:
  "\<exists>c. interpolate (pickVowel options u b) = [c] \<and> is_letter c"
  unfolding pickVowel_def
  using pick_letter[OF consonant_sets(3,7)] pick_letter[OF consonant_sets(4,8)] by auto

lemma trailing_charset:
  "set (buildTrailingConsonantCharset v) \<subseteq> {c. is_letter c}"
  "CHR ''b'' \<in> set (buildTrailingConsonantCharset v)"
  using consonant_sets(1)
  by (auto simp: buildTrailingConsonantCharset_def Let_def CONSONANTS_LOWER_def
        FORBIDDEN_TRAILING_CONSONANTS_def)

lemma pickTrailingConsonant_letter:
  "\<exists>c. pickTrailingConsonant v b = Inr (Some c) \<and> is_letter c \<and> c \<in> set (buildTrailingConsonantCharset v)"
proof -
  have ne: "buildTrailingConsonantCharset v \<noteq> []" using trailing_charset(2)[of v] by auto
  obtain c where "pickRandomChar (buildTrailingConsonantCharset v) b = Some c"
      "c \<in> set (buildTrailingConsonantCharset v)"
    using pickRandomChar_in[OF ne, of b] by blast
  with trailing_charset(1)[of v] ne show ?thesis
    by (auto simp: pickTrailingConsonant_def Let_def)
qed

text \<open>
  A syllable has three characters, letters except where the hyphen was asked for. The trailing
  consonant is lower case whatever the options say: a word-style credential asked for with
  upper case letters only still ends its syllables in lower case.
\<close>

lemma generateCvcSyllable_spec:
  "\<exists>l v t off. generateCvcSyllable options base h bs offset = Inr ([l, v, t], off) \<and>
     (if h = Some base then l = CHR ''-'' else is_letter l) \<and> is_letter v \<and>
     (if h = Some (base + 2) then t = CHR ''-'' else is_letter t) \<and>
     (h \<noteq> Some (base + 2) \<longrightarrow> t \<in> set LOWERCASE)"
proof -
  have low: "set (buildTrailingConsonantCharset v) \<subseteq> set LOWERCASE" for v
  proof -
    have "set CONSONANTS_LOWER \<subseteq> set LOWERCASE" by (simp add: CONSONANTS_LOWER_def LOWERCASE_def)
    then show ?thesis by (auto simp: buildTrailingConsonantCharset_def Let_def)
  qed
  let ?can = "canLeadingConsonantBeUppercase base"
  let ?up = "?can \<and> shouldUseLeadingUppercase options (byte_at bs offset)"
  let ?o1 = "if ?can then offset + 1 else offset"
  let ?o2 = "if h = Some base then ?o1 else ?o1 + 1"
  obtain c where c: "interpolate (pickConsonant options ?up (byte_at bs ?o1)) = [c]" "is_letter c"
    using pickConsonant_letter by blast
  obtain v where v: "interpolate (pickVowel options (h = Some base \<and> ?up) (byte_at bs ?o2)) = [v]"
      "is_letter v"
    using pickVowel_letter by blast
  obtain t where t: "pickTrailingConsonant [v] (byte_at bs (?o2 + 1)) = Inr (Some t)" "is_letter t"
      "t \<in> set LOWERCASE"
    using pickTrailingConsonant_letter low by blast
  show ?thesis
    using c v t by (auto simp: generateCvcSyllable_def Let_def interpolate_def)
qed

lemma fill_syllables_step:
  assumes "generateCvcSyllable options (start + 3 * i) h bs offset = Inr ([l, v, t], off)"
  shows "fill_syllables options start h bs (i # rest) chars offset =
    fill_syllables options start h bs rest
      (chars[start + 3 * i := [l], start + 3 * i + 1 := [v], start + 3 * i + 2 := [t]]) off"
proof -
  have "[0..<SYLLABLE_LENGTH] = [0, 1, 2]" by code_simp
  then show ?thesis
    using assms by (simp add: SYLLABLE_LENGTH_def mult.commute join_elem_def char_at_def Let_def)
qed

text \<open>
  The characters written by consecutive syllables: a list of singletons of which the one at
  the hyphen index, if it is the first or last of its syllable, is the hyphen.
\<close>

definition syllable_chars :: "nat option \<Rightarrow> nat \<Rightarrow> string \<Rightarrow> bool" where
  "syllable_chars h start cs \<longleftrightarrow> (\<forall>i<length cs.
     if h = Some (start + i) \<and> i mod 3 \<noteq> 1 then cs ! i = CHR ''-'' else is_letter (cs ! i))"

lemma syllable_chars_Nil [simp]: "syllable_chars h start []"
  by (simp add: syllable_chars_def)

lemma syllable_chars_cons:
  assumes "if h = Some start then l = CHR ''-'' else is_letter l" "is_letter v"
    "if h = Some (start + 2) then t = CHR ''-'' else is_letter t"
    "syllable_chars h (start + 3) cs"
  shows "syllable_chars h start (l # v # t # cs)"
proof -
  have "if h = Some (start + i) \<and> i mod 3 \<noteq> 1 then (l # v # t # cs) ! i = CHR ''-''
        else is_letter ((l # v # t # cs) ! i)" if i: "i < length (l # v # t # cs)" for i
  proof -
    consider "i = 0" | "i = 1" | "i = 2" | j where "i = j + 3"
    proof -
      have "i = 0 \<or> i = 1 \<or> i = 2 \<or> i = (i - 3) + 3" by arith
      then show thesis using that by blast
    qed
    then show ?thesis
    proof cases
      case 4
      with i assms(4) have "j < length cs" by simp
      with assms(4) have "if h = Some (start + 3 + j) \<and> j mod 3 \<noteq> 1 then cs ! j = CHR ''-''
          else is_letter (cs ! j)"
        unfolding syllable_chars_def by blast
      moreover have "(l # v # t # cs) ! (j + 3) = cs ! j" by (simp add: eval_nat_numeral)
      moreover have "(j + 3) mod 3 = j mod 3" by simp
      moreover have "start + (j + 3) = start + 3 + j" by simp
      ultimately show ?thesis unfolding 4 by metis
    qed (use assms in simp_all)
  qed
  then show ?thesis unfolding syllable_chars_def by blast
qed

lemma fill_syllables_spec:
  "length pre = start + 3 * i \<Longrightarrow>
   \<exists>cs. length cs = 3 * n \<and> syllable_chars h (start + 3 * i) cs \<and>
     fill_syllables options start h bs [i..<i + n] (pre @ replicate (3 * n) [] @ post) offset
       = Inr (pre @ map (\<lambda>c. [c]) cs @ post)"
proof (induction n arbitrary: i pre offset)
  case 0
  then show ?case by simp
next
  case (Suc n)
  obtain l v t off where syl:
      "generateCvcSyllable options (start + 3 * i) h bs offset = Inr ([l, v, t], off)"
      "if h = Some (start + 3 * i) then l = CHR ''-'' else is_letter l" "is_letter v"
      "if h = Some (start + 3 * i + 2) then t = CHR ''-'' else is_letter t"
    using generateCvcSyllable_spec by blast
  let ?pre = "pre @ [[l], [v], [t]]"
  have upt: "[i..<i + Suc n] = i # [Suc i..<Suc i + n]" by (simp add: upt_rec)
  have upd: "(pre @ replicate (3 * Suc n) [] @ post)[start + 3 * i := [l],
        start + 3 * i + 1 := [v], start + 3 * i + 2 := [t]] = ?pre @ replicate (3 * n) [] @ post"
    using Suc.prems by (simp add: list_update_append eval_nat_numeral)
  obtain cs where cs: "length cs = 3 * n" "syllable_chars h (start + 3 * Suc i) cs"
      "fill_syllables options start h bs [Suc i..<Suc i + n] (?pre @ replicate (3 * n) [] @ post) off
         = Inr (?pre @ map (\<lambda>c. [c]) cs @ post)"
    using Suc.IH[of ?pre "Suc i" off] Suc.prems by auto
  have "syllable_chars h (start + 3 * i) (l # v # t # cs)"
    using syl cs(2) by (intro syllable_chars_cons) (simp_all add: algebra_simps)
  then show ?case
    using cs(1,3) by (intro exI[of _ "l # v # t # cs"])
      (simp only: upt fill_syllables_step[OF syl(1)] upd, simp)
qed

section \<open>The digits of a word-style credential and its hyphen\<close>

lemma fill_digits_spec:
  "length pre = i \<Longrightarrow>
   \<exists>ds. length ds = n \<and> set ds \<subseteq> set DIGITS \<and>
     fill_digits bs [i..<i + n] (pre @ replicate n [] @ post, offset)
       = (pre @ map (\<lambda>c. [c]) ds @ post, offset + n)"
proof (induction n arbitrary: i pre offset)
  case 0
  then show ?case by simp
next
  case (Suc n)
  obtain d where d: "pickRandomChar DIGITS (byte_at bs offset) = Some d" "List.member DIGITS d"
    using pickDigit by blast
  have upt: "[i..<Suc (i + n)] = i # [Suc i..<Suc (i + n)]" by (simp add: upt_rec)
  obtain ds where "length ds = n" "set ds \<subseteq> set DIGITS"
      "fill_digits bs [Suc i..<Suc i + n] ((pre @ [[d]]) @ replicate n [] @ post, Suc offset)
        = ((pre @ [[d]]) @ map (\<lambda>c. [c]) ds @ post, Suc offset + n)"
    using Suc.IH[of "pre @ [[d]]" "Suc i" "Suc offset"] Suc.prems
    by (auto simp del: upt_Suc)
  then show ?case
    using d Suc.prems by (intro exI[of _ "d # ds"])
      (simp add: upt join_elem_def list_update_append del: upt_Suc)
qed

lemma concat_singletons [simp]: "concat (map (\<lambda>c. [c]) cs) = cs"
  by (induction cs) simp_all

text \<open>At most one hyphen in a list that has it only at one index.\<close>

lemma count_hyphen_le:
  assumes "\<And>i. i < length cs \<Longrightarrow> cs ! i = x \<Longrightarrow> i = k"
  shows "count_list cs x \<le> 1"
proof -
  have "{i. i < length cs \<and> cs ! i = x} \<subseteq> {k}" using assms by blast
  then have "card {i. i < length cs \<and> cs ! i = x} \<le> 1"
    using card_mono[of "{k}"] by fastforce
  moreover have "count_list cs x = card {i. i < length cs \<and> cs ! i = x}"
    by (simp add: count_list_eq_length_filter length_filter_conv_card eq_commute)
  ultimately show ?thesis by simp
qed

lemma count_hyphen_zero:
  "(\<And>i. i < length cs \<Longrightarrow> cs ! i \<noteq> x) \<Longrightarrow> count_list cs x = 0"
  by (metis count_notin in_set_conv_nth)

text \<open>What a well-formed credential of a style is; the two generators meet it.\<close>

definition credential_wf :: "CredentialStyleOptions \<Rightarrow> string \<Rightarrow> bool" where
  "credential_wf options c \<longleftrightarrow> length c = CREDENTIAL_LENGTH \<and>
     list_all (\<lambda>i. position_ok options i (c ! i)) [0..<CREDENTIAL_LENGTH] \<and>
     count_list c (CHR ''-'') \<le> (if allowAtMostOneHyphen options then 1 else 0)"

lemma credential_wfI:
  assumes "length c = 12" "\<And>i. i < 12 \<Longrightarrow> position_ok options i (c ! i)"
    "\<And>i. i < 12 \<Longrightarrow> c ! i = CHR ''-'' \<Longrightarrow> h = Some i"
    "h \<noteq> None \<Longrightarrow> allowAtMostOneHyphen options"
  shows "credential_wf options c"
proof -
  have "count_list c (CHR ''-'') \<le> (if allowAtMostOneHyphen options then 1 else 0)"
  proof (cases h)
    case None
    then have "count_list c (CHR ''-'') = 0" using assms(1,3) by (intro count_hyphen_zero) auto
    then show ?thesis by simp
  next
    case (Some k)
    then have "count_list c (CHR ''-'') \<le> 1"
      using assms(1,3) by (intro count_hyphen_le[of _ _ k]) auto
    with Some assms(4) show ?thesis by simp
  qed
  with assms(1,2) show ?thesis
    by (simp add: credential_wf_def CREDENTIAL_LENGTH_def list_all_iff)
qed

lemma word_hyphenIndex_cases:
  assumes "word_hyphenIndex options slots bs off = (h, off')"
  shows "h = None \<or> (\<exists>k\<in>set slots. h = Some k) \<and> allowAtMostOneHyphen options"
  using assms by (auto simp: word_hyphenIndex_def split: if_splits)

lemma syllable_chars_nth:
  assumes "syllable_chars h start cs" "i < length cs"
  shows "cs ! i = CHR ''-'' \<or> is_letter (cs ! i)"
    "cs ! i = CHR ''-'' \<Longrightarrow> h = Some (start + i)"
  using assms not_hyphen(1) unfolding syllable_chars_def by metis+

lemma word_layouts:
  assumes "\<not> (lettersOnlyFirstSix options \<and> lettersOnlyLastSix options)"
  obtains (first) "lettersOnlyFirstSix options" "\<not> lettersOnlyLastSix options"
      "resolveWordStyleLayout options = \<lparr> wordStart = 0, syllableCount = 2, digitPrefixLength = 0,
         digitSuffixLength = 6 \<rparr>"
  | (last) "lettersOnlyLastSix options" "\<not> lettersOnlyFirstSix options"
      "resolveWordStyleLayout options = \<lparr> wordStart = 6, syllableCount = 2, digitPrefixLength = 6,
         digitSuffixLength = 0 \<rparr>"
  | (whole) "\<not> lettersOnlyLastSix options" "\<not> lettersOnlyFirstSix options"
      "resolveWordStyleLayout options = \<lparr> wordStart = 0, syllableCount = 4, digitPrefixLength = 0,
         digitSuffixLength = 0 \<rparr>"
  using assms by (auto simp: resolveWordStyleLayout_def CREDENTIAL_LENGTH_def SYLLABLE_LENGTH_def)

lemma word_result:
  assumes "length ds1 = p" "length ds2 = 12 - p - length cs" "p + length cs \<le> 12"
    "set ds1 \<subseteq> set DIGITS" "set ds2 \<subseteq> set DIGITS"
    "syllable_chars h p cs"
    "\<And>i. i < p \<Longrightarrow> isDigitOnlyPosition i options \<and> \<not> isLetterOnlyPosition i options"
    "\<And>i. p + length cs \<le> i \<Longrightarrow> i < 12 \<Longrightarrow>
       isDigitOnlyPosition i options \<and> \<not> isLetterOnlyPosition i options"
    "\<And>i. p \<le> i \<Longrightarrow> i < p + length cs \<Longrightarrow> \<not> isDigitOnlyPosition i options"
    "h \<noteq> None \<Longrightarrow> allowAtMostOneHyphen options"
  shows "credential_wf options (ds1 @ cs @ ds2)"
proof (rule credential_wfI[where h = h])
  let ?c = "ds1 @ cs @ ds2"
  have digit1: "List.member DIGITS (?c ! i)" if "i < p" for i
    using that assms(1) subsetD[OF assms(4) nth_mem, of i] by (simp add: nth_append)
  have digit2: "List.member DIGITS (?c ! i)" if "p + length cs \<le> i" "i < 12" for i
  proof -
    have "\<not> i < p" "\<not> i - p < length cs" using that by simp_all
    then have "?c ! i = ds2 ! (i - p - length cs)" using assms(1) by (simp add: nth_append)
    moreover have "i - p - length cs < length ds2" using that assms(2) by simp
    ultimately show ?thesis using subsetD[OF assms(5) nth_mem] by simp
  qed
  have mid: "?c ! i = cs ! (i - p) \<and> i - p < length cs" if "p \<le> i" "i < p + length cs" for i
  proof -
    have "\<not> i < p" "i - p < length cs" using that by simp_all
    then show ?thesis using assms(1) by (simp add: nth_append)
  qed
  show "length ?c = 12" using assms(1-3) by simp
  fix i :: nat
  assume i: "i < 12"
  consider "i < p" | "p \<le> i" "i < p + length cs" | "p + length cs \<le> i" by linarith
  then show "position_ok options i (?c ! i)"
  proof cases
    case 2
    with mid[of i] assms(9)[of i] syllable_chars_nth(1)[OF assms(6), of "i - p"]
    show ?thesis by (auto simp: position_ok_def)
  qed (use digit1[of i] digit2[of i] assms(7,8)[of i] i in \<open>auto simp: position_ok_def\<close>)
  assume hy: "?c ! i = CHR ''-''"
  then have "\<not> i < p" "\<not> p + length cs \<le> i"
    using digit1[of i] digit2[of i] i not_hyphen(2) by metis+
  then have "p \<le> i" "i < p + length cs" by simp_all
  with mid[of i] hy syllable_chars_nth(2)[OF assms(6), of "i - p"]
  show "h = Some i" by simp
qed (use assms in auto)

lemma generateWordStyleCredential_eq:
  assumes "resolveWordStyleLayout options = \<lparr> wordStart = st, syllableCount = n,
      digitPrefixLength = p, digitSuffixLength = q \<rparr>"
    "word_hyphenIndex options (listWordStyleHyphenSlots (resolveWordStyleLayout options))
       (random (CREDENTIAL_LENGTH * 4)) o2 = (h, o3)"
    "fill_digits (random (CREDENTIAL_LENGTH * 4)) [0..<p] (replicate 12 [], 0) = (c1, o1)"
    "fill_digits (random (CREDENTIAL_LENGTH * 4)) [12 - q..<12] (c1, o1) = (c2, o2)"
    "fill_syllables options st h (random (CREDENTIAL_LENGTH * 4)) [0..<n] c2 o3 = Inr c3"
  shows "generateWordStyleCredential random options = Inr (concat c3)"
  using assms
  by (simp add: generateWordStyleCredential_def CREDENTIAL_LENGTH_def Let_def
        del: fill_syllables.simps fill_digits.simps)

lemma generateWordStyleCredential_wf:
  assumes "\<not> (lettersOnlyFirstSix options \<and> lettersOnlyLastSix options)"
  shows "\<exists>c. generateWordStyleCredential random options = Inr c \<and> credential_wf options c"
proof -
  let ?bs = "random (CREDENTIAL_LENGTH * 4)"
  from assms show ?thesis
  proof (cases rule: word_layouts)
    case first
    obtain ds where ds: "length ds = 6" "set ds \<subseteq> set DIGITS"
        "fill_digits ?bs [6..<12] (replicate 12 [], 0) = (replicate 6 [] @ map (\<lambda>c. [c]) ds, 6)"
      using fill_digits_spec[of "replicate 6 []" 6 6 ?bs "[]" 0]
      by (auto simp flip: replicate_add simp del: fill_digits.simps)
    obtain h off where h: "word_hyphenIndex options
        (listWordStyleHyphenSlots (resolveWordStyleLayout options)) ?bs 6 = (h, off)" by fastforce
    obtain cs where cs: "length cs = 6" "syllable_chars h 0 cs"
        "fill_syllables options 0 h ?bs [0..<2] (replicate 6 [] @ map (\<lambda>c. [c]) ds) off
           = Inr (map (\<lambda>c. [c]) cs @ map (\<lambda>c. [c]) ds)"
      using fill_syllables_spec[of "[]" 0 0 2 h options ?bs "map (\<lambda>c. [c]) ds" off]
      by (auto simp del: fill_syllables.simps add_2_eq_Suc add_2_eq_Suc' upt_Suc)
    have "credential_wf options ([] @ cs @ ds)"
      using ds cs first word_hyphenIndex_cases[OF h]
      by (intro word_result[where p = 0 and h = h]) (auto simp: position_simps)
    moreover have "generateWordStyleCredential random options = Inr (cs @ ds)"
      using ds(3) generateWordStyleCredential_eq[where random = random, OF first(3) h, of "replicate 12 []" 0 "replicate 6 [] @ map (\<lambda>c. [c]) ds"] cs(3)
      by simp
    ultimately show ?thesis by auto
  next
    case last
    obtain ds where ds: "length ds = 6" "set ds \<subseteq> set DIGITS"
        "fill_digits ?bs [0..<6] (replicate 12 [], 0) = (map (\<lambda>c. [c]) ds @ replicate 6 [], 6)"
      using fill_digits_spec[of "[]" 0 6 ?bs "replicate 6 []" 0]
      by (auto simp flip: replicate_add)
    obtain h off where h: "word_hyphenIndex options
        (listWordStyleHyphenSlots (resolveWordStyleLayout options)) ?bs 6 = (h, off)" by fastforce
    obtain cs where cs: "length cs = 6" "syllable_chars h 6 cs"
        "fill_syllables options 6 h ?bs [0..<2] (map (\<lambda>c. [c]) ds @ replicate 6 []) off
           = Inr (map (\<lambda>c. [c]) ds @ map (\<lambda>c. [c]) cs)"
      using fill_syllables_spec[of "map (\<lambda>c. [c]) ds" 6 0 2 h options ?bs "[]" off] ds(1)
      by (auto simp del: fill_syllables.simps add_2_eq_Suc add_2_eq_Suc' upt_Suc)
    have "credential_wf options (ds @ cs @ [])"
      using ds cs last word_hyphenIndex_cases[OF h]
      by (intro word_result[where p = 6 and h = h]) (auto simp: position_simps)
    moreover have "generateWordStyleCredential random options = Inr (ds @ cs)"
      using ds(3) generateWordStyleCredential_eq[where random = random, OF last(3) h, of "map (\<lambda>c. [c]) ds @ replicate 6 []" 6 "map (\<lambda>c. [c]) ds @ replicate 6 []"] cs(3)
      by simp
    ultimately show ?thesis by auto
  next
    case whole
    obtain h off where h: "word_hyphenIndex options
        (listWordStyleHyphenSlots (resolveWordStyleLayout options)) ?bs 0 = (h, off)" by fastforce
    obtain cs where cs: "length cs = 12" "syllable_chars h 0 cs"
        "fill_syllables options 0 h ?bs [0..<4] (replicate 12 []) off = Inr (map (\<lambda>c. [c]) cs)"
      using fill_syllables_spec[of "[]" 0 0 4 h options ?bs "[]" off]
      by (auto simp del: fill_syllables.simps add_2_eq_Suc add_2_eq_Suc' upt_Suc)
    have "credential_wf options ([] @ cs @ [])"
      using cs whole word_hyphenIndex_cases[OF h]
      by (intro word_result[where p = 0 and h = h]) (auto simp: position_simps)
    moreover have "generateWordStyleCredential random options = Inr cs"
      using generateWordStyleCredential_eq[where random = random, OF whole(3) h, of "replicate 12 []" 0 "replicate 12 []"] cs(3)
      by simp
    ultimately show ?thesis by auto
  qed
qed

section \<open>The random style\<close>

lemma concat_nth_singletons:
  "concat (map (\<lambda>i. [f i]) xs) = map f xs"
  by (induction xs) simp_all

lemma pickHyphenIndex_Some:
  "pickHyphenIndex options b = Some k \<Longrightarrow>
     allowAtMostOneHyphen options \<and> k < 12 \<and> \<not> isLetterOnlyPosition k options"
proof -
  assume pick: "pickHyphenIndex options b = Some k"
  let ?vs = "filter (\<lambda>index. \<not> isLetterOnlyPosition index options) [0..<CREDENTIAL_LENGTH]"
  from pick have "allowAtMostOneHyphen options" "?vs \<noteq> []" "k = ?vs ! (b mod length ?vs)"
    by (simp_all add: pickHyphenIndex_def Let_def split: if_splits)
  moreover from this have "k \<in> set ?vs" by (metis length_greater_0_conv mod_less_divisor nth_mem)
  ultimately show ?thesis by (simp add: CREDENTIAL_LENGTH_def)
qed

lemma charsetForPosition_ok:
  assumes "validateCredentialStyle options = None"
  shows "charsetForPosition i options \<noteq> []"
    "c \<in> set (charsetForPosition i options) \<Longrightarrow> position_ok options i c \<and> c \<noteq> CHR ''-''"
proof -
  show "charsetForPosition i options \<noteq> []"
    using assms unfolding validateCredentialStyle_None
    by (auto simp: charsetForPosition_def position_simps letterCharset_empty Let_def)
  show "c \<in> set (charsetForPosition i options) \<Longrightarrow> position_ok options i c \<and> c \<noteq> CHR ''-''"
    using letterCharset_letter[of c options] not_hyphen[of c]
    by (auto simp: charsetForPosition_def position_ok_def Let_def split: if_splits)
qed

lemma generateRandomCredential_wf:
  assumes valid: "validateCredentialStyle options = None"
  shows "credential_wf options (generateRandomCredential random options)"
proof -
  let ?bs = "random (CREDENTIAL_LENGTH + 1)"
  let ?h = "pickHyphenIndex options (byte_at ?bs 0)"
  define ch where "ch i = (if Some i = ?h then CHR ''-'' else
      the (pickRandomChar (charsetForPosition i options) (byte_at ?bs (i + 1))))" for i
  have ch: "(if Some i = ?h then ''-'' else interpolate (pickRandomChar (charsetForPosition i options)
      (byte_at ?bs (i + 1)))) = [ch i]" for i
    using pickRandomChar_in[OF charsetForPosition_ok(1)[OF valid], of i "byte_at ?bs (i + 1)"]
    by (auto simp: ch_def interpolate_def)
  have "generateRandomCredential random options = map ch [0..<CREDENTIAL_LENGTH]"
    by (simp only: generateRandomCredential_def Let_def ch concat_nth_singletons)
  then have eq: "generateRandomCredential random options = map ch [0..<12]"
    by (simp add: CREDENTIAL_LENGTH_def)
  have other: "position_ok options i (ch i) \<and> ch i \<noteq> CHR ''-''" if "Some i \<noteq> ?h" for i
    using that pickRandomChar_in[OF charsetForPosition_ok(1)[OF valid], of i "byte_at ?bs (i + 1)"]
      charsetForPosition_ok(2)[OF valid, of _ i] by (auto simp: ch_def)
  show ?thesis unfolding eq
  proof (rule credential_wfI[where h = ?h])
    fix i :: nat
    assume i: "i < 12"
    have hyphen: "ch i = CHR ''-''" if "Some i = ?h" using that by (simp add: ch_def)
    show "position_ok options i (map ch [0..<12] ! i)"
      using other[of i] hyphen i position_ok_hyphen by (cases "Some i = ?h") simp_all
    show "map ch [0..<12] ! i = CHR ''-'' \<Longrightarrow> ?h = Some i"
      using other[of i] i by (cases "Some i = ?h") simp_all
  qed (use pickHyphenIndex_Some in auto)
qed

lemma credential_wf_chars:
  assumes "credential_wf options c"
  shows "list_all credential_char c"
proof -
  have "credential_char (c ! i)" if "i < length c" for i
  proof -
    have "position_ok options i (c ! i)"
      using assms that by (simp add: credential_wf_def list_all_iff)
    then show ?thesis by (rule position_ok_credential_char)
  qed
  then show ?thesis by (simp add: list_all_length)
qed

section \<open>Properties\<close>

definition style_satisfiable :: "CredentialStyleOptions \<Rightarrow> bool" where
  "style_satisfiable options \<longleftrightarrow>
     \<not> (lettersOnlyFirstSix options \<and> lettersOnlyLastSix options) \<and>
     (includeUppercase options \<or> includeLowercase options \<or>
        \<not> wordStyle options \<and> \<not> lettersOnlyFirstSix options \<and> \<not> lettersOnlyLastSix options)"

lemma validate_satisfiable: "validateCredentialStyle options = None \<longleftrightarrow> style_satisfiable options"
  by (auto simp: validateCredentialStyle_None style_satisfiable_def canUseWordStyle_def)


end
