(* ===== verification/Link.thy ===== *)
theory Link
  imports Credential Resilience
begin

text \<open>
  How a credential travels through the web client: the shared link (\<open>web/src/qr-share-link.ts\<close>),
  the twelve input boxes of the receive page (\<open>receive-credential-input.ts\<close>) and the twelve
  display slots of the send page (\<open>credential-slots.ts\<close>). \<open>new URL\<close> is the argument \<open>parse_url\<close>;
  \<open>URLSearchParams\<close> is written out. Percent-decoded bytes above 127 are kept as they are: no
  check of the source tells characters above ASCII apart.
\<close>

section \<open>URLs and form encoding\<close>

record url =
  protocol :: string
  username :: string
  password :: string
  hostname :: string
  port :: string
  pathname :: string
  search :: string
  url_hash :: string

text \<open>\<open>url.toString()\<close>.\<close>

definition href :: "url \<Rightarrow> string" where
  "href u = protocol u @ ''//'' @
     (if username u \<noteq> [] \<or> password u \<noteq> []
      then username u @ (if password u \<noteq> [] then CHR '':'' # password u else []) @ ''@'' else []) @
     hostname u @ (if port u \<noteq> [] then CHR '':'' # port u else []) @
     pathname u @ search u @ url_hash u"

definition form_safe :: "char \<Rightarrow> bool" where
  "form_safe c \<longleftrightarrow> is_letter c \<or> List.member DIGITS c \<or> List.member ''*-._'' c"

definition hex_digit :: "nat \<Rightarrow> char" where
  "hex_digit n = ''0123456789ABCDEF'' ! n"

definition percent_byte :: "nat \<Rightarrow> string" where
  "percent_byte b = [CHR ''%'', hex_digit (b div 16), hex_digit (b mod 16)]"

definition form_char :: "char \<Rightarrow> string" where
  "form_char c = (let n = of_char c :: nat in
     if form_safe c then [c]
     else if c = CHR '' '' then ''+''
     else if n < 128 then percent_byte n
     else percent_byte (192 + n div 64) @ percent_byte (128 + n mod 64))"

definition form_encode :: "(string \<times> string) list \<Rightarrow> string" where
  "form_encode ps = join ''&'' (map (\<lambda>(k, v). concat (map form_char k) @ ''='' @ concat (map form_char v)) ps)"

fun split_on :: "char \<Rightarrow> string \<Rightarrow> string list" where
  "split_on sep [] = [[]]"
| "split_on sep (c # s) =
     (if c = sep then [] # split_on sep s
      else case split_on sep s of [] \<Rightarrow> [[c]] | w # ws \<Rightarrow> (c # w) # ws)"

definition hex_value :: "char \<Rightarrow> nat option" where
  "hex_value c = (let n = of_char c :: nat in
     if 48 \<le> n \<and> n \<le> 57 then Some (n - 48)
     else if 65 \<le> n \<and> n \<le> 70 then Some (n - 55)
     else if 97 \<le> n \<and> n \<le> 102 then Some (n - 87)
     else None)"

fun percent_decode :: "string \<Rightarrow> string" where
  "percent_decode [] = []"
| "percent_decode [a] = [a]"
| "percent_decode [a, b] = [a, b]"
| "percent_decode (a # b # c # s) =
     (if a = CHR ''%'' then
        case (hex_value b, hex_value c) of
          (Some h, Some l) \<Rightarrow> char_of (16 * h + l) # percent_decode s
        | _ \<Rightarrow> a # percent_decode (b # c # s)
      else a # percent_decode (b # c # s))"

definition form_decode :: "string \<Rightarrow> string" where
  "form_decode s = percent_decode (map (\<lambda>c. if c = CHR ''+'' then CHR '' '' else c) s)"

text \<open>\<open>new URLSearchParams(fragment)\<close>.\<close>

definition form_parse :: "string \<Rightarrow> (string \<times> string) list" where
  "form_parse s =
     map (\<lambda>seg. let k = takeWhile (\<lambda>c. c \<noteq> CHR ''='') seg in
                (form_decode k, form_decode (drop (length k + 1) seg)))
       (filter (\<lambda>seg. seg \<noteq> []) (split_on (CHR ''&'') s))"

section \<open>The shared link\<close>

definition RECEIVE_CREDENTIAL_PATTERN :: "string \<Rightarrow> bool" where
  "RECEIVE_CREDENTIAL_PATTERN s \<longleftrightarrow> length s = 12 \<and> list_all credential_char s"

datatype ReceiveUrlWarning = Insecure | Loopback

record ReceiveUrlResult =
  result_url :: string
  warnings :: "ReceiveUrlWarning list"

datatype ReceiveIntentInvalidReason =
    DuplicateParameter
  | InvalidCredential
  | MissingCredential
  | UnexpectedParameter
  | UnsupportedVersion

datatype ReceiveIntent =
    NoIntent
  | ValidIntent string bool
  | InvalidIntent ReceiveIntentInvalidReason

definition assertValidCredential :: "string \<Rightarrow> unit res" where
  "assertValidCredential credential =
     throw_if (\<not> RECEIVE_CREDENTIAL_PATTERN credential)
       (TypeErrorObj ''credential must contain exactly 12 letters, digits, or hyphens'') (Inr ())"

text \<open>The pieces of the two regular expressions of \<open>isLoopbackHostname\<close>.\<close>

definition is_lower_hex :: "char \<Rightarrow> bool" where
  "is_lower_hex c \<longleftrightarrow> List.member ''0123456789abcdef'' c"

definition mapped_loopback :: "string \<Rightarrow> bool" where
  "mapped_loopback s \<longleftrightarrow> starts_with s ''::ffff:7f'' \<and>
     (let r = drop 9 s in length r \<ge> 2 \<and> list_all is_lower_hex (take 2 r) \<and>
        (drop 2 r = [] \<or> hd (drop 2 r) = CHR '':''))"

definition octet_shape :: "string \<Rightarrow> bool" where
  "octet_shape s \<longleftrightarrow> 1 \<le> length s \<and> length s \<le> 3 \<and> list_all is_digit s"

definition ipv4_loopback :: "string \<Rightarrow> bool" where
  "ipv4_loopback s \<longleftrightarrow> (case split_on (CHR ''.'') s of
     [a, b, c, d] \<Rightarrow> a = ''127'' \<and> octet_shape b \<and> octet_shape c \<and> octet_shape d
   | _ \<Rightarrow> False)"

definition isLoopbackHostname :: "string \<Rightarrow> bool" where
  "isLoopbackHostname host_name =
     (let s = map lower_char host_name;
          s = (if starts_with s ''['' then tl s else s);
          s = (if ends_with s '']'' then butlast s else s);
          s = (if ends_with s ''.'' then butlast s else s) in
      s = ''localhost'' \<or> ends_with s ''.localhost'' \<or> s = ''::1'' \<or>
      starts_with s ''::ffff:127.'' \<or> mapped_loopback s \<or> ipv4_loopback s)"

definition strip_slashes :: "string \<Rightarrow> string" where
  "strip_slashes s = rev (dropWhile (\<lambda>c. c = CHR ''/'') (rev s))"

definition receive_url :: "url \<Rightarrow> string \<Rightarrow> url" where
  "receive_url u credential = u\<lparr>
     pathname := strip_slashes (pathname u) @ ''/'',
     search := [],
     url_hash := CHR ''#'' # form_encode [(''v'', ''1''), (''receive'', credential)]\<rparr>"

definition buildReceiveUrl ::
    "(string \<Rightarrow> url option) \<Rightarrow> string \<Rightarrow> string \<Rightarrow> ReceiveUrlResult res" where
  "buildReceiveUrl parse_url registryUrl credential =
     rbind (assertValidCredential credential) (\<lambda>_.
     case parse_url registryUrl of
       None \<Rightarrow> Inl (TypeErrorObj ''registryUrl must be an absolute HTTP(S) URL'')
     | Some u \<Rightarrow>
         throw_if (protocol u \<noteq> ''http:'' \<and> protocol u \<noteq> ''https:'')
           (TypeErrorObj ''registryUrl must use HTTP or HTTPS'')
        (throw_if (username u \<noteq> [] \<or> password u \<noteq> [])
           (TypeErrorObj ''registryUrl must not include a username or password'')
        (let u' = receive_url u credential in
         Inr \<lparr> result_url = href u',
               warnings = (if protocol u' = ''http:'' then [Insecure] else []) @
                          (if isLoopbackHostname (hostname u') then [Loopback] else []) \<rparr>)))"

definition parseReceiveIntent :: "string \<Rightarrow> ReceiveIntent" where
  "parseReceiveIntent hash_text =
     (let fragment = (if starts_with hash_text ''#'' then drop 1 hash_text else hash_text) in
      if fragment = [] then NoIntent
      else
        let params = form_parse fragment in
        if list_ex (\<lambda>(key, _). key \<noteq> ''v'' \<and> key \<noteq> ''receive'') params
        then InvalidIntent UnexpectedParameter
        else
          let versions = map snd (filter (\<lambda>(key, _). key = ''v'') params);
              credentials = map snd (filter (\<lambda>(key, _). key = ''receive'') params) in
          if length versions > 1 \<or> length credentials > 1 then InvalidIntent DuplicateParameter
          else case credentials of
            [] \<Rightarrow> InvalidIntent MissingCredential
          | credential # _ \<Rightarrow>
              if \<not> RECEIVE_CREDENTIAL_PATTERN credential then InvalidIntent InvalidCredential
              else case versions of
                [] \<Rightarrow> ValidIntent credential False
              | version # _ \<Rightarrow>
                  if version \<noteq> ''1'' then InvalidIntent UnsupportedVersion
                  else ValidIntent credential True)"

section \<open>The input boxes of the receive page\<close>

text \<open>
  The values of the twelve inputs, which of them has the focus, whether a change callback is
  registered and how often it has run.
\<close>

record credential_input =
  inputs :: "string list"
  focused :: "nat option"
  has_callback :: bool
  notified :: nat

definition new_credential_input :: credential_input where
  "new_credential_input =
     \<lparr> inputs = replicate CREDENTIAL_LENGTH [], focused = None, has_callback = False, notified = 0 \<rparr>"

definition onChange :: "credential_input \<Rightarrow> credential_input" where
  "onChange s = s\<lparr>has_callback := True\<rparr>"

definition notifyChange :: "credential_input \<Rightarrow> credential_input" where
  "notifyChange s = (if has_callback s then s\<lparr>notified := notified s + 1\<rparr> else s)"

definition normalizeInput :: "string \<Rightarrow> string" where
  "normalizeInput v = (if v = [] then [] else if \<not> credential_char (last v) then [] else [last v])"

text \<open>The \<open>input\<close> event: the element's value has become \<open>v\<close>.\<close>

definition on_input :: "nat \<Rightarrow> string \<Rightarrow> credential_input \<Rightarrow> credential_input" where
  "on_input index v s =
     (let s1 = s\<lparr>inputs := (inputs s)[index := normalizeInput v]\<rparr>;
          s2 = (if length (normalizeInput v) = 1 \<and> index < CREDENTIAL_LENGTH - 1
                then s1\<lparr>focused := Some (index + 1)\<rparr> else s1) in
      notifyChange s2)"

datatype key = Backspace | ArrowLeft | ArrowRight | OtherKey

text \<open>The \<open>keydown\<close> event; the flag is \<open>event.preventDefault()\<close>.\<close>

definition on_keydown :: "nat \<Rightarrow> key \<Rightarrow> credential_input \<Rightarrow> credential_input \<times> bool" where
  "on_keydown index k s =
     (if k = Backspace \<and> inputs s ! index = [] \<and> index > 0
      then (s\<lparr>focused := Some (index - 1)\<rparr>, True)
      else if k = ArrowLeft \<and> index > 0 then (s\<lparr>focused := Some (index - 1)\<rparr>, True)
      else if k = ArrowRight \<and> index < CREDENTIAL_LENGTH - 1
      then (s\<lparr>focused := Some (index + 1)\<rparr>, True)
      else (s, False))"

definition getValue :: "credential_input \<Rightarrow> string" where
  "getValue s = concat (inputs s)"

definition isComplete :: "credential_input \<Rightarrow> bool" where
  "isComplete s \<longleftrightarrow> length (getValue s) = CREDENTIAL_LENGTH"

text \<open>The loop of \<open>applyCredential\<close>: skips a bad character, stops at twelve good ones.\<close>

fun collect :: "string \<Rightarrow> string \<Rightarrow> string" where
  "collect collected [] = collected"
| "collect collected (c # s) =
     (if \<not> credential_char c then collect collected s
      else if length (collected @ [c]) \<ge> CREDENTIAL_LENGTH then collected @ [c]
      else collect (collected @ [c]) s)"

definition applyCredential :: "string \<Rightarrow> credential_input \<Rightarrow> credential_input" where
  "applyCredential text s =
     (let collected = collect [] (filter (\<lambda>c. \<not> is_space c) text) in
      notifyChange (s\<lparr>
        inputs := map (\<lambda>i. if i < length collected then [collected ! i] else []) [0..<CREDENTIAL_LENGTH],
        focused := Some (min (length collected) (CREDENTIAL_LENGTH - 1))\<rparr>))"

definition reset_input :: "credential_input \<Rightarrow> credential_input" where
  "reset_input s = notifyChange (s\<lparr>inputs := map (\<lambda>_. []) (inputs s), focused := Some 0\<rparr>)"

definition focus_input :: "credential_input \<Rightarrow> credential_input" where
  "focus_input s =
     (case filter (\<lambda>i. inputs s ! i = []) [0..<length (inputs s)] of
        i # _ \<Rightarrow> s\<lparr>focused := Some i\<rparr>
      | [] \<Rightarrow> s\<lparr>focused := Some 0\<rparr>)"

text \<open>Whatever the user and the page do to the boxes.\<close>

inductive input_step :: "credential_input \<Rightarrow> credential_input \<Rightarrow> bool" where
  typed: "index < CREDENTIAL_LENGTH \<Longrightarrow> input_step s (on_input index v s)"
| pressed: "index < CREDENTIAL_LENGTH \<Longrightarrow> input_step s (fst (on_keydown index k s))"
| pasted: "input_step s (applyCredential text s)"
| cleared: "input_step s (reset_input s)"
| focusing: "input_step s (focus_input s)"
| subscribed: "input_step s (onChange s)"

section \<open>The display slots of the send page\<close>

datatype slot_class = SlotEmpty | SlotSpinning | SlotWaiting | SlotSettled

record slot_display =
  slots :: "(slot_class \<times> string) list"
  spin_timer :: bool
  shown_credential :: string

definition WAITING_TEXT :: string where
  "WAITING_TEXT = ''WAITING4-12C''"

definition SPIN_ALPHABET :: string where
  "SPIN_ALPHABET = UPPERCASE @ LOWERCASE @ DIGITS"

definition new_slot_display :: slot_display where
  "new_slot_display = \<lparr> slots = replicate CREDENTIAL_LENGTH (SlotEmpty, []), spin_timer = False,
     shown_credential = [] \<rparr>"

definition slots_getValue :: "slot_display \<Rightarrow> string" where
  "slots_getValue = shown_credential"

definition stopReelTimer :: "slot_display \<Rightarrow> slot_display" where
  "stopReelTimer s = s\<lparr>spin_timer := False\<rparr>"

definition reset_slots :: "slot_display \<Rightarrow> slot_display" where
  "reset_slots s = (stopReelTimer s)\<lparr>shown_credential := [],
     slots := map (\<lambda>_. (SlotEmpty, [])) (slots s)\<rparr>"

definition startBreathing :: "slot_display \<Rightarrow> slot_display res" where
  "startBreathing s =
     throw_if (length WAITING_TEXT \<noteq> CREDENTIAL_LENGTH)
       (ErrorObj ''WAITING_TEXT must match CREDENTIAL_LENGTH'')
       (Inr ((stopReelTimer s)\<lparr>shown_credential := [],
          slots := map (\<lambda>i. (SlotWaiting, [WAITING_TEXT ! i])) [0..<CREDENTIAL_LENGTH]\<rparr>))"

text \<open>\<open>randomChar\<close>, given the random index below 62 it computes for slot \<open>i\<close>.\<close>

definition randomChar :: "nat \<Rightarrow> string" where
  "randomChar r = [SPIN_ALPHABET ! (r mod length SPIN_ALPHABET)]"

definition spin_tick :: "(nat \<Rightarrow> nat) \<Rightarrow> slot_display \<Rightarrow> slot_display" where
  "spin_tick rand s = s\<lparr>slots := map (\<lambda>(i, c, t).
     if c = SlotSpinning \<or> c = SlotWaiting then (c, randomChar (rand i)) else (c, t))
     (List.enumerate 0 (slots s))\<rparr>"

definition startReelSpinning :: "(nat \<Rightarrow> nat) \<Rightarrow> slot_display \<Rightarrow> slot_display" where
  "startReelSpinning rand s =
     s\<lparr>slots := map (\<lambda>(i, _). (SlotSpinning, randomChar (rand i))) (List.enumerate 0 (slots s)),
       spin_timer := True\<rparr>"

text \<open>The interval fires only while the timer is set.\<close>

definition timer_ticks :: "(nat \<Rightarrow> nat) list \<Rightarrow> slot_display \<Rightarrow> slot_display" where
  "timer_ticks rands s = (if spin_timer s then fold spin_tick rands s else s)"

text \<open>
  \<open>enterReelWhenReady\<close>: the reel starts when the import promise has resolved and the minimal
  breathing time is over; a rejected promise leaves the display breathing and is rethrown.
\<close>

definition enterReelWhenReady :: "unit res \<Rightarrow> (nat \<Rightarrow> nat) \<Rightarrow> slot_display \<Rightarrow> slot_display res" where
  "enterReelWhenReady importReady rand s = rbind importReady (\<lambda>_. Inr (startReelSpinning rand s))"

text \<open>\<open>revealSequential\<close>; \<open>ticks i\<close> are the interval's firings during the delay after slot \<open>i\<close>.\<close>

fun reveal_from ::
    "(nat \<Rightarrow> (nat \<Rightarrow> nat) list) \<Rightarrow> string \<Rightarrow> nat list \<Rightarrow> slot_display \<Rightarrow> slot_display" where
  "reveal_from ticks credential [] s = s"
| "reveal_from ticks credential (i # rest) s =
     (let s1 = s\<lparr>slots := (slots s)[i := (SlotSettled, [credential ! i])]\<rparr>;
          s2 = (if i < CREDENTIAL_LENGTH - 1 then timer_ticks (ticks i) s1 else s1) in
      reveal_from ticks credential rest s2)"

definition revealSequential ::
    "(nat \<Rightarrow> (nat \<Rightarrow> nat) list) \<Rightarrow> string \<Rightarrow> slot_display \<Rightarrow> slot_display res" where
  "revealSequential ticks credential s =
     throw_if (length credential \<noteq> CREDENTIAL_LENGTH)
       (ErrorObj (''credential length must be '' @ dec CREDENTIAL_LENGTH))
       (Inr (stopReelTimer (reveal_from ticks credential [0..<CREDENTIAL_LENGTH]
          (s\<lparr>shown_credential := credential\<rparr>))))"

section \<open>Lemmas on form encoding\<close>

lemma split_on_none: "sep \<notin> set a \<Longrightarrow> split_on sep a = [a]"
  by (induction a) auto

lemma split_on_append: "sep \<notin> set a \<Longrightarrow> split_on sep (a @ sep # b) = a # split_on sep b"
  by (induction a) auto

lemma percent_decode_plain: "CHR ''%'' \<notin> set s \<Longrightarrow> percent_decode s = s"
  by (induction s rule: percent_decode.induct) auto

lemma form_decode_plain: "CHR ''%'' \<notin> set s \<Longrightarrow> CHR ''+'' \<notin> set s \<Longrightarrow> form_decode s = s"
proof -
  assume "CHR ''%'' \<notin> set s" "CHR ''+'' \<notin> set s"
  moreover from this have "map (\<lambda>c. if c = CHR ''+'' then CHR '' '' else c) s = s"
    by (intro map_idI) auto
  ultimately show ?thesis by (simp add: form_decode_def percent_decode_plain)
qed

lemma credential_char_safe: "credential_char c \<Longrightarrow> form_char c = [c]"
  by (auto simp: credential_char_def form_char_def form_safe_def is_letter_def Let_def)

lemma credential_char_not:
  "credential_char c \<Longrightarrow> c \<noteq> CHR ''&'' \<and> c \<noteq> CHR ''%'' \<and> c \<noteq> CHR ''+'' \<and> c \<noteq> CHR ''=''
     \<and> \<not> is_space c"
  by (auto simp: credential_char_def is_space_def UPPERCASE_def LOWERCASE_def DIGITS_def)

lemma list_all_not_in: "list_all credential_char s \<Longrightarrow> \<not> credential_char c \<Longrightarrow> c \<notin> set s"
  by (auto simp: list_all_iff)

lemma form_encode_credential:
  assumes "list_all credential_char c"
  shows "form_encode [(''v'', ''1''), (''receive'', c)] = ''v=1&receive='' @ c"
proof -
  have "concat (map form_char c) = c"
    using assms by (induction c) (simp_all add: credential_char_safe)
  moreover have "concat (map form_char ''v'') = ''v''" "concat (map form_char ''1'') = ''1''"
      "concat (map form_char ''receive'') = ''receive''"
    by code_simp+
  ultimately show ?thesis by (simp add: form_encode_def)
qed

lemma form_parse_credential:
  assumes "list_all credential_char c"
  shows "form_parse (''v=1&receive='' @ c) = [(''v'', ''1''), (''receive'', c)]"
proof -
  have no: "x \<notin> set c" if "x \<in> {CHR ''&'', CHR ''%'', CHR ''+''}" for x
    using assms that credential_char_not by (auto simp: list_all_iff)
  have "split_on (CHR ''&'') (''v=1'' @ CHR ''&'' # (''receive='' @ c)) = [''v=1'', ''receive='' @ c]"
    using no by (subst split_on_append) (simp_all add: split_on_none)
  then have sp: "split_on (CHR ''&'') (''v=1&receive='' @ c) = [''v=1'', ''receive='' @ c]" by simp
  have dec: "form_decode ''v'' = ''v''" "form_decode ''1'' = ''1''" "form_decode ''receive'' = ''receive''"
      "form_decode c = c"
    using no by (simp_all add: form_decode_plain)
  show ?thesis
    unfolding form_parse_def sp by (simp add: dec Let_def)
qed

lemma parse_built_intent:
  assumes "RECEIVE_CREDENTIAL_PATTERN c"
  shows "parseReceiveIntent (CHR ''#'' # form_encode [(''v'', ''1''), (''receive'', c)]) = ValidIntent c True"
  using assms form_encode_credential form_parse_credential
  by (simp add: parseReceiveIntent_def RECEIVE_CREDENTIAL_PATTERN_def starts_with_def Let_def)

lemma intent_pattern:
  "parseReceiveIntent h = ValidIntent c auto_download \<Longrightarrow> RECEIVE_CREDENTIAL_PATTERN c"
  by (auto simp: parseReceiveIntent_def Let_def split: if_splits list.splits)

section \<open>Lemmas on the input boxes\<close>

lemma collect_spec: "length acc < CREDENTIAL_LENGTH \<Longrightarrow>
    collect acc s = take CREDENTIAL_LENGTH (acc @ filter credential_char s)"
proof (induction acc s rule: collect.induct)
  case (2 acc c s)
  show ?case
  proof (cases "credential_char c \<and> CREDENTIAL_LENGTH \<le> Suc (length acc)")
    case True
    with 2(3) have "CREDENTIAL_LENGTH = length (acc @ [c])" by simp
    then have "CREDENTIAL_LENGTH - length acc = Suc 0" by simp
    with True show ?thesis by simp
  next
    case False
    with 2 show ?thesis by auto
  qed
qed simp

lemma collect_text: "collect [] (filter (\<lambda>c. \<not> is_space c) pasted_text)
    = take CREDENTIAL_LENGTH (filter credential_char pasted_text)"
proof -
  have "filter credential_char (filter (\<lambda>c. \<not> is_space c) pasted_text) = filter credential_char pasted_text"
    using credential_char_not by (induction pasted_text) auto
  then show ?thesis by (simp add: collect_spec CREDENTIAL_LENGTH_def)
qed

lemma notifyChange_inputs [simp]: "inputs (notifyChange s) = inputs s"
  by (simp add: notifyChange_def)

lemma concat_singles_prefix:
  assumes "length w \<le> n"
  shows "concat (map (\<lambda>i. if i < length w then [w ! i] else []) [0..<n]) = w"
proof -
  have "[0..<n] = [0..<length w] @ [length w..<n]"
    using assms by (metis le_add_diff_inverse upt_add_eq_append zero_le)
  moreover have "concat (map (\<lambda>i. if i < length w then [w ! i] else []) [0..<length w]) = w"
  proof -
    have "map (\<lambda>i. if i < length w then [w ! i] else []) [0..<length w] = map (\<lambda>i. [w ! i]) [0..<length w]"
      by simp
    then show ?thesis by (simp only: concat_nth_singletons map_nth)
  qed
  moreover have "concat (map (\<lambda>i. if i < length w then [w ! i] else []) [length w..<n]) = []"
    by simp
  ultimately show ?thesis by (simp only: map_append concat_append append_Nil2)
qed

lemma getValue_applyCredential:
  "getValue (applyCredential pasted_text s) = take CREDENTIAL_LENGTH (filter credential_char pasted_text)"
proof -
  let ?w = "take CREDENTIAL_LENGTH (filter credential_char pasted_text)"
  have "inputs (applyCredential pasted_text s) =
      map (\<lambda>i. if i < length ?w then [?w ! i] else []) [0..<CREDENTIAL_LENGTH]"
    by (simp only: applyCredential_def Let_def collect_text notifyChange_inputs) simp
  then show ?thesis
    by (simp only: getValue_def) (rule concat_singles_prefix, simp)
qed

text \<open>Every box is empty or holds one allowed character.\<close>

definition box_ok :: "string \<Rightarrow> bool" where
  "box_ok v \<longleftrightarrow> v = [] \<or> (\<exists>c. v = [c] \<and> credential_char c)"

definition boxes_inv :: "credential_input \<Rightarrow> bool" where
  "boxes_inv s \<longleftrightarrow> length (inputs s) = CREDENTIAL_LENGTH \<and> (\<forall>v\<in>set (inputs s). box_ok v)"

lemma box_ok_simps [simp]: "box_ok []" "box_ok (normalizeInput v)" "box_ok [c] = credential_char c"
  by (auto simp: box_ok_def normalizeInput_def)

lemma set_list_update_ok: "\<forall>v\<in>set vs. box_ok v \<Longrightarrow> box_ok v' \<Longrightarrow> \<forall>v\<in>set (vs[i := v']). box_ok v"
  using set_update_subset_insert[of vs i v'] by blast

lemma boxes_inv_new [simp]: "boxes_inv new_credential_input"
  by (simp add: boxes_inv_def new_credential_input_def)

lemma applyCredential_inv: "boxes_inv (applyCredential pasted_text s)"
proof -
  have "box_ok [w ! i]" if "i < length w" "w = take CREDENTIAL_LENGTH (filter credential_char pasted_text)" for i w
  proof -
    from that have "w ! i \<in> set (filter credential_char pasted_text)" by (metis in_set_takeD nth_mem)
    then show ?thesis by simp
  qed
  then show ?thesis
    by (auto simp: boxes_inv_def applyCredential_def Let_def collect_text)
qed

lemma boxes_inv_step: "input_step s s' \<Longrightarrow> boxes_inv s \<Longrightarrow> boxes_inv s'"
proof (induction rule: input_step.induct)
  case (typed index s v)
  then show ?case
    using set_list_update_ok[of "inputs s" "normalizeInput v" index]
    by (auto simp: boxes_inv_def on_input_def Let_def)
next
  case (pasted pasted_text s)
  then show ?case by (simp add: applyCredential_inv)
qed (auto simp: boxes_inv_def on_keydown_def reset_input_def focus_input_def onChange_def
       split: list.split)

lemma boxes_value_chars: "boxes_inv s \<Longrightarrow> list_all credential_char (getValue s)"
  by (auto simp: boxes_inv_def getValue_def list_all_iff box_ok_def)

lemma boxes_reachable: "input_step\<^sup>*\<^sup>* new_credential_input s \<Longrightarrow> boxes_inv s"
  by (induction rule: rtranclp_induct) (simp_all add: boxes_inv_step)

section \<open>Lemmas on the display slots\<close>

lemma nth_spin_tick: "i < length (slots s) \<Longrightarrow> slots (spin_tick rand s) ! i =
    (case slots s ! i of (c, t) \<Rightarrow>
       if c = SlotSpinning \<or> c = SlotWaiting then (c, randomChar (rand i)) else (c, t))"
  by (simp add: spin_tick_def nth_enumerate_eq split: prod.split)

lemma length_spin_tick [simp]: "length (slots (spin_tick rand s)) = length (slots s)"
  by (simp add: spin_tick_def)

text \<open>The first \<open>k\<close> slots are settled on the credential.\<close>

definition settled_upto :: "nat \<Rightarrow> string \<Rightarrow> slot_display \<Rightarrow> bool" where
  "settled_upto k credential s \<longleftrightarrow> length (slots s) = CREDENTIAL_LENGTH \<and>
     shown_credential s = credential \<and> (\<forall>i<k. slots s ! i = (SlotSettled, [credential ! i]))"

lemma settled_spin_tick: "settled_upto k credential s \<Longrightarrow> k \<le> CREDENTIAL_LENGTH \<Longrightarrow>
    settled_upto k credential (spin_tick rand s)"
  by (auto simp: settled_upto_def nth_spin_tick) (simp add: spin_tick_def)

lemma settled_fold: "settled_upto k credential s \<Longrightarrow> k \<le> CREDENTIAL_LENGTH \<Longrightarrow>
    settled_upto k credential (fold spin_tick rands s)"
  by (induction rands arbitrary: s) (simp_all add: settled_spin_tick)

lemma settled_ticks: "settled_upto k credential s \<Longrightarrow> k \<le> CREDENTIAL_LENGTH \<Longrightarrow>
    settled_upto k credential (timer_ticks rands s)"
  by (simp add: timer_ticks_def settled_fold)

lemma settled_update: "settled_upto k credential s \<Longrightarrow> k < CREDENTIAL_LENGTH \<Longrightarrow>
    settled_upto (Suc k) credential (s\<lparr>slots := (slots s)[k := (SlotSettled, [credential ! k])]\<rparr>)"
  by (auto simp: settled_upto_def nth_list_update less_Suc_eq)

lemma reveal_settles: "settled_upto k credential s \<Longrightarrow> k \<le> CREDENTIAL_LENGTH \<Longrightarrow>
    settled_upto CREDENTIAL_LENGTH credential (reveal_from ticks credential [k..<CREDENTIAL_LENGTH] s)"
proof (induction "CREDENTIAL_LENGTH - k" arbitrary: k s)
  case 0
  then have "k = CREDENTIAL_LENGTH" by simp
  with 0 show ?case by simp
next
  case (Suc n)
  then have k: "k < CREDENTIAL_LENGTH" by simp
  then have "[k..<CREDENTIAL_LENGTH] = k # [Suc k..<CREDENTIAL_LENGTH]" by (rule upt_conv_Cons)
  moreover have "settled_upto (Suc k) credential (if k < CREDENTIAL_LENGTH - 1
      then timer_ticks (ticks k) (s\<lparr>slots := (slots s)[k := (SlotSettled, [credential ! k])]\<rparr>)
      else s\<lparr>slots := (slots s)[k := (SlotSettled, [credential ! k])]\<rparr>)"
    using settled_update[OF Suc.prems(1) k] k by (simp add: settled_ticks)
  ultimately show ?case
    using Suc.hyps(1)[of "Suc k"] Suc.hyps(2) k by (simp add: Let_def)
qed

section \<open>Properties\<close>

text \<open>C35. A shared link that was built carries its credential to the receiver and nowhere else: the
  registry URL was parsed as HTTP or HTTPS without a login, the link is that URL's scheme, host
  and path (which now ends in exactly one slash added to the stripped path) with an empty query
  and nothing that depends on the credential before the fragment, and parsing the fragment gives
  back exactly this credential with the automatic download switched on. It warns of plain HTTP
  exactly for \<open>http:\<close>.\<close>

theorem receive_link_roundtrip:
  assumes "buildReceiveUrl parse_url registryUrl credential = Inr r"
  shows "\<exists>u fragment. parse_url registryUrl = Some u \<and>
    (protocol u = ''http:'' \<or> protocol u = ''https:'') \<and> username u = [] \<and> password u = [] \<and>
    result_url r = href (u\<lparr>pathname := strip_slashes (pathname u) @ ''/'', search := [], url_hash := []\<rparr>)
      @ fragment \<and>
    parseReceiveIntent fragment = ValidIntent credential True \<and>
    (List.member (warnings r) Insecure \<longleftrightarrow> protocol u = ''http:'')"
proof -
  have c: "RECEIVE_CREDENTIAL_PATTERN credential"
    using assms by (auto simp: buildReceiveUrl_def assertValidCredential_def rbind_Inr_iff throw_if_Inr_iff)
  with assms obtain u where u: "parse_url registryUrl = Some u"
      "protocol u = ''http:'' \<or> protocol u = ''https:''" "username u = []" "password u = []"
      "r = \<lparr> result_url = href (receive_url u credential),
             warnings = (if protocol u = ''http:'' then [Insecure] else []) @
               (if isLoopbackHostname (hostname u) then [Loopback] else []) \<rparr>"
    by (auto simp: buildReceiveUrl_def assertValidCredential_def throw_if_Inr_iff receive_url_def
        Let_def split: option.splits)
  then show ?thesis
    using parse_built_intent[OF c]
    by (intro exI[of _ u] exI[of _ "url_hash (receive_url u credential)"])
      (auto simp: receive_url_def href_def)
qed

definition demo_url :: url where
  "demo_url = \<lparr> protocol = ''http:'', username = [], password = [], hostname = ''127.0.0.1'',
     port = ''8080'', pathname = ''/client//'', search = ''?a=1'', url_hash = [] \<rparr>"

definition demo_result :: ReceiveUrlResult where
  "demo_result = \<lparr> result_url = ''http://127.0.0.1:8080/client/#v=1&receive=AbCdEf-12345'',
     warnings = [Insecure, Loopback] \<rparr>"

lemma demo_link:
  "buildReceiveUrl (\<lambda>_. Some demo_url) ''http://127.0.0.1:8080/client//?a=1'' ''AbCdEf-12345''
     = Inr demo_result"
  by code_simp

theorem receive_link_roundtrip_witness:
  "\<exists>fragment. parseReceiveIntent fragment = ValidIntent ''AbCdEf-12345'' True \<and>
     result_url demo_result = ''http://127.0.0.1:8080/client/'' @ fragment"
proof -
  have "href (demo_url\<lparr>pathname := strip_slashes (pathname demo_url) @ ''/'', search := [], url_hash := []\<rparr>)
      = ''http://127.0.0.1:8080/client/''"
    by code_simp
  then show ?thesis using receive_link_roundtrip[OF demo_link] by auto
qed

text \<open>A link's fragment that is accepted names a credential of twelve letters, digits or
  hyphens, which can be split into its two codes; the automatic download is on only for the
  version parameter 1, without which the same fragment is accepted for a manual download.\<close>

theorem intent_is_sound:
  "case parseReceiveIntent h of
     ValidIntent c auto_download \<Rightarrow>
       RECEIVE_CREDENTIAL_PATTERN c \<and> is_ok (splitCredential c) \<and>
       parseReceiveIntent (''#receive='' @ c) = ValidIntent c False
   | _ \<Rightarrow> True"
proof (cases "parseReceiveIntent h")
  case (ValidIntent c auto_download)
  then have c: "RECEIVE_CREDENTIAL_PATTERN c" by (rule intent_pattern)
  then have ok: "list_all credential_char c" "length c = 12"
    by (simp_all add: RECEIVE_CREDENTIAL_PATTERN_def)
  have no: "x \<notin> set c" if "x \<in> {CHR ''&'', CHR ''%'', CHR ''+''}" for x
    using ok that credential_char_not by (auto simp: list_all_iff)
  have sp: "split_on (CHR ''&'') (''receive='' @ c) = [''receive='' @ c]"
    using no by (intro split_on_none) auto
  have "form_parse (''receive='' @ c) = [(''receive'', c)]"
    unfolding form_parse_def sp using no by (simp add: form_decode_plain Let_def)
  then have "parseReceiveIntent (''#receive='' @ c) = ValidIntent c False"
    using c by (simp add: parseReceiveIntent_def starts_with_def Let_def)
  with c ok ValidIntent show ?thesis
    by (simp add: splitCredential_def CREDENTIAL_LENGTH_def)
qed simp_all

text \<open>In every state the user can bring the receive page's boxes to, by typing, deleting,
  pasting, clearing and moving the focus, the form is complete exactly when its value is a
  well-formed credential; and pasting any text leaves the first twelve of its letters, digits
  and hyphens.\<close>

theorem boxes_complete_iff_wellformed:
  assumes "input_step\<^sup>*\<^sup>* new_credential_input s"
  shows "(isComplete s \<longleftrightarrow> RECEIVE_CREDENTIAL_PATTERN (getValue s)) \<and>
    getValue (applyCredential clip s) = take CREDENTIAL_LENGTH (filter credential_char clip)"
  using boxes_value_chars[OF boxes_reachable[OF assms]] getValue_applyCredential[of clip s]
  by (simp add: isComplete_def RECEIVE_CREDENTIAL_PATTERN_def CREDENTIAL_LENGTH_def)

theorem boxes_complete_iff_wellformed_witness:
  "isComplete (applyCredential '' AbCd Ef-12345/ '' new_credential_input) \<and>
   getValue (applyCredential ''x'' (applyCredential '' AbCd Ef-12345/ '' new_credential_input)) = ''x''"
proof -
  let ?s = "applyCredential '' AbCd Ef-12345/ '' new_credential_input"
  have "input_step\<^sup>*\<^sup>* new_credential_input ?s" by (blast intro: input_step.pasted)
  from boxes_complete_iff_wellformed[OF this, of "''x''"] show ?thesis
  proof -
    assume a: "(isComplete ?s \<longleftrightarrow> RECEIVE_CREDENTIAL_PATTERN (getValue ?s)) \<and>
      getValue (applyCredential ''x'' ?s) = take CREDENTIAL_LENGTH (filter credential_char ''x'')"
    have "RECEIVE_CREDENTIAL_PATTERN (getValue ?s)" by code_simp
    moreover have "take CREDENTIAL_LENGTH (filter credential_char ''x'') = ''x''" by code_simp
    ultimately show ?thesis using a by simp
  qed
qed

text \<open>C34. A generated credential travels: whatever the style and the random bytes, a credential that
  is generated matches the pattern of the receive page, comes back unchanged from the fragment
  of its link, and fills the twelve boxes with itself, whatever they held.\<close>

theorem generated_credential_travels:
  "case generateStyledCredential random options of
     Inl _ \<Rightarrow> True
   | Inr c \<Rightarrow> RECEIVE_CREDENTIAL_PATTERN c \<and>
       parseReceiveIntent (CHR ''#'' # form_encode [(''v'', ''1''), (''receive'', c)]) = ValidIntent c True \<and>
       getValue (applyCredential c s) = c \<and> isComplete (applyCredential c s)"
proof (cases "generateStyledCredential random options")
  case (Inr c)
  have wf: "credential_wf options c \<and> list_all credential_char c"
  proof (cases "validateCredentialStyle options")
    case None
    then have "\<not> (lettersOnlyFirstSix options \<and> lettersOnlyLastSix options)"
      by (simp add: validate_satisfiable style_satisfiable_def)
    with None Inr have "credential_wf options c"
      using generateWordStyleCredential_wf[of options random] generateRandomCredential_wf[OF None, of random]
      by (auto simp: generateStyledCredential_def split: if_splits sum.splits)
    then show ?thesis using credential_wf_chars by blast
  next
    case (Some e)
    with Inr show ?thesis by (simp add: generateStyledCredential_def)
  qed
  then have pat: "RECEIVE_CREDENTIAL_PATTERN c"
    by (simp add: RECEIVE_CREDENTIAL_PATTERN_def credential_wf_def CREDENTIAL_LENGTH_def)
  have "filter credential_char c = c" using wf by (simp add: list_all_iff filter_id_conv)
  then have "getValue (applyCredential c s) = c"
    using wf getValue_applyCredential[of c s] by (simp add: credential_wf_def)
  with pat wf Inr parse_built_intent[OF pat] show ?thesis
    by (simp add: isComplete_def credential_wf_def)
qed simp

text \<open>The reveal animation ends on the credential: started on twelve slots in any state, whatever
  interval ticks fall between its steps, it leaves every slot settled on its character of the
  credential and the reel timer stopped; a credential of another length is refused with an
  error before any slot is touched.\<close>

theorem reveal_shows_credential:
  assumes "length (slots s) = CREDENTIAL_LENGTH"
  shows "case revealSequential ticks credential s of
      Inl e \<Rightarrow> length credential \<noteq> 12 \<and> e = ErrorObj ''credential length must be 12''
    | Inr s' \<Rightarrow> length credential = 12 \<and> slots_getValue s' = credential \<and> \<not> spin_timer s' \<and>
        slots s' = map (\<lambda>c. (SlotSettled, [c])) credential"
proof (cases "length credential = 12")
  case False
  moreover have "dec CREDENTIAL_LENGTH = ''12''" by code_simp
  ultimately show ?thesis by (simp add: revealSequential_def CREDENTIAL_LENGTH_def)
next
  case True
  let ?s = "reveal_from ticks credential [0..<CREDENTIAL_LENGTH] (s\<lparr>shown_credential := credential\<rparr>)"
  have st: "settled_upto CREDENTIAL_LENGTH credential ?s"
    using assms by (intro reveal_settles) (simp_all add: settled_upto_def)
  then have "slots ?s = map (\<lambda>c. (SlotSettled, [c])) credential"
    using True by (intro nth_equalityI) (simp_all add: settled_upto_def CREDENTIAL_LENGTH_def)
  then show ?thesis
    using True st by (simp add: revealSequential_def CREDENTIAL_LENGTH_def stopReelTimer_def
        slots_getValue_def settled_upto_def)
qed

theorem reveal_shows_credential_witness:
  "case revealSequential (\<lambda>_. [\<lambda>i. i, \<lambda>i. 7 * i]) ''AbCdEf-12345''
      (startReelSpinning (\<lambda>i. 3 * i) new_slot_display) of
     Inl e \<Rightarrow> False
   | Inr s' \<Rightarrow> slots_getValue s' = ''AbCdEf-12345''"
proof -
  have "length (slots (startReelSpinning (\<lambda>i. 3 * i) new_slot_display)) = CREDENTIAL_LENGTH"
    by (simp add: startReelSpinning_def new_slot_display_def)
  from reveal_shows_credential[OF this, where ticks = "\<lambda>_. [\<lambda>i. i, \<lambda>i. 7 * i]"
      and credential = "''AbCdEf-12345''"]
  show ?thesis by (auto split: sum.splits)
qed

end
