(* ===== verification/Settings.thy ===== *)
theory Settings
  imports Credential Resilience
begin

text \<open>
  The settings of the web client: the validity period of a file (\<open>web/src/file-ttl.ts\<close>), what
  \<open>web/src/runtime.ts\<close> and \<open>credential-style-settings.ts\<close> keep in \<open>localStorage\<close>, and the
  message shown for a caught value (\<open>format-error.ts\<close>). \<open>localStorage\<close> is a map in insertion
  order. Chinese texts are constructors, one for each text of the source.
\<close>

section \<open>File validity periods\<close>

definition MAX_FILE_TTL_SECONDS :: int where
  "MAX_FILE_TTL_SECONDS = 24 * 60 * 60"

definition DEFAULT_FILE_TTL_SECONDS :: int where
  "DEFAULT_FILE_TTL_SECONDS = 3600"

definition FILE_TTL_PRESETS_SECONDS :: "int list" where
  "FILE_TTL_PRESETS_SECONDS =
     [5 * 60, 10 * 60, 15 * 60, 20 * 60, 30 * 60, 60 * 60, 2 * 60 * 60, 4 * 60 * 60,
      6 * 60 * 60, 12 * 60 * 60, 18 * 60 * 60, 24 * 60 * 60]"

record DurationParts =
  hours :: int
  minutes :: int
  seconds :: int
  totalSeconds :: int

definition finite_trunc :: "int \<Rightarrow> jsnum \<Rightarrow> int" where
  "finite_trunc default_value n = (case n of Fin r \<Rightarrow> trunc_rat r | _ \<Rightarrow> default_value)"

text \<open>The scan for the nearest preset; \<open>None\<close> is the initial \<open>Infinity\<close>.\<close>

fun nearest_scan :: "int \<Rightarrow> (nat \<times> int) list \<Rightarrow> nat \<times> int option \<Rightarrow> nat \<times> int option" where
  "nearest_scan safe [] best = best"
| "nearest_scan safe ((i, preset) # rest) (bestIndex, bestDiff) =
     (let diff = \<bar>preset - safe\<bar> in
      nearest_scan safe rest
        (if (case bestDiff of None \<Rightarrow> True | Some d \<Rightarrow> diff < d) then (i, Some diff)
         else (bestIndex, bestDiff)))"

definition nearestFileTtlPresetIndex :: "jsnum \<Rightarrow> nat" where
  "nearestFileTtlPresetIndex total_seconds =
     (let safe = (if num_isFinite total_seconds then max 0 (finite_trunc 0 total_seconds)
                  else DEFAULT_FILE_TTL_SECONDS) in
      fst (nearest_scan safe (List.enumerate 0 FILE_TTL_PRESETS_SECONDS) (0, None)))"

text \<open>\<open>NaN\<close> survives the clamping and indexes nothing.\<close>

definition fileTtlPresetSecondsAt :: "jsnum \<Rightarrow> int option" where
  "fileTtlPresetSecondsAt index =
     (let last_index = int (length FILE_TTL_PRESETS_SECONDS) - 1 in
      case index of
        NaN \<Rightarrow> None
      | NegInf \<Rightarrow> Some (FILE_TTL_PRESETS_SECONDS ! 0)
      | PosInf \<Rightarrow> Some (FILE_TTL_PRESETS_SECONDS ! nat last_index)
      | Fin r \<Rightarrow> Some (FILE_TTL_PRESETS_SECONDS ! nat (max 0 (min last_index (trunc_rat r)))))"

definition clampDurationParts :: "jsnum \<Rightarrow> jsnum \<Rightarrow> jsnum \<Rightarrow> DurationParts" where
  "clampDurationParts hrs mins secs =
     (let h = max 0 (min 24 (finite_trunc 0 hrs));
          m = max 0 (min 59 (finite_trunc 0 mins));
          s = max 0 (min 59 (finite_trunc 0 secs));
          total_seconds = h * 3600 + m * 60 + s in
      if total_seconds > MAX_FILE_TTL_SECONDS then
        \<lparr> hours = 24, minutes = 0, seconds = 0, totalSeconds = MAX_FILE_TTL_SECONDS \<rparr>
      else \<lparr> hours = h, minutes = m, seconds = s, totalSeconds = total_seconds \<rparr>)"

definition durationPartsFromSeconds :: "jsnum \<Rightarrow> DurationParts" where
  "durationPartsFromSeconds total_seconds =
     (let safe = (if num_isFinite total_seconds
                  then max 0 (min MAX_FILE_TTL_SECONDS (finite_trunc 0 total_seconds))
                  else DEFAULT_FILE_TTL_SECONDS) in
      clampDurationParts (Fin (of_int (safe div 3600))) (Fin (of_int ((safe mod 3600) div 60)))
        (Fin (of_int (safe mod 60))))"

text \<open>The labels: minutes, hours, or hours, minutes and seconds.\<close>

datatype ttl_label = MinutesLabel int | HoursLabel int | FullLabel int int int

definition formatDurationLabel :: "jsnum \<Rightarrow> ttl_label" where
  "formatDurationLabel total_seconds =
     (let p = durationPartsFromSeconds total_seconds in
      FullLabel (hours p) (minutes p) (seconds p))"

text \<open>The quotients are exact: every preset is a multiple of a minute, the long ones of an hour.\<close>

definition formatFileTtlQuickLabel :: "jsnum \<Rightarrow> ttl_label" where
  "formatFileTtlQuickLabel total_seconds =
     (case find (\<lambda>s. Fin (of_int s) = total_seconds) FILE_TTL_PRESETS_SECONDS of
        Some s \<Rightarrow> if s < 3600 then MinutesLabel (s div 60) else HoursLabel (s div 3600)
      | None \<Rightarrow> formatDurationLabel total_seconds)"

section \<open>Stored settings\<close>

type_synonym storage = "(string, string) jsmap"

definition REGISTRY_URL_STORAGE_KEY :: string where
  "REGISTRY_URL_STORAGE_KEY = ''stateless-relay.registryUrl''"

definition FILE_TTL_SECONDS_STORAGE_KEY :: string where
  "FILE_TTL_SECONDS_STORAGE_KEY = ''stateless-relay.fileTtlSeconds''"

definition CREDENTIAL_STYLE_STORAGE_KEY :: string where
  "CREDENTIAL_STYLE_STORAGE_KEY = ''stateless-relay.credentialStyle''"

definition readStoredRegistryUrl :: "storage \<Rightarrow> string option" where
  "readStoredRegistryUrl store = (case jm_get store REGISTRY_URL_STORAGE_KEY of
     None \<Rightarrow> None
   | Some v \<Rightarrow> if v = [] \<or> trim v = [] then None else Some (trim v))"

definition saveStoredRegistryUrl :: "string \<Rightarrow> storage \<Rightarrow> storage" where
  "saveStoredRegistryUrl url = jm_set REGISTRY_URL_STORAGE_KEY (trim url)"

definition clearStoredRegistryUrl :: "storage \<Rightarrow> storage" where
  "clearStoredRegistryUrl = jm_delete REGISTRY_URL_STORAGE_KEY"

definition readStoredFileTtlSeconds :: "storage \<Rightarrow> int option" where
  "readStoredFileTtlSeconds store = (case jm_get store FILE_TTL_SECONDS_STORAGE_KEY of
     None \<Rightarrow> None
   | Some raw \<Rightarrow>
       if trim raw = [] then None
       else case parse_int raw of
         Fin r \<Rightarrow> if r < 1 then None else Some (min (trunc_rat r) (24 * 60 * 60))
       | _ \<Rightarrow> None)"

text \<open>\<open>Math.max(1, Math.trunc(seconds))\<close>, with \<open>NaN\<close> staying \<open>NaN\<close>.\<close>

definition at_least_one :: "jsnum \<Rightarrow> jsnum" where
  "at_least_one n = (case n of
     NaN \<Rightarrow> NaN | PosInf \<Rightarrow> PosInf | NegInf \<Rightarrow> Fin 1 | Fin r \<Rightarrow> Fin (of_int (max 1 (trunc_rat r))))"

definition saveStoredFileTtlSeconds :: "(rat \<Rightarrow> string) \<Rightarrow> jsnum \<Rightarrow> storage \<Rightarrow> storage" where
  "saveStoredFileTtlSeconds print secs =
     jm_set FILE_TTL_SECONDS_STORAGE_KEY (num_string print (at_least_one secs))"

definition clearStoredFileTtlSeconds :: "storage \<Rightarrow> storage" where
  "clearStoredFileTtlSeconds = jm_delete FILE_TTL_SECONDS_STORAGE_KEY"

definition getEffectiveFileTtlSeconds :: "storage \<Rightarrow> int" where
  "getEffectiveFileTtlSeconds store = (case readStoredFileTtlSeconds store of
     Some s \<Rightarrow> s | None \<Rightarrow> DEFAULT_FILE_TTL_SECONDS)"

text \<open>
  \<open>JSON.parse\<close> is the argument \<open>parse\<close>, \<open>None\<close> where it throws; \<open>JSON.stringify\<close> of the style is the
  argument \<open>stringify\<close>, applied to the object with the properties in declaration order.
\<close>

definition stored_flag :: "json \<Rightarrow> string \<Rightarrow> bool \<Rightarrow> bool" where
  "stored_flag record_json key default_value =
     (case jprop key record_json of Some (JBool b) \<Rightarrow> b | _ \<Rightarrow> default_value)"

definition readStoredCredentialStyle ::
    "(string \<Rightarrow> json option) \<Rightarrow> storage \<Rightarrow> CredentialStyleOptions" where
  "readStoredCredentialStyle parse store =
     (case jm_get store CREDENTIAL_STYLE_STORAGE_KEY of
        None \<Rightarrow> DEFAULT_CREDENTIAL_STYLE
      | Some raw \<Rightarrow>
          if raw = [] then DEFAULT_CREDENTIAL_STYLE
          else case parse raw of
            None \<Rightarrow> DEFAULT_CREDENTIAL_STYLE
          | Some parsed \<Rightarrow>
              if \<not> is_object parsed then DEFAULT_CREDENTIAL_STYLE
              else
                let flag = stored_flag parsed; d = DEFAULT_CREDENTIAL_STYLE;
                    firstSix = flag ''lettersOnlyFirstSix'' (lettersOnlyFirstSix d);
                    lastSix = flag ''lettersOnlyLastSix'' (lettersOnlyLastSix d) in
                \<lparr> includeUppercase = flag ''includeUppercase'' (includeUppercase d),
                  includeLowercase = flag ''includeLowercase'' (includeLowercase d),
                  allowAtMostOneHyphen =
                    flag ''allowAtMostOneHyphen'' (allowAtMostOneHyphen d),
                  lettersOnlyLastSix = lastSix \<and> \<not> firstSix,
                  lettersOnlyFirstSix = firstSix,
                  wordStyle = flag ''wordStyle'' (wordStyle d) \<rparr>)"

definition style_json :: "CredentialStyleOptions \<Rightarrow> json" where
  "style_json o1 = JObj
     [(''includeUppercase'', JBool (includeUppercase o1)),
      (''includeLowercase'', JBool (includeLowercase o1)),
      (''allowAtMostOneHyphen'', JBool (allowAtMostOneHyphen o1)),
      (''lettersOnlyLastSix'', JBool (lettersOnlyLastSix o1)),
      (''lettersOnlyFirstSix'', JBool (lettersOnlyFirstSix o1)),
      (''wordStyle'', JBool (wordStyle o1))]"

definition saveStoredCredentialStyle ::
    "(json \<Rightarrow> string) \<Rightarrow> CredentialStyleOptions \<Rightarrow> storage \<Rightarrow> storage" where
  "saveStoredCredentialStyle stringify options =
     jm_set CREDENTIAL_STYLE_STORAGE_KEY (stringify (style_json options))"

definition getEffectiveCredentialStyle ::
    "(string \<Rightarrow> json option) \<Rightarrow> storage \<Rightarrow> CredentialStyleOptions" where
  "getEffectiveCredentialStyle = readStoredCredentialStyle"

section \<open>Messages for caught values\<close>

text \<open>
  A caught value of unknown type: one of the thrown values, another object (does it carry a
  numeric \<open>excPtr\<close>, its \<open>message\<close> if that is a string), or anything else.
\<close>

datatype unknown =
    UThrown thrown
  | UObject bool "string option"
  | UOther

text \<open>The texts; \<open>Verbatim\<close> is the message itself.\<close>

datatype shown =
    PlacementExpired
  | RelayRefusedBody
  | UploadInterrupted
  | DecryptFailed
  | WasmInternalError
  | UnknownError
  | UnknownSeeConsole
  | Verbatim string

definition readMessage :: "unknown \<Rightarrow> string option" where
  "readMessage e = (case e of
     UObject _ (Some m) \<Rightarrow> if trim m \<noteq> [] then Some m else None
   | _ \<Rightarrow> None)"

definition isEmscriptenCppException :: "unknown \<Rightarrow> bool" where
  "isEmscriptenCppException e = (case e of UObject has_ptr _ \<Rightarrow> has_ptr | _ \<Rightarrow> False)"

definition enrichSmbDecryptMessage :: "string \<Rightarrow> shown" where
  "enrichSmbDecryptMessage message =
     (if \<not> str_includes message ''SMB integrity check failed'' \<and>
         \<not> str_includes message ''GCM authentication failed''
      then Verbatim message else DecryptFailed)"

text \<open>\<open>/\b413\b/\<close>: the digits with no word character on either side.\<close>

definition is_word_char :: "char \<Rightarrow> bool" where
  "is_word_char c \<longleftrightarrow> is_letter c \<or> is_digit c \<or> c = CHR ''_''"

fun has_413_from :: "bool \<Rightarrow> string \<Rightarrow> bool" where
  "has_413_from after_word [] = False"
| "has_413_from after_word (c # s) =
     (\<not> after_word \<and> starts_with (c # s) ''413'' \<and>
        (case drop 3 (c # s) of [] \<Rightarrow> True | d # _ \<Rightarrow> \<not> is_word_char d)
      \<or> has_413_from (is_word_char c) s)"

text \<open>
  The last alternative of the source, a Chinese word for network, can not occur in a Latin-1
  string.
\<close>

definition enrichUploadPutMessage :: "string \<Rightarrow> shown" where
  "enrichUploadPutMessage message =
     (if str_includes message ''HTTP 413'' \<or> has_413_from False message then RelayRefusedBody
      else if matches_any_ci [''Failed to fetch'', ''NetworkError'', ''Load failed''] message
      then UploadInterrupted
      else Verbatim message)"

text \<open>\<open>error.name\<close> of the error classes: never empty.\<close>

fun error_name :: "thrown \<Rightarrow> string" where
  "error_name (ErrorObj _) = ''Error''"
| "error_name (TypeErrorObj _) = ''TypeError''"
| "error_name (TokenPlacementExpiredError _) = ''TokenPlacementExpiredError''"
| "error_name (RegistryTokenOccupiedError _) = ''RegistryTokenOccupiedError''"
| "error_name (PutRetryExhaustedError _ _) = ''PutRetryExhaustedError''"
| "error_name (UploadPutError _ _ _) = ''UploadPutError''"
| "error_name (UploadTokenReservationExhaustedError _ _) = ''UploadTokenReservationExhaustedError''"
| "error_name (OtherThrow _) = []"

definition message_or_name :: "thrown \<Rightarrow> string option" where
  "message_or_name e = (if error_message e \<noteq> [] then Some (error_message e)
     else if error_name e \<noteq> [] then Some (error_name e) else None)"

definition formatUnknownError :: "unknown \<Rightarrow> shown" where
  "formatUnknownError error_value = (case error_value of
     UThrown (TokenPlacementExpiredError t) \<Rightarrow> PlacementExpired
   | UThrown (UploadPutError token attempts cause) \<Rightarrow>
       (case message_or_name (UploadPutError token attempts cause) of
          Some m \<Rightarrow> enrichUploadPutMessage m | None \<Rightarrow> UnknownError)
   | UThrown (OtherThrow s) \<Rightarrow> enrichSmbDecryptMessage s
   | UThrown e \<Rightarrow>
       (case message_or_name e of Some m \<Rightarrow> enrichSmbDecryptMessage m | None \<Rightarrow> UnknownError)
   | _ \<Rightarrow>
       if isEmscriptenCppException error_value then WasmInternalError
       else case readMessage error_value of
         Some m \<Rightarrow> enrichSmbDecryptMessage m
       | None \<Rightarrow> UnknownSeeConsole)"

section \<open>Lemmas\<close>

lemma presets: "FILE_TTL_PRESETS_SECONDS =
    [300, 600, 900, 1200, 1800, 3600, 7200, 14400, 21600, 43200, 64800, 86400]"
  by (simp add: FILE_TTL_PRESETS_SECONDS_def)

lemma finite_trunc_of_int [simp]: "finite_trunc d (Fin (of_int i)) = i"
  by (simp add: finite_trunc_def)

lemma MAX_TTL: "MAX_FILE_TTL_SECONDS = 86400"
  by (simp add: MAX_FILE_TTL_SECONDS_def)

lemma clamp_in_range:
  assumes "0 \<le> h" "h \<le> 24" "0 \<le> m" "m \<le> 59" "0 \<le> s" "s \<le> 59"
    "h * 3600 + m * 60 + s \<le> 86400"
  shows "clampDurationParts (Fin (of_int h)) (Fin (of_int m)) (Fin (of_int s)) =
    \<lparr> hours = h, minutes = m, seconds = s, totalSeconds = h * 3600 + m * 60 + s \<rparr>"
proof -
  have "max 0 (min 24 h) = h" "max 0 (min 59 m) = m" "max 0 (min 59 s) = s"
    using assms(1-6) by simp_all
  with assms(7) show ?thesis by (simp add: clampDurationParts_def MAX_TTL Let_def)
qed

lemma duration_bounds:
  assumes "0 \<le> (t::int)" "t \<le> 86400"
  shows "durationPartsFromSeconds (Fin (of_int t)) =
    \<lparr> hours = t div 3600, minutes = (t mod 3600) div 60, seconds = t mod 60, totalSeconds = t \<rparr>"
proof -
  have "t div 3600 \<le> 24" "0 \<le> t div 3600" using assms by auto
  moreover have "(t mod 3600) div 60 \<le> 59" "0 \<le> (t mod 3600) div 60" by auto
  moreover have "t mod 60 \<le> 59" "0 \<le> t mod 60" by auto
  moreover have "(t div 3600) * 3600 + ((t mod 3600) div 60) * 60 + t mod 60 = t"
  proof -
    have "t mod 60 = (t mod 3600) mod 60" by (simp add: mod_mod_cancel)
    then show ?thesis by (simp add: mult.commute)
  qed
  ultimately have "clampDurationParts (Fin (of_int (t div 3600)))
      (Fin (of_int ((t mod 3600) div 60))) (Fin (of_int (t mod 60)))
    = \<lparr> hours = t div 3600, minutes = (t mod 3600) div 60, seconds = t mod 60, totalSeconds = t \<rparr>"
    using clamp_in_range[of "t div 3600" "(t mod 3600) div 60" "t mod 60"] assms(2) by metis
  moreover have "max 0 (min MAX_FILE_TTL_SECONDS t) = t" using assms by (simp add: MAX_TTL)
  ultimately show ?thesis
    by (simp only: durationPartsFromSeconds_def Let_def num_isFinite_simps if_True
          finite_trunc_of_int)
qed

text \<open>The scan returns an index of minimal distance among the entries seen.\<close>

lemma nearest_scan_minimal:
  assumes "\<forall>(i, p) \<in> set seen. \<exists>d. snd best = Some d \<and> d \<le> \<bar>p - safe\<bar>"
    "snd best \<noteq> None \<Longrightarrow> \<exists>p. (fst best, p) \<in> set seen \<and> snd best = Some \<bar>p - safe\<bar>"
  shows "nearest_scan safe rest best = best' \<Longrightarrow>
    (\<forall>(i, p) \<in> set (seen @ rest). \<exists>d. snd best' = Some d \<and> d \<le> \<bar>p - safe\<bar>) \<and>
    (snd best' \<noteq> None \<longrightarrow> (\<exists>p. (fst best', p) \<in> set (seen @ rest) \<and> snd best' = Some \<bar>p - safe\<bar>))"
  using assms
proof (induction safe rest best arbitrary: seen rule: nearest_scan.induct)
  case (1 safe best)
  then show ?case by auto
next
  case (2 safe i preset rest bestIndex bestDiff)
  let ?best = "if (case bestDiff of None \<Rightarrow> True | Some d \<Rightarrow> \<bar>preset - safe\<bar> < d)
    then (i, Some \<bar>preset - safe\<bar>) else (bestIndex, bestDiff)"
  have a: "\<forall>(i, p) \<in> set (seen @ [(i, preset)]). \<exists>d. snd ?best = Some d \<and> d \<le> \<bar>p - safe\<bar>"
    using 2(3) by (fastforce split: option.splits if_splits)
  have b: "snd ?best \<noteq> None \<Longrightarrow>
      \<exists>p. (fst ?best, p) \<in> set (seen @ [(i, preset)]) \<and> snd ?best = Some \<bar>p - safe\<bar>"
    using 2(4) by (auto split: option.splits if_splits)
  have "nearest_scan safe rest ?best = best'" using 2(2) by (simp add: Let_def)
  from 2(1)[OF refl this a b] show ?case by simp
qed

lemma nearest_index:
  assumes "n = nearestFileTtlPresetIndex (Fin r)"
  shows "n < 12 \<and> (\<forall>p\<in>set FILE_TTL_PRESETS_SECONDS.
    \<bar>FILE_TTL_PRESETS_SECONDS ! n - max 0 (trunc_rat r)\<bar> \<le> \<bar>p - max 0 (trunc_rat r)\<bar>)"
proof -
  let ?P = FILE_TTL_PRESETS_SECONDS and ?safe = "max 0 (trunc_rat r)"
  obtain best where best: "nearest_scan ?safe (List.enumerate 0 ?P) (0, None) = best" by blast
  have n: "n = fst best"
    using assms best by (simp add: nearestFileTtlPresetIndex_def Let_def finite_trunc_def)
  have len: "length ?P = 12" by (simp add: presets)
  from nearest_scan_minimal[of "[]" "(0, None)" ?safe, OF _ _ best]
  have all: "\<forall>(i, p) \<in> set (List.enumerate 0 ?P). \<exists>d. snd best = Some d \<and> d \<le> \<bar>p - ?safe\<bar>"
    and mem: "snd best \<noteq> None \<longrightarrow>
      (\<exists>p. (fst best, p) \<in> set (List.enumerate 0 ?P) \<and> snd best = Some \<bar>p - ?safe\<bar>)"
    by simp_all
  have each: "\<exists>d. snd best = Some d \<and> d \<le> \<bar>p - ?safe\<bar>" if "p \<in> set ?P" for p
  proof -
    from that obtain i where "i < length ?P" "p = ?P ! i" by (metis in_set_conv_nth)
    then have "(i, p) \<in> set (List.enumerate 0 ?P)" by (simp add: in_set_enumerate_eq)
    with all show ?thesis by blast
  qed
  have "300 \<in> set ?P" by (simp add: presets)
  with each have "snd best \<noteq> None" by blast
  with mem obtain p where "(fst best, p) \<in> set (List.enumerate 0 ?P)" and d: "snd best = Some \<bar>p - ?safe\<bar>"
    by blast
  then have "n < 12" "p = ?P ! n" using n len by (auto simp: in_set_enumerate_eq)
  with each d show ?thesis by auto
qed

text \<open>Reading back a stored number.\<close>

lemma trillion_small: "of_nat n < (10 ^ 21 :: rat) \<Longrightarrow> of_nat n < num_overflow"
proof -
  have "(10 ^ 21 :: rat) < num_overflow" unfolding num_overflow_def by simp
  then show "of_nat n < (10 ^ 21 :: rat) \<Longrightarrow> of_nat n < num_overflow" by linarith
qed

lemma trim_dec: "trim (dec n) \<noteq> []"
proof -
  obtain c cs where "dec n = c # cs" "is_digit c" using dec_digits[of n] by (cases "dec n") auto
  then show ?thesis using digit_not_space[of c] by (simp add: trim_def dropWhile_append)
qed

lemma read_saved_ttl:
  assumes "1 \<le> k" "k < 10 ^ 21" "at_least_one secs = Fin (of_int k)"
  shows "readStoredFileTtlSeconds (saveStoredFileTtlSeconds print secs store)
    = Some (min k MAX_FILE_TTL_SECONDS)"
proof -
  obtain n where n: "k = int n" using assms(1) nonneg_int_cases[of k] by auto
  have small: "of_nat n < (10 ^ 21 :: rat)"
  proof -
    have "of_int k < (of_int (10 ^ 21) :: rat)" using assms(2) by (simp only: of_int_less_iff)
    then show ?thesis by (simp add: n)
  qed
  have "num_string print (Fin (of_int k)) = dec n"
    using small by (simp add: num_string_def dec_int_def n)
  then have "jm_get (saveStoredFileTtlSeconds print secs store) FILE_TTL_SECONDS_STORAGE_KEY
      = Some (dec n)"
    using assms(3) by (simp add: saveStoredFileTtlSeconds_def jm_get_set)
  moreover have "trunc_rat (of_nat n) = int n" using trunc_rat_of_int[of "int n"] by simp
  ultimately show ?thesis
    using parse_int_dec[OF trillion_small[OF small]] trim_dec[of n] assms(1) n
    by (simp add: readStoredFileTtlSeconds_def MAX_TTL)
qed

lemma clamp_shape:
  "\<exists>h m s. 0 \<le> h \<and> h \<le> 24 \<and> 0 \<le> m \<and> m \<le> 59 \<and> 0 \<le> s \<and> s \<le> 59 \<and> h * 3600 + m * 60 + s \<le> 86400 \<and>
     clampDurationParts a b c =
       \<lparr> hours = h, minutes = m, seconds = s, totalSeconds = h * 3600 + m * 60 + s \<rparr>"
proof -
  define h m s where "h = max 0 (min 24 (finite_trunc 0 a))"
    and "m = max 0 (min 59 (finite_trunc 0 b))" and "s = max 0 (min 59 (finite_trunc 0 c))"
  note hms = this
  have range: "0 \<le> h" "h \<le> 24" "0 \<le> m" "m \<le> 59" "0 \<le> s" "s \<le> 59" by (simp_all add: hms)
  have eq: "clampDurationParts a b c = (if h * 3600 + m * 60 + s > 86400
      then \<lparr> hours = 24, minutes = 0, seconds = 0, totalSeconds = 86400 \<rparr>
      else \<lparr> hours = h, minutes = m, seconds = s, totalSeconds = h * 3600 + m * 60 + s \<rparr>)"
    unfolding clampDurationParts_def MAX_TTL Let_def hms by (rule refl)
  show ?thesis
  proof (cases "h * 3600 + m * 60 + s \<le> 86400")
    case True
    with range eq show ?thesis by (intro exI[of _ h] exI[of _ m] exI[of _ s]) simp
  next
    case False
    with eq show ?thesis by (intro exI[of _ 24] exI[of _ 0] exI[of _ 0]) simp
  qed
qed

lemma div_parts:
  assumes "0 \<le> (m::int)" "m \<le> 59" "0 \<le> s" "s \<le> 59"
  shows "(h * 3600 + m * 60 + s) div 3600 = h" "((h * 3600 + m * 60 + s) mod 3600) div 60 = m"
    "(h * 3600 + m * 60 + s) mod 60 = s"
proof -
  have r: "(h * 3600 + m * 60 + s) mod 3600 = m * 60 + s"
  proof -
    have "(m * 60 + s) mod 3600 = m * 60 + s" using assms by (intro mod_pos_pos_trivial) simp_all
    then show ?thesis by (simp add: mod_mult_self3 add.assoc)
  qed
  have "(m * 60 + s) div 3600 = 0" using assms by (intro div_pos_pos_trivial) simp_all
  then show "(h * 3600 + m * 60 + s) div 3600 = h" by (simp add: add.assoc)
  have "(m * 60 + s) div 60 = m + s div 60" by simp
  also have "s div 60 = 0" using assms by (intro div_pos_pos_trivial) simp_all
  finally show "((h * 3600 + m * 60 + s) mod 3600) div 60 = m" by (simp only: r)
  have "h * 3600 + m * 60 + s = s + (h * 60 + m) * 60" by simp
  moreover have "s mod 60 = s" using assms by (intro mod_pos_pos_trivial) simp_all
  ultimately show "(h * 3600 + m * 60 + s) mod 60 = s" by (metis mod_mult_self1)
qed

section \<open>Properties\<close>

text \<open>The duration form of the settings is lossless: whatever numbers its three fields hold
  (fractions, infinities and NaN included), the clamped parts lie in their ranges, add up to
  their total of at most a day, and reading that total back gives the same parts; a total
  between 0 and a day is the total of the parts it is split into.\<close>

theorem ttl_parts_roundtrip:
  "let p = clampDurationParts a b c in
     durationPartsFromSeconds (Fin (of_int (totalSeconds p))) = p \<and>
     totalSeconds p = hours p * 3600 + minutes p * 60 + seconds p \<and>
     0 \<le> totalSeconds p \<and> totalSeconds p \<le> MAX_FILE_TTL_SECONDS \<and>
     hours p \<in> {0..24} \<and> minutes p \<in> {0..59} \<and> seconds p \<in> {0..59} \<and>
     totalSeconds (durationPartsFromSeconds (Fin r)) = max 0 (min MAX_FILE_TTL_SECONDS (trunc_rat r))"
proof -
  obtain h m s where p: "0 \<le> h" "h \<le> 24" "0 \<le> m" "m \<le> 59" "0 \<le> s" "s \<le> 59"
      "h * 3600 + m * 60 + s \<le> 86400" "clampDurationParts a b c =
        \<lparr> hours = h, minutes = m, seconds = s, totalSeconds = h * 3600 + m * 60 + s \<rparr>"
    using clamp_shape by blast
  have "durationPartsFromSeconds (Fin (of_int (h * 3600 + m * 60 + s))) = clampDurationParts a b c"
    using p by (subst duration_bounds) (simp_all add: div_parts)
  moreover have "durationPartsFromSeconds (Fin r) =
      durationPartsFromSeconds (Fin (of_int (max 0 (min MAX_FILE_TTL_SECONDS (trunc_rat r)))))"
    by (simp add: durationPartsFromSeconds_def finite_trunc_def MAX_TTL Let_def)
  then have "totalSeconds (durationPartsFromSeconds (Fin r))
      = max 0 (min MAX_FILE_TTL_SECONDS (trunc_rat r))"
    by (simp add: duration_bounds MAX_TTL)
  ultimately show ?thesis using p by (simp add: MAX_TTL Let_def)
qed

text \<open>The preset slider picks, for every finite number of seconds, one of the twelve presets
  at minimal distance from it, so a preset is picked for itself.\<close>

theorem ttl_preset_nearest:
  "\<exists>p. fileTtlPresetSecondsAt (Fin (of_nat (nearestFileTtlPresetIndex (Fin r)))) = Some p \<and>
     p \<in> set FILE_TTL_PRESETS_SECONDS \<and>
     list_all (\<lambda>q. \<bar>p - max 0 (trunc_rat r)\<bar> \<le> \<bar>q - max 0 (trunc_rat r)\<bar>) FILE_TTL_PRESETS_SECONDS \<and>
     (List.member FILE_TTL_PRESETS_SECONDS (trunc_rat r) \<longrightarrow> p = trunc_rat r)"
proof -
  let ?n = "nearestFileTtlPresetIndex (Fin r)" and ?P = FILE_TTL_PRESETS_SECONDS
  have n: "?n < 12" and near: "\<And>q. q \<in> set ?P \<Longrightarrow>
      \<bar>?P ! ?n - max 0 (trunc_rat r)\<bar> \<le> \<bar>q - max 0 (trunc_rat r)\<bar>"
    using nearest_index[OF refl] by blast+
  have len: "length ?P = 12" by (simp add: presets)
  have "trunc_rat (of_nat ?n) = int ?n" using trunc_rat_of_int[of "int ?n"] by simp
  then have at: "fileTtlPresetSecondsAt (Fin (of_nat ?n)) = Some (?P ! ?n)"
    using n len by (simp add: fileTtlPresetSecondsAt_def Let_def)
  have self: "?P ! ?n = trunc_rat r" if mem: "trunc_rat r \<in> set ?P"
  proof -
    have "0 < trunc_rat r" using mem by (auto simp: presets)
    with near[OF mem] show ?thesis by simp
  qed
  have "?P ! ?n \<in> set ?P" using n len by simp
  with at near self show ?thesis by (simp add: list_all_iff)
qed

text \<open>Saving a validity period and reading it back gives the whole seconds of it, at least one
  and at most a day, for every number below \<open>10^21\<close>; whatever the storage holds, the period in
  force lies between one second and a day, and saving it leaves the stored registry URL alone.\<close>

theorem ttl_storage_roundtrip:
  assumes "r < 10 ^ 21"
  shows "getEffectiveFileTtlSeconds (saveStoredFileTtlSeconds print (Fin r) store)
      = min (max 1 (trunc_rat r)) MAX_FILE_TTL_SECONDS \<and>
    1 \<le> getEffectiveFileTtlSeconds store \<and> getEffectiveFileTtlSeconds store \<le> MAX_FILE_TTL_SECONDS \<and>
    readStoredRegistryUrl (saveStoredFileTtlSeconds print (Fin r) store) = readStoredRegistryUrl store"
proof -
  have small: "max 1 (trunc_rat r) < 10 ^ 21"
  proof (cases "0 \<le> r")
    case True
    then have "(of_int (trunc_rat r) :: rat) < of_int (10 ^ 21)" using trunc_rat_le[of r] assms by simp
    then show ?thesis by (simp only: of_int_less_iff) simp
  next
    case False
    then have "trunc_rat r \<le> 0" by (simp add: trunc_rat_def ceiling_le_zero)
    then show ?thesis by simp
  qed
  have "readStoredFileTtlSeconds (saveStoredFileTtlSeconds print (Fin r) store)
      = Some (min (max 1 (trunc_rat r)) MAX_FILE_TTL_SECONDS)"
    using small by (intro read_saved_ttl) (simp_all add: at_least_one_def)
  moreover have "1 \<le> s \<and> s \<le> MAX_FILE_TTL_SECONDS" if "readStoredFileTtlSeconds store = Some s" for s
  proof -
    have "1 \<le> trunc_rat q" if "\<not> q < 1" for q
      using that by (simp add: trunc_rat_def le_floor_iff)
    with that show ?thesis
      by (auto simp: readStoredFileTtlSeconds_def MAX_TTL
          split: option.splits if_splits jsnum.splits)
  qed
  moreover have "REGISTRY_URL_STORAGE_KEY \<noteq> FILE_TTL_SECONDS_STORAGE_KEY"
    by (simp add: REGISTRY_URL_STORAGE_KEY_def FILE_TTL_SECONDS_STORAGE_KEY_def)
  then have "readStoredRegistryUrl (saveStoredFileTtlSeconds print (Fin r) store)
      = readStoredRegistryUrl store"
    by (simp add: readStoredRegistryUrl_def saveStoredFileTtlSeconds_def jm_get_set)
  ultimately show ?thesis
    by (auto simp: getEffectiveFileTtlSeconds_def DEFAULT_FILE_TTL_SECONDS_def MAX_TTL
        split: option.splits)
qed

theorem ttl_storage_roundtrip_witness:
  "getEffectiveFileTtlSeconds (saveStoredFileTtlSeconds (\<lambda>_. ''1e21'') (Fin 7200) []) = 7200"
  using ttl_storage_roundtrip[of 7200 "\<lambda>_. ''1e21''" "[]"] by (simp add: MAX_TTL)

text \<open>A saved credential style is read back unchanged if it is not the contradictory one with
  both halves letters only, given that \<open>JSON.parse\<close> undoes \<open>JSON.stringify\<close> on it and its JSON
  text is not empty; whatever is stored, the style read never has both halves letters only, so its
  validation can only complain about missing letters.\<close>

theorem style_storage_roundtrip:
  assumes "parse (stringify (style_json options)) = Some (style_json options)"
    "stringify (style_json options) \<noteq> []"
  shows "(\<not> (lettersOnlyFirstSix options \<and> lettersOnlyLastSix options) \<longrightarrow>
      readStoredCredentialStyle parse (saveStoredCredentialStyle stringify options store) = options) \<and>
    validateCredentialStyle (readStoredCredentialStyle parse store) \<noteq> Some BothHalvesLettersOnly"
proof -
  have "readStoredCredentialStyle parse (saveStoredCredentialStyle stringify options store)
      = options\<lparr>lettersOnlyLastSix := lettersOnlyLastSix options \<and> \<not> lettersOnlyFirstSix options\<rparr>"
    using assms by (simp add: readStoredCredentialStyle_def saveStoredCredentialStyle_def jm_get_set
        style_json_def stored_flag_def Let_def)
  then have "readStoredCredentialStyle parse (saveStoredCredentialStyle stringify options store) = options"
    if "\<not> (lettersOnlyFirstSix options \<and> lettersOnlyLastSix options)"
    using that by (cases options) auto
  moreover have "\<not> (lettersOnlyFirstSix (readStoredCredentialStyle parse store) \<and>
      lettersOnlyLastSix (readStoredCredentialStyle parse store))"
    by (simp add: readStoredCredentialStyle_def DEFAULT_CREDENTIAL_STYLE_def Let_def
        split: option.split)
  ultimately show ?thesis by (auto simp: validateCredentialStyle_def)
qed

definition flags_stringify :: "json \<Rightarrow> string" where
  "flags_stringify j = map (\<lambda>(k, v). if v = JBool True then CHR ''1'' else CHR ''0'') (obj_entries j)"

definition flags_parse :: "string \<Rightarrow> json option" where
  "flags_parse s = Some (JObj (zip (map fst (obj_entries (style_json DEFAULT_CREDENTIAL_STYLE)))
     (map (\<lambda>c. JBool (c = CHR ''1'')) s)))"

theorem style_storage_roundtrip_witness:
  "readStoredCredentialStyle flags_parse (saveStoredCredentialStyle flags_stringify
     (DEFAULT_CREDENTIAL_STYLE\<lparr>lettersOnlyFirstSix := True, wordStyle := True\<rparr>) [])
   = DEFAULT_CREDENTIAL_STYLE\<lparr>lettersOnlyFirstSix := True, wordStyle := True\<rparr>"
  using style_storage_roundtrip[of flags_parse flags_stringify
      "DEFAULT_CREDENTIAL_STYLE\<lparr>lettersOnlyFirstSix := True, wordStyle := True\<rparr>" "[]"]
  by (simp add: flags_parse_def flags_stringify_def style_json_def DEFAULT_CREDENTIAL_STYLE_def)

end
