(* ===== verification/Config.thy ===== *)
theory Config
  imports Settings Receive
begin

text \<open>
  Configuration: \<open>transfer/src/config/\<close> (validation of the JSON document, the registry's base
  URL, finding and loading the document, the client stack built from it) and what
  \<open>web/src/runtime.ts\<close> makes of it. \<open>process.env\<close> is part of the runtime environment of
  \<open>Sizes\<close>; path arithmetic, file access and \<open>fetch\<close> are arguments. Undefined properties are
  \<open>None\<close>.
\<close>

section \<open>The configuration document\<close>

datatype port_value = PortNum jsnum | PortStr string

record RegistryConfig =
  cfg_url :: "string option"
  cfg_host :: "string option"
  cfg_port :: "port_value option"
  cfg_scheme :: "string option"
  cfg_headers :: "(string, string) jsmap option"
  cfg_coalesce :: "bool option"

record RelayFleetConfig =
  maxBodyBytes :: "int option"

record TransferConfig =
  cfg_registry :: RegistryConfig
  cfg_relay :: "RelayFleetConfig option"

definition DEFAULT_CONFIG_FILENAME :: string where
  "DEFAULT_CONFIG_FILENAME = ''relay.config.json''"

definition empty_registry_config :: RegistryConfig where
  "empty_registry_config = \<lparr> cfg_url = None, cfg_host = None, cfg_port = None, cfg_scheme = None,
     cfg_headers = None, cfg_coalesce = None \<rparr>"

definition normalizeBaseUrl :: "string \<Rightarrow> string" where
  "normalizeBaseUrl = strip_slash"

definition readEnv :: "runtime_env \<Rightarrow> string \<Rightarrow> string option" where
  "readEnv env name = env_vars env name"

text \<open>\<open>print\<close> prints the numbers that are no integers below \<open>10^21\<close>.\<close>

definition formatPort :: "(rat \<Rightarrow> string) \<Rightarrow> port_value option \<Rightarrow> string" where
  "formatPort print p = (case p of
     None \<Rightarrow> []
   | Some (PortStr s) \<Rightarrow> if s = [] then [] else CHR '':'' # s
   | Some (PortNum n) \<Rightarrow> CHR '':'' # num_string print n)"

definition nonempty :: "string option \<Rightarrow> string option" where
  "nonempty v = (case v of Some s \<Rightarrow> if s \<noteq> [] then Some s else None | None \<Rightarrow> None)"

definition resolveRegistryBaseUrl ::
    "(rat \<Rightarrow> string) \<Rightarrow> runtime_env \<Rightarrow> RegistryConfig \<Rightarrow> string res" where
  "resolveRegistryBaseUrl print env registry =
     (case nonempty (readEnv env ''STATELESS_RELAY_REGISTRY_URL'') of
        Some envUrl \<Rightarrow> Inr (normalizeBaseUrl envUrl)
      | None \<Rightarrow>
     (case nonempty (cfg_url registry) of
        Some u \<Rightarrow> Inr (normalizeBaseUrl u)
      | None \<Rightarrow>
     (case nonempty (cfg_host registry) of
        Some host_name \<Rightarrow>
          let scheme = default_to (nonempty (cfg_scheme registry)) ''http'';
              portSuffix = formatPort print (cfg_port registry) in
          Inr (normalizeBaseUrl (scheme @ ''://'' @ host_name @ portSuffix))
      | None \<Rightarrow>
          Inl (ErrorObj ''registry config requires \"url\" or \"host\" (optional \"port\", \"scheme\")''))))"

text \<open>A property that must be absent or a non-empty string.\<close>

definition nonempty_string_prop :: "json \<Rightarrow> string \<Rightarrow> string option res" where
  "nonempty_string_prop registry name = (case jprop name registry of
     None \<Rightarrow> Inr None
   | Some (JStr s) \<Rightarrow>
       if s = [] then Inl (ErrorObj (''registry.'' @ name @ '' must be a non-empty string''))
       else Inr (Some s)
   | Some _ \<Rightarrow> Inl (ErrorObj (''registry.'' @ name @ '' must be a non-empty string'')))"

definition port_prop :: "json \<Rightarrow> port_value option res" where
  "port_prop registry = (case jprop ''port'' registry of
     None \<Rightarrow> Inr None
   | Some (JNum n) \<Rightarrow> Inr (Some (PortNum n))
   | Some (JStr s) \<Rightarrow> Inr (Some (PortStr s))
   | Some _ \<Rightarrow> Inl (ErrorObj ''registry.port must be a number or string''))"

text \<open>Assigning a string to \<open>headers.__proto__\<close> is ignored by JavaScript.\<close>

fun parseHeaders_loop :: "(string \<times> json) list \<Rightarrow> (string, string) jsmap \<Rightarrow> (string, string) jsmap res" where
  "parseHeaders_loop [] headers = Inr headers"
| "parseHeaders_loop ((key, headerValue) # rest) headers = (case headerValue of
     JStr s \<Rightarrow> parseHeaders_loop rest
       (if key = ''__proto__'' then headers else jm_set key s headers)
   | _ \<Rightarrow> Inl (ErrorObj (''registry.headers.'' @ key @ '' must be a string'')))"

definition parseHeaders :: "json \<Rightarrow> (string, string) jsmap res" where
  "parseHeaders value = (case value of
     JObj kvs \<Rightarrow> parseHeaders_loop kvs []
   | _ \<Rightarrow> Inl (ErrorObj ''registry.headers must be an object''))"

definition headers_prop :: "json \<Rightarrow> (string, string) jsmap option res" where
  "headers_prop registry = (case jprop ''headers'' registry of
     None \<Rightarrow> Inr None
   | Some v \<Rightarrow> rbind (parseHeaders v) (\<lambda>h. Inr (Some h)))"

definition coalesce_prop :: "json \<Rightarrow> bool option res" where
  "coalesce_prop registry = (case jprop ''coalesce'' registry of
     None \<Rightarrow> Inr None
   | Some (JBool b) \<Rightarrow> Inr (Some b)
   | Some _ \<Rightarrow> Inl (ErrorObj ''registry.coalesce must be a boolean''))"

definition parseRelayFleetConfig :: "json option \<Rightarrow> RelayFleetConfig option res" where
  "parseRelayFleetConfig value = (case value of
     None \<Rightarrow> Inr None
   | Some (JObj kvs) \<Rightarrow>
       (case map_of kvs ''maxBodyBytes'' of
          None \<Rightarrow> Inr (Some \<lparr> maxBodyBytes = None \<rparr>)
        | Some v \<Rightarrow>
            (case v of
               JNum (Fin r) \<Rightarrow>
                 if r \<le> 0 then Inl (ErrorObj ''relay.maxBodyBytes must be a positive finite number'')
                 else Inr (Some \<lparr> maxBodyBytes = Some (trunc_rat r) \<rparr>)
             | _ \<Rightarrow> Inl (ErrorObj ''relay.maxBodyBytes must be a positive finite number'')))
   | Some _ \<Rightarrow> Inl (ErrorObj ''transfer config \"relay\" must be an object''))"

definition parseTransferConfig ::
    "(rat \<Rightarrow> string) \<Rightarrow> runtime_env \<Rightarrow> json \<Rightarrow> TransferConfig res" where
  "parseTransferConfig print env value =
     throw_if (\<not> is_object value) (ErrorObj ''transfer config root must be an object'')
    (case opt_object (jprop ''registry'' value) of
       None \<Rightarrow> Inl (ErrorObj ''transfer config missing \"registry\" object'')
     | Some registry \<Rightarrow>
     rbind (nonempty_string_prop registry ''url'') (\<lambda>u.
     rbind (nonempty_string_prop registry ''host'') (\<lambda>h.
     rbind (port_prop registry) (\<lambda>p.
     rbind (nonempty_string_prop registry ''scheme'') (\<lambda>s.
     rbind (headers_prop registry) (\<lambda>hs.
     rbind (coalesce_prop registry) (\<lambda>c.
       let config = \<lparr> cfg_url = u, cfg_host = h, cfg_port = p, cfg_scheme = s, cfg_headers = hs,
                      cfg_coalesce = c \<rparr> in
       throw_if (u = None \<and> h = None \<and> readEnv env ''STATELESS_RELAY_REGISTRY_URL'' = None)
         (ErrorObj (''registry config requires \"url\" or \"host\", or set '' @
                    ''STATELESS_RELAY_REGISTRY_URL''))
       (rbind (resolveRegistryBaseUrl print env config) (\<lambda>_.
        rbind (parseRelayFleetConfig (jprop ''relay'' value)) (\<lambda>relay.
        Inr \<lparr> cfg_registry = config, cfg_relay = relay \<rparr>))))))))))"

section \<open>Loading\<close>

text \<open>\<open>loadTransferConfigFromUrl\<close>; the response is the one of the registry client.\<close>

definition loadTransferConfigFromUrl ::
    "(rat \<Rightarrow> string) \<Rightarrow> runtime_env \<Rightarrow> (string \<Rightarrow> ('w, http_response) act) \<Rightarrow> string \<Rightarrow>
     ('w, TransferConfig) act" where
  "loadTransferConfigFromUrl print env fetchFn configUrl =
     abind (fetchFn configUrl) (\<lambda>response.
       alift (if \<not> response_ok response
              then Inl (ErrorObj (''failed to load transfer config from '' @ configUrl @ '': HTTP '' @
                     dec (re_status response)))
              else rbind (re_json response) (parseTransferConfig print env)))"

text \<open>
  What Node offers to the loader: the environment variables, the working directory, the package
  root, the path functions, which files exist and what reading and parsing a file gives.
\<close>

record node_env =
  node_cwd :: string
  node_packageRoot :: string
  node_isAbsolute :: "string \<Rightarrow> bool"
  node_resolve :: "string \<Rightarrow> string \<Rightarrow> string"
  node_join :: "string \<Rightarrow> string \<Rightarrow> string"
  node_exists :: "string \<Rightarrow> bool"
  node_readJson :: "string \<Rightarrow> json res"

definition fileExists :: "node_env \<Rightarrow> string \<Rightarrow> bool" where
  "fileExists node path = node_exists node path"

definition packageConfigCandidates :: "node_env \<Rightarrow> string list" where
  "packageConfigCandidates node = [node_join node (node_packageRoot node) DEFAULT_CONFIG_FILENAME]"

definition absolute :: "node_env \<Rightarrow> string \<Rightarrow> string" where
  "absolute node path =
     (if node_isAbsolute node path then path else node_resolve node (node_cwd node) path)"

definition resolveConfigPath :: "node_env \<Rightarrow> runtime_env \<Rightarrow> string option \<Rightarrow> string res" where
  "resolveConfigPath node env explicitPath =
     (case explicitPath of
        Some path \<Rightarrow> Inr (absolute node path)
      | None \<Rightarrow>
     (case nonempty (env_vars env ''STATELESS_RELAY_CONFIG'') of
        Some envPath \<Rightarrow> Inr (absolute node envPath)
      | None \<Rightarrow>
     (case find (fileExists node)
             (node_resolve node (node_cwd node) DEFAULT_CONFIG_FILENAME # packageConfigCandidates node) of
        Some candidate \<Rightarrow> Inr candidate
      | None \<Rightarrow> Inl (ErrorObj (''transfer config not found; create '' @ DEFAULT_CONFIG_FILENAME @
          '' in the working directory (see relay.config.example.json) or set STATELESS_RELAY_CONFIG'')))))"

definition loadTransferConfigFromFile ::
    "(rat \<Rightarrow> string) \<Rightarrow> node_env \<Rightarrow> runtime_env \<Rightarrow> string \<Rightarrow> TransferConfig res" where
  "loadTransferConfigFromFile print node env configPath =
     rbind (node_readJson node (absolute node configPath)) (parseTransferConfig print env)"

definition loadTransferConfig ::
    "(rat \<Rightarrow> string) \<Rightarrow> node_env \<Rightarrow> runtime_env \<Rightarrow> string option \<Rightarrow> TransferConfig res" where
  "loadTransferConfig print node env configPath =
     rbind (resolveConfigPath node env configPath) (loadTransferConfigFromFile print node env)"

section \<open>The client stack\<close>

text \<open>
  The objects the stack consists of, by what they were constructed with; all share the same
  \<open>fetch\<close>. Routers hold a registry client, the receive transport holds the router.
\<close>

datatype registry_client =
    HttpRegistryClient http_registry_options
  | CoalescingRegistryClient registry_client

record relay_stack =
  stack_registry :: registry_client
  stack_router :: registry_client
  stack_receiveTransport :: "registry_client \<times> receive_config"
  stack_rejectNonOk :: bool
  stack_forceFetchPutFallback :: bool

definition createRegistryClientFromConfig ::
    "(rat \<Rightarrow> string) \<Rightarrow> runtime_env \<Rightarrow> TransferConfig \<Rightarrow> registry_client res" where
  "createRegistryClientFromConfig print env config =
     rbind (resolveRegistryBaseUrl print env (cfg_registry config)) (\<lambda>base.
       let client = HttpRegistryClient \<lparr> ho_registryBaseUrl = base,
             ho_headers = map (\<lambda>(k, v). (k, JStr v)) (default_to (cfg_headers (cfg_registry config)) []),
             ho_resolveUrl = None, ho_buildResolveRequestBody = None, ho_parseResponse = None \<rparr> in
       Inr (if default_to (cfg_coalesce (cfg_registry config)) True
            then CoalescingRegistryClient client else client))"

definition createRelayRouterFromConfig ::
    "(rat \<Rightarrow> string) \<Rightarrow> runtime_env \<Rightarrow> TransferConfig \<Rightarrow> registry_client option \<Rightarrow> registry_client res" where
  "createRelayRouterFromConfig print env config registry =
     (case registry of Some r \<Rightarrow> Inr r
      | None \<Rightarrow> createRegistryClientFromConfig print env config)"

definition createRelayStackFromConfig ::
    "(rat \<Rightarrow> string) \<Rightarrow> runtime_env \<Rightarrow> TransferConfig \<Rightarrow> relay_stack res" where
  "createRelayStackFromConfig print env config =
     rbind (createRegistryClientFromConfig print env config) (\<lambda>registry.
     rbind (createRelayRouterFromConfig print env config (Some registry)) (\<lambda>router.
     Inr \<lparr> stack_registry = registry, stack_router = router,
           stack_receiveTransport = (router, receive_config_new None None None None None),
           stack_rejectNonOk = True, stack_forceFetchPutFallback = False \<rparr>))"

section \<open>The runtime of the web client\<close>

text \<open>
  \<open>loadEffectiveConfig\<close>: the bundled document under \<open>file:\<close>, the fetched one otherwise, with the
  stored registry URL over it.
\<close>

definition loadEffectiveConfig ::
    "(rat \<Rightarrow> string) \<Rightarrow> runtime_env \<Rightarrow> string \<Rightarrow> json \<Rightarrow> (string \<Rightarrow> ('w, http_response) act) \<Rightarrow> string \<Rightarrow>
     storage \<Rightarrow> ('w, TransferConfig) act" where
  "loadEffectiveConfig print env location_protocol bundled fetchFn assetUrl store =
     abind (if location_protocol = ''file:'' then alift (parseTransferConfig print env bundled)
            else loadTransferConfigFromUrl print env fetchFn assetUrl) (\<lambda>config.
       areturn (case readStoredRegistryUrl store of
         Some storedUrl \<Rightarrow> config\<lparr>cfg_registry := (cfg_registry config)\<lparr>cfg_url := Some storedUrl\<rparr>\<rparr>
       | None \<Rightarrow> config))"

record 'c client_runtime =
  rt_twelveC :: 'c
  rt_stack :: relay_stack
  rt_registryUrl :: string
  rt_relayMaxBodyBytes :: int

definition relay_limit :: "TransferConfig \<Rightarrow> int res" where
  "relay_limit config = resolveRelayMaxBodyBytes (case cfg_relay config of
     None \<Rightarrow> None | Some fleet \<Rightarrow> map_option (\<lambda>m. Fin (of_int m)) (maxBodyBytes fleet))"

definition createClientRuntime ::
    "(rat \<Rightarrow> string) \<Rightarrow> runtime_env \<Rightarrow> ('w, 'c) act \<Rightarrow> TransferConfig \<Rightarrow> ('w, 'c client_runtime) act" where
  "createClientRuntime print env loadTwelveCClient config =
     abind loadTwelveCClient (\<lambda>twelveC.
       alift (rbind (createRelayStackFromConfig print env config) (\<lambda>stack.
              rbind (resolveRegistryBaseUrl print env (cfg_registry config)) (\<lambda>base.
              rbind (relay_limit config) (\<lambda>limit.
              Inr \<lparr> rt_twelveC = twelveC, rt_stack = stack, rt_registryUrl = base,
                    rt_relayMaxBodyBytes = limit \<rparr>)))))"

definition bootstrapClientRuntime ::
    "(rat \<Rightarrow> string) \<Rightarrow> runtime_env \<Rightarrow> string \<Rightarrow> json \<Rightarrow> (string \<Rightarrow> ('w, http_response) act) \<Rightarrow> string \<Rightarrow>
     storage \<Rightarrow> ('w, 'c) act \<Rightarrow> ('w, 'c client_runtime) act" where
  "bootstrapClientRuntime print env location_protocol bundled fetchFn assetUrl store loadTwelveCClient =
     abind (loadEffectiveConfig print env location_protocol bundled fetchFn assetUrl store)
       (createClientRuntime print env loadTwelveCClient)"

section \<open>Lemmas\<close>

lemma nonempty_simps [simp]: "nonempty None = None" "nonempty (Some []) = None"
  "nonempty (Some (c # s)) = Some (c # s)"
  by (simp_all add: nonempty_def)

lemma nonempty_string_prop_Inr:
  "nonempty_string_prop registry name = Inr v \<Longrightarrow>
     jprop name registry = map_option JStr v \<and> v \<noteq> Some []"
  by (auto simp: nonempty_string_prop_def split: option.splits json.splits if_splits)

lemma port_prop_Inr:
  "port_prop registry = Inr v \<Longrightarrow> jprop ''port'' registry =
     map_option (\<lambda>p. case p of PortNum n \<Rightarrow> JNum n | PortStr s \<Rightarrow> JStr s) v"
  by (auto simp: port_prop_def split: option.splits json.splits)

lemma coalesce_prop_Inr:
  "coalesce_prop registry = Inr v \<Longrightarrow> jprop ''coalesce'' registry = map_option JBool v"
  by (auto simp: coalesce_prop_def split: option.splits json.splits)

text \<open>Headers that were parsed have distinct keys other than \<open>__proto__\<close>, and parse to themselves.\<close>

definition headers_ok :: "(string, string) jsmap \<Rightarrow> bool" where
  "headers_ok h \<longleftrightarrow> jm_wf h \<and> ''__proto__'' \<notin> set (jm_keys h)"

lemma parseHeaders_loop_ok:
  "parseHeaders_loop kvs h0 = Inr h \<Longrightarrow> headers_ok h0 \<Longrightarrow> headers_ok h"
proof (induction kvs h0 rule: parseHeaders_loop.induct)
  case (2 key v rest h0)
  then show ?case
    by (cases v) (auto simp: headers_ok_def split: if_splits)
qed simp

lemma parseHeaders_loop_self:
  "headers_ok (h0 @ h) \<Longrightarrow> parseHeaders_loop (map (\<lambda>(k, v). (k, JStr v)) h) h0 = Inr (h0 @ h)"
proof (induction h arbitrary: h0)
  case (Cons kv h)
  obtain k v where kv: "kv = (k, v)" by (cases kv)
  have "jm_set k v h0 = h0 @ [(k, v)]"
    using Cons.prems by (intro jm_set_new) (auto simp: headers_ok_def jm_wf_def kv)
  moreover have "k \<noteq> ''__proto__''" using Cons.prems by (auto simp: headers_ok_def kv)
  ultimately show ?case using Cons.IH[of "h0 @ [(k, v)]"] Cons.prems by (simp add: kv)
qed simp

lemma headers_prop_ok: "headers_prop registry = Inr (Some h) \<Longrightarrow> headers_ok h"
proof -
  assume "headers_prop registry = Inr (Some h)"
  then obtain kvs where "parseHeaders_loop kvs [] = Inr h"
    by (auto simp: headers_prop_def parseHeaders_def rbind_Inr_iff split: option.splits json.splits)
  then show ?thesis by (rule parseHeaders_loop_ok) (simp add: headers_ok_def jm_wf_def)
qed

lemma parseTransferConfig_Inr:
  assumes "parseTransferConfig print env value = Inr cfg"
  shows "\<exists>registry base. opt_object (jprop ''registry'' value) = Some registry \<and>
    nonempty_string_prop registry ''url'' = Inr (cfg_url (cfg_registry cfg)) \<and>
    nonempty_string_prop registry ''host'' = Inr (cfg_host (cfg_registry cfg)) \<and>
    port_prop registry = Inr (cfg_port (cfg_registry cfg)) \<and>
    nonempty_string_prop registry ''scheme'' = Inr (cfg_scheme (cfg_registry cfg)) \<and>
    headers_prop registry = Inr (cfg_headers (cfg_registry cfg)) \<and>
    coalesce_prop registry = Inr (cfg_coalesce (cfg_registry cfg)) \<and>
    (cfg_url (cfg_registry cfg) = None \<and> cfg_host (cfg_registry cfg) = None \<longrightarrow>
       readEnv env ''STATELESS_RELAY_REGISTRY_URL'' \<noteq> None) \<and>
    resolveRegistryBaseUrl print env (cfg_registry cfg) = Inr base \<and>
    parseRelayFleetConfig (jprop ''relay'' value) = Inr (cfg_relay cfg)"
  using assms
  by (auto simp: parseTransferConfig_def throw_if_Inr_iff rbind_Inr_iff Let_def
      split: option.splits)

lemma parsed_limit:
  "parseRelayFleetConfig v = Inr (Some \<lparr>maxBodyBytes = Some m\<rparr>) \<Longrightarrow> 0 \<le> m"
  by (auto simp: parseRelayFleetConfig_def trunc_rat_nonneg
      split: option.splits json.splits jsnum.splits if_splits)

text \<open>The document of a configuration.\<close>

definition opt_prop :: "string \<Rightarrow> json option \<Rightarrow> (string \<times> json) list" where
  "opt_prop k v = (case v of Some j \<Rightarrow> [(k, j)] | None \<Rightarrow> [])"

definition config_json :: "TransferConfig \<Rightarrow> json" where
  "config_json cfg = (let r = cfg_registry cfg in
     JObj ((''registry'', JObj (
         opt_prop ''url'' (map_option JStr (cfg_url r)) @
         opt_prop ''host'' (map_option JStr (cfg_host r)) @
         opt_prop ''port'' (map_option (\<lambda>p. case p of PortNum n \<Rightarrow> JNum n | PortStr s \<Rightarrow> JStr s) (cfg_port r)) @
         opt_prop ''scheme'' (map_option JStr (cfg_scheme r)) @
         opt_prop ''headers'' (map_option (\<lambda>h. JObj (map (\<lambda>(k, v). (k, JStr v)) h)) (cfg_headers r)) @
         opt_prop ''coalesce'' (map_option JBool (cfg_coalesce r)))) #
       opt_prop ''relay'' (map_option (\<lambda>f. JObj (opt_prop ''maxBodyBytes''
         (map_option (\<lambda>m. JNum (Fin (of_int m))) (maxBodyBytes f)))) (cfg_relay cfg))))"

lemma map_of_opt_prop [simp]: "map_of (opt_prop k v) k' = (if k' = k then v else None)"
  by (auto simp: opt_prop_def split: option.splits)

lemma map_add_opt_None [simp]: "(f ++ map_of (opt_prop k v)) k' =
    (if k' = k then (case v of None \<Rightarrow> f k' | Some j \<Rightarrow> Some j) else f k')"
  by (auto simp: map_add_def split: option.splits)

lemma config_json_props:
  "jprop ''relay'' (config_json cfg) = map_option (\<lambda>f. JObj (opt_prop ''maxBodyBytes''
     (map_option (\<lambda>m. JNum (Fin (of_int m))) (maxBodyBytes f)))) (cfg_relay cfg)"
  "\<exists>registry. opt_object (jprop ''registry'' (config_json cfg)) = Some registry \<and>
    jprop ''url'' registry = map_option JStr (cfg_url (cfg_registry cfg)) \<and>
    jprop ''host'' registry = map_option JStr (cfg_host (cfg_registry cfg)) \<and>
    jprop ''port'' registry = map_option (\<lambda>p. case p of PortNum n \<Rightarrow> JNum n | PortStr s \<Rightarrow> JStr s)
      (cfg_port (cfg_registry cfg)) \<and>
    jprop ''scheme'' registry = map_option JStr (cfg_scheme (cfg_registry cfg)) \<and>
    jprop ''headers'' registry = map_option (\<lambda>h. JObj (map (\<lambda>(k, v). (k, JStr v)) h))
      (cfg_headers (cfg_registry cfg)) \<and>
    jprop ''coalesce'' registry = map_option JBool (cfg_coalesce (cfg_registry cfg))"
  by (auto simp: config_json_def Let_def split: option.splits)

lemma nonempty_string_prop_self:
  "jprop name registry = map_option JStr v \<Longrightarrow> v \<noteq> Some [] \<Longrightarrow>
     nonempty_string_prop registry name = Inr v"
  by (cases v) (auto simp: nonempty_string_prop_def)

lemma port_prop_self:
  "jprop ''port'' registry = map_option (\<lambda>p. case p of PortNum n \<Rightarrow> JNum n | PortStr s \<Rightarrow> JStr s) v \<Longrightarrow>
     port_prop registry = Inr v"
  by (cases v) (auto simp: port_prop_def split: port_value.splits)

lemma coalesce_prop_self:
  "jprop ''coalesce'' registry = map_option JBool v \<Longrightarrow> coalesce_prop registry = Inr v"
  by (cases v) (auto simp: coalesce_prop_def)

lemma headers_prop_self:
  "jprop ''headers'' registry = map_option (\<lambda>h. JObj (map (\<lambda>(k, v). (k, JStr v)) h)) v \<Longrightarrow>
     (\<And>h. v = Some h \<Longrightarrow> headers_ok h) \<Longrightarrow> headers_prop registry = Inr v"
  using parseHeaders_loop_self[of "[]"]
  by (cases v) (simp_all add: headers_prop_def parseHeaders_def)

lemma relay_self:
  "(\<And>f m. relay = Some f \<Longrightarrow> maxBodyBytes f = Some m \<Longrightarrow> 1 \<le> m) \<Longrightarrow>
     parseRelayFleetConfig (map_option (\<lambda>f. JObj (opt_prop ''maxBodyBytes''
       (map_option (\<lambda>m. JNum (Fin (of_int m))) (maxBodyBytes f)))) relay) = Inr relay"
proof (cases relay)
  case (Some f)
  assume limit: "\<And>f m. relay = Some f \<Longrightarrow> maxBodyBytes f = Some m \<Longrightarrow> 1 \<le> m"
  show ?thesis
  proof (cases "maxBodyBytes f")
    case None
    with Some show ?thesis by (cases f) (simp add: parseRelayFleetConfig_def)
  next
    case (Some m)
    with \<open>relay = Some f\<close> limit[of f m] show ?thesis
      by (cases f) (simp add: parseRelayFleetConfig_def)
  qed
qed (simp add: parseRelayFleetConfig_def)

section \<open>Properties\<close>

text \<open>A configuration that parses is usable: its registry base URL resolves, the client stack is
  built from it, coalescing unless that is switched off, with the base URL and every header of
  the document, and the runtime of the web client can be created whenever the module loads, except
  for one case the parser lets through: a body limit between 0 and 1, which truncates to 0 and is
  refused only when the runtime is created.\<close>

theorem parsed_config_usable:
  assumes "parseTransferConfig print env value = Inr cfg"
  shows "\<exists>base stack. resolveRegistryBaseUrl print env (cfg_registry cfg) = Inr base \<and>
    createRelayStackFromConfig print env cfg = Inr stack \<and>
    stack_registry stack =
      (let client = HttpRegistryClient \<lparr> ho_registryBaseUrl = base,
         ho_headers = map (\<lambda>(k, v). (k, JStr v)) (default_to (cfg_headers (cfg_registry cfg)) []),
         ho_resolveUrl = None, ho_buildResolveRequestBody = None, ho_parseResponse = None \<rparr>
       in if cfg_coalesce (cfg_registry cfg) = Some False then client
          else CoalescingRegistryClient client) \<and>
    (is_ok (fst (createClientRuntime print env (areturn c) cfg w)) \<longleftrightarrow>
       cfg_relay cfg \<noteq> Some \<lparr>maxBodyBytes = Some 0\<rparr>)"
proof -
  obtain base where base: "resolveRegistryBaseUrl print env (cfg_registry cfg) = Inr base"
    and relay: "parseRelayFleetConfig (jprop ''relay'' value) = Inr (cfg_relay cfg)"
    using parseTransferConfig_Inr[OF assms] by blast
  have limit: "is_ok (relay_limit cfg) \<longleftrightarrow> cfg_relay cfg \<noteq> Some \<lparr>maxBodyBytes = Some 0\<rparr>"
  proof (cases "cfg_relay cfg")
    case None
    then show ?thesis by (simp add: relay_limit_def resolveRelayMaxBodyBytes_def)
  next
    case (Some f)
    then have "0 \<le> m" if "maxBodyBytes f = Some m" for m
      using relay parsed_limit that by (cases f) simp
    with Some show ?thesis
      by (cases f; cases "maxBodyBytes f") (auto simp: relay_limit_def resolveRelayMaxBodyBytes_def)
  qed
  have "default_to (cfg_coalesce (cfg_registry cfg)) True = (cfg_coalesce (cfg_registry cfg) \<noteq> Some False)"
    by (cases "cfg_coalesce (cfg_registry cfg)") auto
  moreover have "is_ok (rbind r (\<lambda>l. Inr (f l))) = is_ok r"
    for r :: "int res" and f :: "int \<Rightarrow> 'a client_runtime"
    by (cases r) simp_all
  ultimately show ?thesis
    using base limit
    by (simp add: createRelayStackFromConfig_def createRegistryClientFromConfig_def
        createRelayRouterFromConfig_def createClientRuntime_def abind_def areturn_def alift_def Let_def)
qed

definition half_limit_json :: json where
  "half_limit_json = JObj [(''registry'', JObj [(''host'', JStr ''h''), (''port'', JNum (Fin 8080))]),
     (''relay'', JObj [(''maxBodyBytes'', JNum (Fin (1 / 2)))])]"

definition bare_env :: runtime_env where
  "bare_env = \<lparr> env_navigator = None, env_window = False, env_vars = (\<lambda>_. None) \<rparr>"

lemma floor_halves: "\<lfloor>1 / 2 :: rat\<rfloor> = 0" "\<lfloor>33 / 2 :: rat\<rfloor> = 16"
  by (rule floor_unique; simp)+

lemma half_limit_parses:
  "parseTransferConfig (\<lambda>_. []) bare_env half_limit_json = Inr \<lparr> cfg_registry =
     empty_registry_config\<lparr>cfg_host := Some ''h'', cfg_port := Some (PortNum (Fin 8080))\<rparr>,
     cfg_relay = Some \<lparr>maxBodyBytes = Some 0\<rparr> \<rparr>"
  by (simp add: parseTransferConfig_def half_limit_json_def nonempty_string_prop_def port_prop_def
      headers_prop_def coalesce_prop_def resolveRegistryBaseUrl_def parseRelayFleetConfig_def
      bare_env_def readEnv_def empty_registry_config_def trunc_rat_def floor_halves Let_def)

theorem parsed_config_usable_witness:
  "\<not> is_ok (fst (createClientRuntime (\<lambda>_. []) bare_env (areturn ()) \<lparr> cfg_registry =
     empty_registry_config\<lparr>cfg_host := Some ''h'', cfg_port := Some (PortNum (Fin 8080))\<rparr>,
     cfg_relay = Some \<lparr>maxBodyBytes = Some 0\<rparr> \<rparr> ()))"
  using parsed_config_usable[OF half_limit_parses, of "()" "()"] by auto


definition full_config_json :: json where
  "full_config_json = JObj [(''relay'', JObj [(''maxBodyBytes'', JNum (Fin (33 / 2)))]),
     (''registry'', JObj [(''headers'', JObj [(''b'', JStr ''1''), (''a'', JStr ''2'')]),
        (''url'', JStr ''http://r/'')])]"

definition full_config :: TransferConfig where
  "full_config = \<lparr> cfg_registry = empty_registry_config\<lparr>cfg_url := Some ''http://r/'',
       cfg_headers := Some [(''b'', ''1''), (''a'', ''2'')]\<rparr>,
     cfg_relay = Some \<lparr>maxBodyBytes = Some 16\<rparr> \<rparr>"

lemma full_config_parses: "parseTransferConfig (\<lambda>_. []) bare_env full_config_json = Inr full_config"
proof -
  have "trunc_rat (33 / 2) = 16" by (simp add: trunc_rat_def floor_halves)
  then show ?thesis
    by (simp add: parseTransferConfig_def full_config_json_def full_config_def
      nonempty_string_prop_def port_prop_def headers_prop_def parseHeaders_def coalesce_prop_def
      resolveRegistryBaseUrl_def parseRelayFleetConfig_def bare_env_def readEnv_def
      empty_registry_config_def Let_def)
qed


end
