(* ===== verification/Wasm.thy ===== *)
theory Wasm
  imports Resilience Systems
begin

text \<open>
  The cryptography module as the client sees it: the adapter of \<open>wasm/loader.ts\<close> over the
  compiled module (C++, a parameter: \<open>wasm_module\<close>), and encryption in a web worker
  (\<open>upload-prepare-worker-client.ts\<close>, \<open>upload-prepare.worker.ts\<close> and their protocol). A session
  lives in the module's memory, which is part of the world, so its methods are actions.
\<close>

section \<open>The compiled module\<close>

type_synonym entry = "string \<times> bytes"

record 'w wasm_prepare_session =
  ws_feed :: "bytes \<Rightarrow> ('w, unit) act"
  ws_takeReadyBlocks :: "('w, entry list) act"
  ws_finalize :: "('w, entry) act"

text \<open>The two length methods are missing in older modules.\<close>

record 'w wasm_receive_session =
  wr_addWireToken :: "int \<Rightarrow> bytes \<Rightarrow> ('w, unit) act"
  wr_finalize :: "('w, bytes) act"
  wr_completeFinalize :: "('w, unit) act"
  wr_takePlaintextChunk :: "int \<Rightarrow> ('w, bytes) act"
  wr_paddedPlaintextLength :: "('w, js_value) act option"
  wr_originalFileLength :: "('w, js_value) act option"

record raw_smb =
  raw_numTokens :: js_value
  raw_wireBlockSize :: js_value
  raw_ciphertextLength :: js_value
  raw_originalFileLength :: js_value
  raw_originalFileName :: "string option"
  raw_segmentCode :: "jsnum option"

type_synonym 'w make_prepare =
  "string \<Rightarrow> string \<Rightarrow> int \<Rightarrow> int \<Rightarrow> int \<Rightarrow> ('w, 'w wasm_prepare_session) act"

type_synonym 'w make_receive = "string \<Rightarrow> bytes \<Rightarrow> ('w, 'w wasm_receive_session) act"

text \<open>A factory function or a constructor, either of which a build may lack.\<close>

record 'w wasm_module =
  wm_prepareUpload :: "bytes \<Rightarrow> string \<Rightarrow> string \<Rightarrow> int \<Rightarrow> int \<Rightarrow> ('w, entry list) act"
  wm_createUploadPrepareSession :: "'w make_prepare option"
  wm_UploadPrepareSession :: "'w make_prepare option"
  wm_createReceiveDecryptSession :: "'w make_receive option"
  wm_ReceiveDecryptSession :: "'w make_receive option"
  wm_receiveFromUploadMap :: "string \<Rightarrow> entry list \<Rightarrow> ('w, bytes) act"
  wm_deriveUploadToken :: "string \<Rightarrow> int \<Rightarrow> string"
  wm_parseSmbEncrypted :: "string \<Rightarrow> bytes \<Rightarrow> ('w, raw_smb) act"

section \<open>The client interface\<close>

record 'w prepare_session =
  ps_feed :: "bytes \<Rightarrow> ('w, unit) act"
  ps_takeReadyBlocks :: "('w, entry list) act"
  ps_finalize :: "('w, entry) act"

text \<open>The optional methods of the interface are \<open>option\<close>s.\<close>

record 'w receive_session =
  rs_addWireToken :: "int \<Rightarrow> bytes \<Rightarrow> ('w, unit) act"
  rs_finalize :: "('w, bytes) act"
  rs_completeFinalize :: "('w, unit) act option"
  rs_takePlaintextChunk :: "(int \<Rightarrow> ('w, bytes) act) option"
  rs_paddedPlaintextLength :: "('w, int option) act option"
  rs_originalFileLength :: "('w, int option) act option"

record SmbMetadata =
  numTokens :: int
  wireBlockSize :: int
  ciphertextLength :: int
  originalFileLength :: int
  originalFileName :: string
  smb_segmentCode :: jsnum

record 'w twelve_c =
  tc_prepareUpload :: "bytes \<Rightarrow> string \<Rightarrow> string option \<Rightarrow> int \<Rightarrow> int \<Rightarrow> ('w, upload_map) act"
  tc_createUploadPrepareSession ::
    "string \<Rightarrow> string option \<Rightarrow> int \<Rightarrow> int \<Rightarrow> int \<Rightarrow> ('w, 'w prepare_session) act"
  tc_createReceiveDecryptSession :: "string \<Rightarrow> bytes \<Rightarrow> ('w, 'w receive_session) act"
  tc_receiveFromUploadMap :: "string \<Rightarrow> upload_map \<Rightarrow> ('w, bytes) act"
  tc_deriveUploadToken :: "string \<Rightarrow> int \<Rightarrow> string"
  tc_parseSmbEncrypted :: "string \<Rightarrow> bytes \<Rightarrow> ('w, SmbMetadata) act"

section \<open>The adapter\<close>

definition entriesToUploadMap :: "entry list \<Rightarrow> upload_map" where
  "entriesToUploadMap entries = fold (\<lambda>(token, data). jm_set token data) entries []"

definition uploadMapToEntries :: "upload_map \<Rightarrow> entry list" where
  "uploadMapToEntries uploads = map (\<lambda>(token, data). (token, data)) uploads"

text \<open>The message is Chinese in the source; the class name in it is what callers look for.\<close>

definition outdated_module :: "string \<Rightarrow> thrown" where
  "outdated_module class_name = ErrorObj (''WASM module too old, missing '' @ class_name)"

definition client_prepare_session :: "'w wasm_prepare_session \<Rightarrow> 'w prepare_session" where
  "client_prepare_session s = \<lparr> ps_feed = ws_feed s, ps_takeReadyBlocks = ws_takeReadyBlocks s,
     ps_finalize = ws_finalize s \<rparr>"

definition safe_length_method ::
    "(string \<Rightarrow> jsnum) \<Rightarrow> string \<Rightarrow> ('w, js_value) act option \<Rightarrow> ('w, int option) act" where
  "safe_length_method toNumber label m = (case m of
     None \<Rightarrow> areturn None
   | Some act1 \<Rightarrow> abind act1 (\<lambda>v. alift (rbind (toSafeByteLength toNumber v label) (\<lambda>n. Inr (Some n)))))"

definition client_receive_session ::
    "(string \<Rightarrow> jsnum) \<Rightarrow> 'w wasm_receive_session \<Rightarrow> 'w receive_session" where
  "client_receive_session toNumber s =
     \<lparr> rs_addWireToken = wr_addWireToken s, rs_finalize = wr_finalize s,
       rs_completeFinalize = Some (wr_completeFinalize s),
       rs_takePlaintextChunk = Some (wr_takePlaintextChunk s),
       rs_paddedPlaintextLength = Some (safe_length_method toNumber ''paddedPlaintextLength''
          (wr_paddedPlaintextLength s)),
       rs_originalFileLength = Some (safe_length_method toNumber ''originalFileLength''
          (wr_originalFileLength s)) \<rparr>"

definition convert_smb :: "(string \<Rightarrow> jsnum) \<Rightarrow> raw_smb \<Rightarrow> SmbMetadata res" where
  "convert_smb toNumber raw =
     rbind (toSafeByteLength toNumber (raw_numTokens raw) ''numTokens'') (\<lambda>n.
     rbind (toSafeByteLength toNumber (raw_wireBlockSize raw) ''wireBlockSize'') (\<lambda>w.
     rbind (toSafeByteLength toNumber (raw_ciphertextLength raw) ''ciphertextLength'') (\<lambda>c.
     rbind (toSafeByteLength toNumber (raw_originalFileLength raw) ''originalFileLength'') (\<lambda>l.
     Inr \<lparr> numTokens = n, wireBlockSize = w, ciphertextLength = c, originalFileLength = l,
           originalFileName = default_to (raw_originalFileName raw) [],
           smb_segmentCode = default_to (raw_segmentCode raw) (Fin 0) \<rparr>))))"

definition first_available :: "'a option \<Rightarrow> 'a option \<Rightarrow> 'a option" where
  "first_available factory ctor = (case factory of Some f \<Rightarrow> Some f | None \<Rightarrow> ctor)"

definition createTwelveCClientFromModule ::
    "(string \<Rightarrow> jsnum) \<Rightarrow> 'w wasm_module \<Rightarrow> 'w twelve_c" where
  "createTwelveCClientFromModule toNumber m =
     \<lparr> tc_prepareUpload = (\<lambda>plaintext credential name code max_block.
         abind (wm_prepareUpload m plaintext credential (default_to name []) code max_block)
           (\<lambda>entries. areturn (entriesToUploadMap entries))),
       tc_createUploadPrepareSession = (\<lambda>credential name size_bytes code max_block.
         case first_available (wm_createUploadPrepareSession m) (wm_UploadPrepareSession m) of
           None \<Rightarrow> athrow (outdated_module ''UploadPrepareSession'')
         | Some build \<Rightarrow> abind (build credential (default_to name []) size_bytes code max_block)
             (\<lambda>s. areturn (client_prepare_session s))),
       tc_createReceiveDecryptSession = (\<lambda>credential token0Wire.
         case first_available (wm_createReceiveDecryptSession m) (wm_ReceiveDecryptSession m) of
           None \<Rightarrow> athrow (outdated_module ''ReceiveDecryptSession'')
         | Some build \<Rightarrow> abind (build credential token0Wire)
             (\<lambda>s. areturn (client_receive_session toNumber s))),
       tc_receiveFromUploadMap = (\<lambda>credential uploads.
         wm_receiveFromUploadMap m credential (uploadMapToEntries uploads)),
       tc_deriveUploadToken = wm_deriveUploadToken m,
       tc_parseSmbEncrypted = (\<lambda>credential smb.
         abind (wm_parseSmbEncrypted m credential smb) (\<lambda>raw. alift (convert_smb toNumber raw))) \<rparr>"

text \<open>\<open>loadTwelveC\<close>: the factory is given the function that locates files.\<close>

definition locate_file :: "string option \<Rightarrow> string \<Rightarrow> string" where
  "locate_file wasmUrl path = (case wasmUrl of
     Some u \<Rightarrow> if ends_with path ''.wasm'' \<and> u \<noteq> [] then u else path
   | None \<Rightarrow> path)"

definition loadTwelveC ::
    "(string \<Rightarrow> jsnum) \<Rightarrow> ('w, (string \<Rightarrow> string) \<Rightarrow> ('w, 'w wasm_module) act) act \<Rightarrow>
     ((string \<Rightarrow> string) \<Rightarrow> ('w, 'w wasm_module) act) option \<Rightarrow> string option \<Rightarrow>
     ('w, 'w twelve_c) act" where
  "loadTwelveC toNumber import_pkg createModule wasmUrl =
     abind (case createModule of Some f \<Rightarrow> areturn f | None \<Rightarrow> import_pkg) (\<lambda>create.
     abind (create (locate_file wasmUrl)) (\<lambda>m.
     areturn (createTwelveCClientFromModule toNumber m)))"

definition createTwelveCClientAdapter :: "'w twelve_c \<Rightarrow> 'w twelve_c" where
  "createTwelveCClientAdapter client = client"

section \<open>The worker protocol\<close>

record worker_init_options =
  wi_wasmScriptUrl :: string
  wi_wasmBinaryUrl :: string
  wi_credential :: string
  wi_fileName :: string
  wi_fileSize :: int
  wi_segmentCode :: int
  wi_maxWireBlockBytes :: int

datatype worker_request =
    ReqInit int worker_init_options
  | ReqFeed int bytes
  | ReqFinalize int
  | ReqDispose int
  | ReqUnknown int string

datatype worker_response =
    RespOk int
  | RespFed int int "entry list"
  | RespFinalized int entry
  | RespError int string

definition DEFAULT_UPLOAD_WASM_SCRIPT_URL :: string where
  "DEFAULT_UPLOAD_WASM_SCRIPT_URL = ''/wasm/twelve_c_cryptography.js''"

definition DEFAULT_UPLOAD_WASM_BINARY_URL :: string where
  "DEFAULT_UPLOAD_WASM_BINARY_URL = ''/wasm/twelve_c_cryptography.wasm''"

fun response_id :: "worker_response \<Rightarrow> int" where
  "response_id (RespOk i) = i"
| "response_id (RespFed i _ _) = i"
| "response_id (RespFinalized i _) = i"
| "response_id (RespError i _) = i"

fun response_type :: "worker_response \<Rightarrow> string" where
  "response_type (RespOk _) = ''ok''"
| "response_type (RespFed _ _ _) = ''fed''"
| "response_type (RespFinalized _ _) = ''finalized''"
| "response_type (RespError _ _) = ''error''"

section \<open>Inside the worker\<close>

text \<open>
  The globals of the worker. \<open>wk_module\<close> is the cached promise of the module once it settled; a
  rejection stays cached.
\<close>

record 'w worker_scope =
  wk_module :: "'w make_prepare res option"
  wk_wasmScriptUrl :: string
  wk_wasmBinaryUrl :: string
  wk_session :: "'w wasm_prepare_session option"
  wk_bytesFed :: int
  wk_closed :: bool

definition worker_scope_new :: "'w worker_scope" where
  "worker_scope_new = \<lparr> wk_module = None, wk_wasmScriptUrl = [], wk_wasmBinaryUrl = [],
     wk_session = None, wk_bytesFed = 0, wk_closed = False \<rparr>"

text \<open>\<open>load script binary\<close> is \<open>importScripts\<close> and \<open>createTwelveCModule\<close>.\<close>

definition ensureWasmModule ::
    "(string \<Rightarrow> string \<Rightarrow> ('w, 'w make_prepare) act) \<Rightarrow> 'w worker_scope \<Rightarrow> 'w \<Rightarrow>
     'w make_prepare res \<times> 'w worker_scope \<times> 'w" where
  "ensureWasmModule load k w = (case wk_module k of
     Some r \<Rightarrow> (r, k, w)
   | None \<Rightarrow> (case load (wk_wasmScriptUrl k) (wk_wasmBinaryUrl k) w of
       (r, w') \<Rightarrow> (r, k\<lparr>wk_module := Some r\<rparr>, w')))"

definition thrown_text :: "thrown \<Rightarrow> string" where
  "thrown_text e = (case e of OtherThrow s \<Rightarrow> s | _ \<Rightarrow> error_message e)"

definition postError :: "int \<Rightarrow> thrown \<Rightarrow> worker_response" where
  "postError i e = RespError i (thrown_text e)"

definition not_initialized :: thrown where
  "not_initialized = ErrorObj ''upload prepare worker session not initialized''"

text \<open>The message handler: the response it posts, if any, and the worker it leaves.\<close>

definition worker_onmessage ::
    "(string \<Rightarrow> string \<Rightarrow> ('w, 'w make_prepare) act) \<Rightarrow> worker_request \<Rightarrow> 'w worker_scope \<Rightarrow> 'w \<Rightarrow>
     worker_response option \<times> 'w worker_scope \<times> 'w" where
  "worker_onmessage load msg k w = (case msg of
     ReqInit i o1 \<Rightarrow>
       (case ensureWasmModule load (k\<lparr>wk_wasmScriptUrl := wi_wasmScriptUrl o1,
              wk_wasmBinaryUrl := wi_wasmBinaryUrl o1, wk_bytesFed := 0\<rparr>) w of
          (Inl e, k', w') \<Rightarrow> (Some (postError i e), k', w')
        | (Inr build, k', w') \<Rightarrow>
            (case build (wi_credential o1) (wi_fileName o1) (wi_fileSize o1) (wi_segmentCode o1)
                    (wi_maxWireBlockBytes o1) w' of
               (Inl e, w'') \<Rightarrow> (Some (postError i e), k', w'')
             | (Inr s, w'') \<Rightarrow> (Some (RespOk i), k'\<lparr>wk_session := Some s\<rparr>, w'')))
   | ReqFeed i chunk \<Rightarrow>
       (case wk_session k of
          None \<Rightarrow> (Some (postError i not_initialized), k, w)
        | Some s \<Rightarrow>
            (case ws_feed s chunk w of
               (Inl e, w') \<Rightarrow> (Some (postError i e), k, w')
             | (Inr _, w') \<Rightarrow>
                 let k' = k\<lparr>wk_bytesFed := wk_bytesFed k + int (length chunk)\<rparr> in
                 (case ws_takeReadyBlocks s w' of
                    (Inl e, w'') \<Rightarrow> (Some (postError i e), k', w'')
                  | (Inr blocks, w'') \<Rightarrow> (Some (RespFed i (wk_bytesFed k') blocks), k', w''))))
   | ReqFinalize i \<Rightarrow>
       (case wk_session k of
          None \<Rightarrow> (Some (postError i not_initialized), k, w)
        | Some s \<Rightarrow>
            (case ws_finalize s w of
               (Inl e, w') \<Rightarrow> (Some (postError i e), k, w')
             | (Inr block, w') \<Rightarrow> (Some (RespFinalized i block), k\<lparr>wk_session := None\<rparr>, w')))
   | ReqDispose i \<Rightarrow> (None, k\<lparr>wk_session := None, wk_closed := True\<rparr>, w)
   | ReqUnknown i t \<Rightarrow>
       (Some (postError i (ErrorObj (''unsupported upload prepare worker request: '' @ t))), k, w))"

section \<open>The client of the worker\<close>

text \<open>
  \<open>wc_pending\<close> are the identifiers with an open promise, \<open>wc_settled\<close> the promises that were
  settled and how, \<open>wc_posted\<close> the messages posted to the worker, oldest first.
\<close>

record worker_client =
  wc_nextId :: int
  wc_pending :: "int list"
  wc_disposed :: bool
  wc_terminated :: bool
  wc_settled :: "(int \<times> worker_response res) list"
  wc_posted :: "worker_request list"

definition worker_client_new :: worker_client where
  "worker_client_new = \<lparr> wc_nextId = 1, wc_pending = [], wc_disposed = False, wc_terminated = False,
     wc_settled = [], wc_posted = [] \<rparr>"

definition rejectAll :: "thrown \<Rightarrow> worker_client \<Rightarrow> worker_client" where
  "rejectAll e c = c\<lparr>wc_settled := wc_settled c @ map (\<lambda>i. (i, Inl e)) (wc_pending c),
                     wc_pending := []\<rparr>"

definition client_onmessage :: "worker_response \<Rightarrow> worker_client \<Rightarrow> worker_client" where
  "client_onmessage message c =
     (let i = response_id message in
      if \<not> List.member (wc_pending c) i then c
      else c\<lparr>wc_pending := removeAll i (wc_pending c),
             wc_settled := wc_settled c @ [(i, case message of
                RespError _ text1 \<Rightarrow> Inl (ErrorObj text1) | _ \<Rightarrow> Inr message)]\<rparr>)"

definition client_onerror :: "string \<Rightarrow> string \<Rightarrow> worker_client \<Rightarrow> worker_client" where
  "client_onerror event_message filename c =
     rejectAll (ErrorObj (
       if trim event_message \<noteq> [] then trim event_message
       else if filename \<noteq> [] then ''failed to load '' @ filename
       else ''upload prepare worker failed'')) c"

definition client_request ::
    "(int \<Rightarrow> worker_request) \<Rightarrow> worker_client \<Rightarrow> int res \<times> worker_client" where
  "client_request build c =
     (if wc_disposed c then (Inl (ErrorObj ''upload prepare worker already disposed''), c)
      else let i = wc_nextId c in
        (Inr i, c\<lparr>wc_nextId := i + 1, wc_pending := wc_pending c @ [i],
                  wc_posted := wc_posted c @ [build i]\<rparr>))"

definition client_dispose :: "worker_client \<Rightarrow> worker_client" where
  "client_dispose c =
     (if wc_disposed c then c
      else let c' = rejectAll (ErrorObj ''upload prepare worker disposed'') (c\<lparr>wc_disposed := True\<rparr>) in
        c'\<lparr>wc_nextId := wc_nextId c' + 1,
           wc_posted := wc_posted c' @ [ReqDispose (wc_nextId c')], wc_terminated := True\<rparr>)"

definition init_result :: "worker_response \<Rightarrow> unit res" where
  "init_result r = (case r of RespOk _ \<Rightarrow> Inr ()
     | _ \<Rightarrow> Inl (ErrorObj (''unexpected upload prepare worker init response: '' @ response_type r)))"

definition feed_result :: "worker_response \<Rightarrow> (int \<times> entry list) res" where
  "feed_result r = (case r of RespFed _ bytesFed blocks \<Rightarrow> Inr (bytesFed, blocks)
     | _ \<Rightarrow> Inl (ErrorObj (''unexpected upload prepare worker feed response: '' @ response_type r)))"

definition finalize_result :: "worker_response \<Rightarrow> entry res" where
  "finalize_result r = (case r of RespFinalized _ block \<Rightarrow> Inr block
     | _ \<Rightarrow> Inl (ErrorObj (''unexpected upload prepare worker finalize response: '' @ response_type r)))"

definition canUseUploadPrepareWorker :: "bool \<Rightarrow> bool \<Rightarrow> bool \<Rightarrow> bool" where
  "canUseUploadPrepareWorker has_Worker given_createWorker has_module_url =
     (if \<not> has_Worker then False else if given_createWorker then True else has_module_url)"

section \<open>The discipline of the client's promises\<close>

text \<open>What can happen to the client, whatever messages and error events arrive.\<close>

inductive client_step :: "worker_client \<Rightarrow> worker_client \<Rightarrow> bool" where
  requested: "client_step c (snd (client_request build c))"
| answered: "client_step c (client_onmessage message c)"
| failed: "client_step c (client_onerror event_message filename c)"
| disposed: "client_step c (client_dispose c)"

text \<open>
  Every identifier below the next one was issued to one promise, which is either open or settled
  once (a dispose message uses up an identifier of its own); an answer settles the promise of
  its own identifier; after disposal nothing is open.
\<close>

definition client_inv :: "worker_client \<Rightarrow> bool" where
  "client_inv c \<longleftrightarrow> distinct (wc_pending c @ map fst (wc_settled c)) \<and>
     set (wc_pending c @ map fst (wc_settled c)) =
       {i. 1 \<le> i \<and> i < wc_nextId c - (if wc_disposed c then 1 else 0)} \<and>
     1 \<le> wc_nextId c - (if wc_disposed c then 1 else 0) \<and>
     (wc_disposed c \<longrightarrow> wc_pending c = []) \<and> (wc_terminated c = wc_disposed c) \<and>
     (\<forall>i r. (i, Inr r) \<in> set (wc_settled c) \<longrightarrow> response_id r = i)"

lemma client_inv_new: "client_inv worker_client_new"
  by (auto simp: client_inv_def worker_client_new_def)

lemma rejectAll_settles:
  "wc_pending (rejectAll e c) = []"
  "set (map fst (wc_settled (rejectAll e c))) = set (wc_pending c @ map fst (wc_settled c))"
  "distinct (wc_pending c @ map fst (wc_settled c)) \<Longrightarrow> distinct (map fst (wc_settled (rejectAll e c)))"
  "(i, Inr r) \<in> set (wc_settled (rejectAll e c)) \<Longrightarrow> (i, Inr r) \<in> set (wc_settled c)"
  by (auto simp: rejectAll_def comp_def)

lemma rejectAll_fields [simp]:
  "wc_nextId (rejectAll e c) = wc_nextId c" "wc_disposed (rejectAll e c) = wc_disposed c"
  "wc_terminated (rejectAll e c) = wc_terminated c"
  by (simp_all add: rejectAll_def)

lemma rejectAll_inv:
  assumes "client_inv c"
  shows "client_inv (rejectAll e c)"
proof -
  let ?c = "rejectAll e c"
  have "set (wc_pending ?c @ map fst (wc_settled ?c)) = set (wc_pending c @ map fst (wc_settled c))"
    by (simp only: rejectAll_settles(1,2) append_Nil)
  moreover have "distinct (wc_pending ?c @ map fst (wc_settled ?c))"
    using assms by (simp add: client_inv_def rejectAll_settles(1,3))
  moreover have "\<forall>i r. (i, Inr r) \<in> set (wc_settled ?c) \<longrightarrow> response_id r = i"
    using assms rejectAll_settles(4) unfolding client_inv_def by metis
  ultimately show ?thesis
    using assms unfolding client_inv_def rejectAll_fields by (simp only: rejectAll_settles(1) simp_thms)
qed

lemma request_inv: "client_inv c \<Longrightarrow> client_inv (snd (client_request build c))"
proof (cases "wc_disposed c")
  case False
  assume inv: "client_inv c"
  let ?n = "wc_nextId c" and ?c = "snd (client_request build c)"
  have s: "set (wc_pending c @ map fst (wc_settled c)) = {i. 1 \<le> i \<and> i < ?n}" "1 \<le> ?n"
    "distinct (wc_pending c @ map fst (wc_settled c))"
    using inv False by (simp_all add: client_inv_def)
  then have "set (wc_pending ?c @ map fst (wc_settled ?c)) = {i. 1 \<le> i \<and> i < ?n + 1}"
      "distinct (wc_pending ?c @ map fst (wc_settled ?c))"
    using False by (auto simp: client_request_def Let_def)
  then show ?thesis
    using inv False unfolding client_inv_def by (simp add: client_request_def Let_def)
qed (simp add: client_request_def)

lemma onmessage_inv:
  assumes "client_inv c"
  shows "client_inv (client_onmessage message c)"
proof (cases "response_id message \<in> set (wc_pending c)")
  case True
  let ?c = "client_onmessage message c"
  have p: "wc_pending ?c = removeAll (response_id message) (wc_pending c)"
    and s: "map fst (wc_settled ?c) = map fst (wc_settled c) @ [response_id message]"
    and k: "wc_nextId ?c = wc_nextId c" "wc_disposed ?c = wc_disposed c"
      "wc_terminated ?c = wc_terminated c"
    and r: "\<And>i r. (i, Inr r) \<in> set (wc_settled ?c) \<Longrightarrow>
      (i, Inr r) \<in> set (wc_settled c) \<or> i = response_id message \<and> r = message"
    using True by (auto simp: client_onmessage_def Let_def split: worker_response.splits)
  have "set (wc_pending ?c @ map fst (wc_settled ?c)) = set (wc_pending c @ map fst (wc_settled c))"
    unfolding p s using True by auto
  moreover have "distinct (wc_pending ?c @ map fst (wc_settled ?c))"
    unfolding p s using True assms by (auto simp: client_inv_def distinct_removeAll)
  moreover have "\<forall>i r. (i, Inr r) \<in> set (wc_settled ?c) \<longrightarrow> response_id r = i"
    using assms r unfolding client_inv_def by metis
  moreover have "wc_disposed c \<longrightarrow> wc_pending ?c = []"
    using assms p by (simp add: client_inv_def)
  ultimately show ?thesis
    using assms unfolding client_inv_def k by simp
next
  case False
  with assms show ?thesis by (simp add: client_onmessage_def Let_def)
qed

lemma dispose_inv: "client_inv c \<Longrightarrow> client_inv (client_dispose c)"
proof (cases "wc_disposed c")
  case False
  assume inv: "client_inv c"
  let ?e = "ErrorObj ''upload prepare worker disposed''"
  let ?c = "rejectAll ?e c"
  have eq: "client_dispose c = ?c\<lparr>wc_disposed := True, wc_nextId := wc_nextId ?c + 1,
      wc_posted := wc_posted ?c @ [ReqDispose (wc_nextId ?c)], wc_terminated := True\<rparr>"
    using False by (simp add: client_dispose_def rejectAll_def Let_def)
  have "client_inv ?c" "wc_pending ?c = []" using inv rejectAll_inv rejectAll_settles by auto
  with False show ?thesis unfolding eq client_inv_def by simp
qed (simp add: client_dispose_def)

lemma client_step_inv: "client_step c c' \<Longrightarrow> client_inv c \<Longrightarrow> client_inv c'"
  by (induction rule: client_step.induct)
    (auto simp: request_inv onmessage_inv dispose_inv client_onerror_def rejectAll_inv)

interpretation worker: safe_system client_step client_inv
  by unfold_locales (rule client_step_inv)

lemma client_step_settled: "client_step c c' \<Longrightarrow> \<exists>new. wc_settled c' = wc_settled c @ new"
  by (induction rule: client_step.induct)
    (auto simp: client_request_def client_onmessage_def client_onerror_def client_dispose_def
      rejectAll_def Let_def)

lemma client_steps_settled: "client_step\<^sup>*\<^sup>* c c' \<Longrightarrow> \<exists>new. wc_settled c' = wc_settled c @ new"
proof (induction rule: rtranclp_induct)
  case (step c1 c2)
  then show ?case using client_step_settled[of c1 c2] by auto
qed simp

section \<open>Client and worker together\<close>

text \<open>
  The client awaits every answer before it posts again, so a call is: post, let the worker handle
  the message, deliver its response, read the settled promise. A handled request always answers
  (\<open>never\<close> does not occur below).
\<close>

type_synonym 'w link = "worker_client \<times> 'w worker_scope \<times> 'w"

definition never :: thrown where
  "never = OtherThrow ''pending''"

definition link_call ::
    "(string \<Rightarrow> string \<Rightarrow> ('w, 'w make_prepare) act) \<Rightarrow> (int \<Rightarrow> worker_request) \<Rightarrow>
     ('w link, worker_response) act" where
  "link_call load build lk = (case lk of (c, k, w) \<Rightarrow>
     (case client_request build c of
        (Inl e, c1) \<Rightarrow> (Inl e, (c1, k, w))
      | (Inr i, c1) \<Rightarrow>
          (case worker_onmessage load (build i) k w of (response, k1, w1) \<Rightarrow>
             let c2 = (case response of Some r \<Rightarrow> client_onmessage r c1 | None \<Rightarrow> c1) in
             (default_to (map_of (wc_settled c2) i) (Inl never), (c2, k1, w1)))))"

definition link_init ::
    "(string \<Rightarrow> string \<Rightarrow> ('w, 'w make_prepare) act) \<Rightarrow> worker_init_options \<Rightarrow> ('w link, unit) act" where
  "link_init load options = abind (link_call load (\<lambda>i. ReqInit i options)) (\<lambda>r. alift (init_result r))"

definition link_feed ::
    "(string \<Rightarrow> string \<Rightarrow> ('w, 'w make_prepare) act) \<Rightarrow> bytes \<Rightarrow> ('w link, int \<times> entry list) act" where
  "link_feed load chunk = abind (link_call load (\<lambda>i. ReqFeed i chunk)) (\<lambda>r. alift (feed_result r))"

definition link_finalize ::
    "(string \<Rightarrow> string \<Rightarrow> ('w, 'w make_prepare) act) \<Rightarrow> ('w link, entry) act" where
  "link_finalize load = abind (link_call load ReqFinalize) (\<lambda>r. alift (finalize_result r))"

definition link_dispose :: "'w link \<Rightarrow> 'w link" where
  "link_dispose lk = (case lk of (c, k, w) \<Rightarrow> (client_dispose c, k, w))"

text \<open>A live link whose worker holds the session \<open>s\<close> and has fed it \<open>b\<close> bytes.\<close>

definition link_ok :: "'w wasm_prepare_session \<Rightarrow> int \<Rightarrow> 'w link \<Rightarrow> bool" where
  "link_ok s b lk \<longleftrightarrow> (case lk of (c, k, w) \<Rightarrow>
     client_inv c \<and> \<not> wc_disposed c \<and> wc_pending c = [] \<and> wk_session k = Some s \<and> wk_bytesFed k = b)"

definition idle :: "worker_client \<Rightarrow> bool" where
  "idle c \<longleftrightarrow> client_inv c \<and> \<not> wc_disposed c \<and> wc_pending c = []"

lemma call_settles:
  assumes "idle c" "worker_onmessage load (build (wc_nextId c)) k w = (Some r, k1, w1)"
    "response_id r = wc_nextId c"
  shows "\<exists>c2. link_call load build (c, k, w) =
      ((case r of RespError _ m \<Rightarrow> Inl (ErrorObj m) | _ \<Rightarrow> Inr r), (c2, k1, w1)) \<and> idle c2"
proof -
  obtain c1 where req: "client_request build c = (Inr (wc_nextId c), c1)"
      "wc_pending c1 = [wc_nextId c]" "wc_settled c1 = wc_settled c" "wc_disposed c1 = wc_disposed c"
    using assms(1) by (simp add: client_request_def idle_def Let_def)
  have inv1: "client_inv c1" using request_inv[of c build] assms(1) req(1) by (simp add: idle_def)
  let ?c2 = "client_onmessage r c1"
  have set2: "wc_settled ?c2 = wc_settled c @
      [(wc_nextId c, case r of RespError _ m \<Rightarrow> Inl (ErrorObj m) | _ \<Rightarrow> Inr r)]"
    and idle2: "wc_pending ?c2 = []" "wc_disposed ?c2 = wc_disposed c"
    using req assms(3) by (auto simp: client_onmessage_def Let_def split: worker_response.split)
  have "client_inv ?c2" using inv1 by (rule onmessage_inv)
  moreover have "map_of (wc_settled c) (wc_nextId c) = None"
  proof -
    have "wc_nextId c \<notin> set (map fst (wc_settled c))"
      using assms(1) unfolding idle_def client_inv_def by auto
    then show ?thesis by (simp add: map_of_eq_None_iff)
  qed
  ultimately have "idle ?c2" "map_of (wc_settled ?c2) (wc_nextId c) =
      Some (case r of RespError _ m \<Rightarrow> Inl (ErrorObj m) | _ \<Rightarrow> Inr r)"
    using assms(1) idle2 by (simp_all add: set2 idle_def map_add_def)
  moreover have "link_call load build (c, k, w) =
      (default_to (map_of (wc_settled ?c2) (wc_nextId c)) (Inl never), (?c2, k1, w1))"
    unfolding link_call_def by (simp only: req(1) assms(2) prod.case sum.case option.case Let_def)
  ultimately show ?thesis by auto
qed

section \<open>A session behind the worker\<close>

definition link_session :: "'w wasm_prepare_session \<Rightarrow> 'w link \<Rightarrow> bool" where
  "link_session s lk \<longleftrightarrow> (case lk of (c, k, w) \<Rightarrow> idle c \<and> wk_session k = Some s)"

text \<open>What the worker reports of a thrown value: its text, as an \<open>Error\<close>.\<close>

definition relayed :: "'a res \<Rightarrow> 'a res" where
  "relayed r = (case r of Inl e \<Rightarrow> Inl (ErrorObj (thrown_text e)) | Inr x \<Rightarrow> Inr x)"

lemma relayed_simps [simp]: "relayed (Inr x) = Inr x" "relayed (Inl e) = Inl (ErrorObj (thrown_text e))"
  by (simp_all add: relayed_def)

definition feed_and_take :: "'w wasm_prepare_session \<Rightarrow> bytes \<Rightarrow> ('w, entry list) act" where
  "feed_and_take s chunk = abind (ws_feed s chunk) (\<lambda>_. ws_takeReadyBlocks s)"

lemma worker_feed:
  assumes "wk_session k = Some s" "feed_and_take s chunk w = (r, w')"
  shows "\<exists>k'. worker_onmessage load (ReqFeed i chunk) k w = (Some (case r of
        Inl e \<Rightarrow> postError i e
      | Inr blocks \<Rightarrow> RespFed i (wk_bytesFed k + int (length chunk)) blocks), k', w') \<and>
     wk_session k' = Some s \<and> (is_ok r \<longrightarrow> wk_bytesFed k' = wk_bytesFed k + int (length chunk))"
proof -
  obtain r0 w0 where f: "ws_feed s chunk w = (r0, w0)" by fastforce
  obtain r1 w1 where t: "ws_takeReadyBlocks s w0 = (r1, w1)" by fastforce
  show ?thesis
    using assms f t
    by (cases r0; cases r1) (auto simp: worker_onmessage_def feed_and_take_def abind_def Let_def)
qed

lemma link_feed_refines:
  assumes "link_session s (c, k, w)" "feed_and_take s chunk w = (r, w')"
  shows "\<exists>c' k'. link_feed load chunk (c, k, w) =
      (rbind (relayed r) (\<lambda>blocks. Inr (wk_bytesFed k + int (length chunk), blocks)), (c', k', w')) \<and>
      link_session s (c', k', w') \<and>
      (is_ok r \<longrightarrow> wk_bytesFed k' = wk_bytesFed k + int (length chunk))"
proof -
  have i: "idle c" and s: "wk_session k = Some s" using assms(1) by (simp_all add: link_session_def)
  let ?i = "wc_nextId c"
  let ?q = "case r of Inl e \<Rightarrow> postError ?i e
      | Inr blocks \<Rightarrow> RespFed ?i (wk_bytesFed k + int (length chunk)) blocks"
  obtain k' where q: "worker_onmessage load (ReqFeed ?i chunk) k w = (Some ?q, k', w')"
      and s': "wk_session k' = Some s"
      and b: "is_ok r \<longrightarrow> wk_bytesFed k' = wk_bytesFed k + int (length chunk)"
    using worker_feed[OF s assms(2), of load ?i] by blast
  have id: "response_id ?q = ?i" by (simp add: postError_def split: sum.split)
  from call_settles[where build="\<lambda>i. ReqFeed i chunk", OF i q id]
  obtain c' where "link_call load (\<lambda>i. ReqFeed i chunk) (c, k, w) =
      ((case ?q of RespError _ m \<Rightarrow> Inl (ErrorObj m) | _ \<Rightarrow> Inr ?q), (c', k', w'))" "idle c'" by blast
  then show ?thesis
    using s' b
    by (cases r) (simp_all add: link_feed_def link_session_def abind_def alift_def postError_def feed_result_def)
qed

lemma link_finalize_refines:
  assumes "link_session s (c, k, w)" "ws_finalize s w = (r, w')"
  shows "\<exists>c' k'. link_finalize load (c, k, w) = (relayed r, (c', k', w')) \<and> idle c'"
proof -
  have i: "idle c" and s: "wk_session k = Some s" using assms(1) by (simp_all add: link_session_def)
  let ?i = "wc_nextId c"
  obtain q k' where q: "worker_onmessage load (ReqFinalize ?i) k w = (Some q, k', w')"
      and id: "response_id q = ?i"
      and out: "(case q of RespError _ m \<Rightarrow> Inl (ErrorObj m) | _ \<Rightarrow> finalize_result q) = relayed r"
    using assms(2) s unfolding worker_onmessage_def
    by (cases r) (auto simp: postError_def finalize_result_def)
  from call_settles[where build=ReqFinalize, OF i q id]
  obtain c' where "link_call load ReqFinalize (c, k, w) =
      ((case q of RespError _ m \<Rightarrow> Inl (ErrorObj m) | _ \<Rightarrow> Inr q), (c', k', w'))" "idle c'" by blast
  then show ?thesis
    using out by (cases q) (auto simp: link_finalize_def abind_def alift_def finalize_result_def)
qed

definition construct ::
    "(string \<Rightarrow> string \<Rightarrow> ('w, 'w make_prepare) act) \<Rightarrow> worker_init_options \<Rightarrow>
     ('w, 'w wasm_prepare_session) act" where
  "construct load o1 = abind (load (wi_wasmScriptUrl o1) (wi_wasmBinaryUrl o1)) (\<lambda>build.
       build (wi_credential o1) (wi_fileName o1) (wi_fileSize o1) (wi_segmentCode o1)
         (wi_maxWireBlockBytes o1))"

lemma link_init_refines:
  assumes "idle c" "wk_module k = None"
    "construct load o1 w = (r, w')"
  shows "\<exists>c' k'. link_init load o1 (c, k, w) = (rbind (relayed r) (\<lambda>_. Inr ()), (c', k', w')) \<and>
      idle c' \<and> (\<forall>s. r = Inr s \<longrightarrow> link_session s (c', k', w') \<and> wk_bytesFed k' = 0)"
proof -
  let ?i = "wc_nextId c"
  obtain q k' where q: "worker_onmessage load (ReqInit ?i o1) k w = (Some q, k', w')"
      and id: "response_id q = ?i"
      and out: "(case q of RespError _ m \<Rightarrow> Inl (ErrorObj m) | _ \<Rightarrow> init_result q) =
        rbind (relayed r) (\<lambda>_. Inr ())"
      and s: "\<forall>s. r = Inr s \<longrightarrow> wk_session k' = Some s \<and> wk_bytesFed k' = 0"
    using assms(2,3) unfolding worker_onmessage_def ensureWasmModule_def construct_def
    by (cases r) (auto simp: abind_def postError_def init_result_def split: prod.splits sum.splits)
  from call_settles[where build="\<lambda>i. ReqInit i o1", OF assms(1) q id]
  obtain c' where "link_call load (\<lambda>i. ReqInit i o1) (c, k, w) =
      ((case q of RespError _ m \<Rightarrow> Inl (ErrorObj m) | _ \<Rightarrow> Inr q), (c', k', w'))" "idle c'" by blast
  then show ?thesis
    using out s
    by (cases q) (auto simp: link_init_def link_session_def abind_def alift_def init_result_def)
qed

section \<open>A whole preparation behind the worker\<close>

text \<open>The session driven directly: what was fed so far and the blocks ready after every chunk.\<close>

fun session_run ::
    "'w wasm_prepare_session \<Rightarrow> int \<Rightarrow> bytes list \<Rightarrow> ('w, (int \<times> entry list) list \<times> entry) act" where
  "session_run s fed [] = abind (ws_finalize s) (\<lambda>e. areturn ([], e))"
| "session_run s fed (chunk # rest) = abind (feed_and_take s chunk) (\<lambda>blocks.
     abind (session_run s (fed + int (length chunk)) rest) (\<lambda>(rs, e).
       areturn ((fed + int (length chunk), blocks) # rs, e)))"

fun link_run ::
    "(string \<Rightarrow> string \<Rightarrow> ('w, 'w make_prepare) act) \<Rightarrow> bytes list \<Rightarrow>
     ('w link, (int \<times> entry list) list \<times> entry) act" where
  "link_run load [] = abind (link_finalize load) (\<lambda>e. areturn ([], e))"
| "link_run load (chunk # rest) = abind (link_feed load chunk) (\<lambda>r.
     abind (link_run load rest) (\<lambda>(rs, e). areturn (r # rs, e)))"

definition direct_prepare ::
    "(string \<Rightarrow> string \<Rightarrow> ('w, 'w make_prepare) act) \<Rightarrow> worker_init_options \<Rightarrow> bytes list \<Rightarrow>
     ('w, (int \<times> entry list) list \<times> entry) act" where
  "direct_prepare load o1 chunks =
     abind (construct load o1) (\<lambda>s. session_run s 0 chunks)"

definition link_prepare ::
    "(string \<Rightarrow> string \<Rightarrow> ('w, 'w make_prepare) act) \<Rightarrow> worker_init_options \<Rightarrow> bytes list \<Rightarrow>
     ('w link, (int \<times> entry list) list \<times> entry) act" where
  "link_prepare load o1 chunks = abind (link_init load o1) (\<lambda>_. link_run load chunks)"

lemma link_run_refines:
  assumes "link_session s (c, k, w)" "session_run s (wk_bytesFed k) chunks w = (r, w')"
  shows "\<exists>c' k'. link_run load chunks (c, k, w) = (relayed r, (c', k', w')) \<and> idle c'"
  using assms
proof (induction chunks arbitrary: c k w r)
  case Nil
  obtain r1 where f: "ws_finalize s w = (r1, w')" and r: "r = rbind r1 (\<lambda>e. Inr ([], e))"
    using Nil.prems(2) by (auto simp: abind_def split: prod.splits sum.splits)
  from link_finalize_refines[OF Nil.prems(1) f, of load] obtain c' k' where
    "link_finalize load (c, k, w) = (relayed r1, (c', k', w'))" "idle c'" by blast
  then show ?case using r by (cases r1) (auto simp: abind_def)
next
  case (Cons chunk rest)
  obtain r1 w1 where f: "feed_and_take s chunk w = (r1, w1)" by fastforce
  from link_feed_refines[OF Cons.prems(1) f, of load] obtain c1 k1 where
    l: "link_feed load chunk (c, k, w) =
      (rbind (relayed r1) (\<lambda>blocks. Inr (wk_bytesFed k + int (length chunk), blocks)), (c1, k1, w1))"
    and ok: "link_session s (c1, k1, w1)"
    and fed: "is_ok r1 \<longrightarrow> wk_bytesFed k1 = wk_bytesFed k + int (length chunk)" by blast
  show ?case
  proof (cases r1)
    case (Inl e)
    with l f Cons.prems(2) ok show ?thesis by (auto simp: abind_def link_session_def)
  next
    case (Inr blocks)
    obtain r2 where s: "session_run s (wk_bytesFed k1) rest w1 = (r2, w')"
      and r: "r = rbind r2 (\<lambda>(rs, e). Inr ((wk_bytesFed k1, blocks) # rs, e))"
      using Cons.prems(2) Inr f fed by (auto simp: abind_def split: prod.splits sum.splits)
    from Cons.IH[OF ok s] obtain c' k' where
      "link_run load rest (c1, k1, w1) = (relayed r2, (c', k', w'))" "idle c'" by blast
    then show ?thesis using l Inr r fed by (cases r2) (auto simp: abind_def)
  qed
qed

lemma idle_new: "idle worker_client_new"
  using client_inv_new by (simp add: idle_def worker_client_new_def)

text \<open>C12. Encryption in the worker refines the session it hides: a fresh client and a fresh worker,
  initialised, fed any chunks and finalised over the message protocol, return exactly the blocks,
  byte counts and final block of the session driven directly, in the same order, and leave the
  module's memory in the same state. An error of loading, construction, feeding or finalising
  reaches the caller at the same point, as an \<open>Error\<close> with the same text; and the client then has
  no promise left open.\<close>

theorem worker_session_refines:
  "\<exists>c k. link_prepare load o1 chunks (worker_client_new, worker_scope_new, w) =
     (relayed (fst (direct_prepare load o1 chunks w)), (c, k, snd (direct_prepare load o1 chunks w))) \<and>
     wc_pending c = []"
proof -
  obtain r1 w1 where b: "construct load o1 w = (r1, w1)" by fastforce
  from link_init_refines[OF idle_new _ b, of worker_scope_new] obtain c1 k1 where
    i: "link_init load o1 (worker_client_new, worker_scope_new, w) =
        (rbind (relayed r1) (\<lambda>_. Inr ()), (c1, k1, w1))" "idle c1"
    and s: "\<forall>s. r1 = Inr s \<longrightarrow> link_session s (c1, k1, w1) \<and> wk_bytesFed k1 = 0"
    by (auto simp: worker_scope_new_def)
  show ?thesis
  proof (cases r1)
    case (Inl e)
    with i b show ?thesis by (auto simp: link_prepare_def direct_prepare_def abind_run idle_def)
  next
    case (Inr s1)
    obtain r w' where d: "session_run s1 0 chunks w1 = (r, w')" by fastforce
    with s Inr obtain c' k' where
      "link_run load chunks (c1, k1, w1) = (relayed r, (c', k', w'))" "idle c'"
      using link_run_refines[of s1 c1 k1 w1 chunks r w' load] by auto
    with i b d Inr show ?thesis
      by (auto simp: link_prepare_def direct_prepare_def abind_run idle_def)
  qed
qed

text \<open>C21. The promises of the worker client are disciplined under every sequence of requests,
  answers (also unknown, late or repeated ones), error events and disposals: no promise is settled
  twice, an accepted answer settles the promise of its own identifier, a promise once settled keeps
  its result, and after disposal no promise is open and every request is refused.\<close>

theorem worker_promises_disciplined:
  assumes "client_step\<^sup>*\<^sup>* worker_client_new c" "client_step\<^sup>*\<^sup>* c c'"
  shows "distinct (wc_pending c @ map fst (wc_settled c)) \<and>
    (\<forall>i r. (i, Inr r) \<in> set (wc_settled c) \<longrightarrow> response_id r = i) \<and>
    (\<forall>i r. map_of (wc_settled c) i = Some r \<longrightarrow> map_of (wc_settled c') i = Some r) \<and>
    (wc_disposed c \<longrightarrow> wc_pending c = [] \<and> client_request build c =
       (Inl (ErrorObj ''upload prepare worker already disposed''), c))"
proof (intro conjI allI impI)
  have inv: "client_inv c" using worker.inv_steps[OF assms(1) client_inv_new] .
  then show "distinct (wc_pending c @ map fst (wc_settled c))" by (simp add: client_inv_def)
  show "response_id r = i" if "(i, Inr r) \<in> set (wc_settled c)" for i r
    using inv that by (auto simp: client_inv_def)
  show "map_of (wc_settled c') i = Some r" if "map_of (wc_settled c) i = Some r" for i r
    using client_steps_settled[OF assms(2)] that by (auto simp: map_add_dom_app_simps map_add_def)
  show "wc_pending c = []" if "wc_disposed c" using inv that by (simp add: client_inv_def)
  show "client_request build c =
      (Inl (ErrorObj ''upload prepare worker already disposed''), c)" if "wc_disposed c"
    using that by (simp add: client_request_def)
qed

definition demo_client :: worker_client where
  "demo_client = client_dispose (client_onmessage (RespOk 1)
     (snd (client_request ReqFinalize (snd (client_request ReqFinalize worker_client_new)))))"

lemma demo_client_reached: "client_step\<^sup>*\<^sup>* worker_client_new demo_client"
  unfolding demo_client_def
  apply (rule rtranclp.rtrancl_into_rtrancl[where b="client_onmessage (RespOk 1)
     (snd (client_request ReqFinalize (snd (client_request ReqFinalize worker_client_new))))"])
   apply (rule rtranclp.rtrancl_into_rtrancl[where b="
     snd (client_request ReqFinalize (snd (client_request ReqFinalize worker_client_new)))"])
    apply (rule rtranclp.rtrancl_into_rtrancl[where b="snd (client_request ReqFinalize worker_client_new)"])
     apply (rule r_into_rtranclp, rule requested)
    apply (rule requested answered disposed)+
  done

theorem worker_promises_disciplined_witness:
  "map_of (wc_settled demo_client) 1 = Some (Inr (RespOk 1)) \<and>
   map_of (wc_settled (client_dispose demo_client)) 1 = Some (Inr (RespOk 1)) \<and>
   distinct (wc_pending demo_client @ map fst (wc_settled demo_client)) \<and>
   wc_pending demo_client = [] \<and> length (wc_settled demo_client) = 2"
proof -
  have one: "client_step\<^sup>*\<^sup>* demo_client (client_dispose demo_client)"
    by (rule r_into_rtranclp) (rule disposed)
  have ev: "map_of (wc_settled demo_client) 1 = Some (Inr (RespOk 1))" "wc_disposed demo_client"
    "length (wc_settled demo_client) = 2"
    by code_simp+
  show ?thesis
    using worker_promises_disciplined[OF demo_client_reached one] ev by metis
qed

end
