(* ===== verification/Prepare.thy ===== *)
theory Prepare
  imports Wasm Stripe HashPool
begin

text \<open>
  Encrypting a file for upload (\<open>session/upload-session.ts\<close>): reading the file in slices, feeding
  the encryption session in the main thread or in a worker, the fallback from the one to the other,
  the second attempt with smaller wire blocks, and hashing the blocks as they come out. The
  caller's callbacks are recorded as events in the order in which they are made.
\<close>

section \<open>Choices of the upload\<close>

text \<open>\<open>/wire layout failed/i\<close> on the message of an \<open>Error\<close>.\<close>

definition isWireLayoutFailure :: "thrown \<Rightarrow> bool" where
  "isWireLayoutFailure e =
     (if \<not> is_Error e then False else matches_any_ci [''wire layout failed''] (error_message e))"

record wire_choice =
  wo_maxWireBlockBytes :: "jsnum option"
  wo_relayMaxBodyBytes :: "int option"
  wo_preferConservative :: "bool option"

definition resolvePrepareMaxWireBlockBytes ::
    "runtime_env \<Rightarrow> jsnum \<Rightarrow> wire_choice \<Rightarrow> int res" where
  "resolvePrepareMaxWireBlockBytes env fileSizeBytes options = (case wo_maxWireBlockBytes options of
     Some m \<Rightarrow>
       if \<not> num_isFinite m \<or> num_le m (Fin 0)
       then Inl (ErrorObj ''maxWireBlockBytes must be a positive finite number'')
       else (case m of Fin r \<Rightarrow> Inr (trunc_rat r) | _ \<Rightarrow> Inr 0)
   | None \<Rightarrow> resolveEffectiveWireBlockBytes env
       \<lparr>co_fileSizeBytes = fileSizeBytes,
        co_relayMaxBodyBytes = Some (default_to (wo_relayMaxBodyBytes options) DEFAULT_RELAY_MAX_BODY_BYTES),
        co_preferConservative = wo_preferConservative options, co_isMobile = None\<rparr>)"

text \<open>A file in memory: encrypt it in one call, once more with 16 MiB blocks if the layout failed.\<close>

definition prepareUpload ::
    "runtime_env \<Rightarrow> 'w twelve_c \<Rightarrow> bytes \<Rightarrow> string \<Rightarrow> string option \<Rightarrow> int option \<Rightarrow> wire_choice \<Rightarrow>
     ('w, upload_map) act" where
  "prepareUpload env tc plaintext credential fileName segmentCode options =
     (let size1 = Fin (of_int (int (length plaintext))) in
      abind (alift (case segmentCode of Some c \<Rightarrow> Inr c | None \<Rightarrow> selectSegmentCodeForFileSize size1)) (\<lambda>code.
      abind (alift (validateSegmentCode code)) (\<lambda>_.
      abind (alift (resolvePrepareMaxWireBlockBytes env size1 options)) (\<lambda>max_block.
      acatch (tc_prepareUpload tc plaintext credential fileName code max_block) (\<lambda>e.
        if isWireLayoutFailure e \<and> WIRE_BLOCK_BYTES_16_MIB < max_block
        then tc_prepareUpload tc plaintext credential fileName code WIRE_BLOCK_BYTES_16_MIB
        else athrow e)))))"

section \<open>Reading the file\<close>

text \<open>
  A \<open>File\<close>: \<open>file_slice a b\<close> is \<open>slice(a, b).arrayBuffer()\<close>, which may reject when the file changed
  on disk.
\<close>

record js_file =
  file_name :: string
  file_size :: int
  file_slice :: "int \<Rightarrow> int \<Rightarrow> bytes res"
  file_arrayBuffer :: "bytes res"

definition UPLOAD_FILE_READ_SLICE_BYTES :: int where
  "UPLOAD_FILE_READ_SLICE_BYTES = 2 * 1024 * 1024"

definition UPLOAD_FEED_YIELD_CHUNK_BYTES :: int where
  "UPLOAD_FEED_YIELD_CHUNK_BYTES = 256 * 1024"

definition UPLOAD_WORKER_FEED_CHUNK_BYTES :: int where
  "UPLOAD_WORKER_FEED_CHUNK_BYTES = 4 * 1024 * 1024"

definition UPLOAD_PROGRESS_REPORT_INTERVAL_BYTES :: int where
  "UPLOAD_PROGRESS_REPORT_INTERVAL_BYTES = 4 * 1024 * 1024"

text \<open>The inner loop of \<open>readFileByGcmSegments\<close>: the slices of one segment.\<close>

function segment_slices :: "int \<Rightarrow> int \<Rightarrow> (int \<times> int) list" where
  "segment_slices sliceOffset segmentEnd =
     (if sliceOffset < segmentEnd
      then let len = min UPLOAD_FILE_READ_SLICE_BYTES (segmentEnd - sliceOffset)
           in (sliceOffset, sliceOffset + len) # segment_slices (sliceOffset + len) segmentEnd
      else [])"
  by pat_completeness auto
termination
  by (relation "measure (\<lambda>(a, b). nat (b - a))") (auto simp: UPLOAD_FILE_READ_SLICE_BYTES_def)

text \<open>The outer loop; the segment length is positive for every V2.1 code.\<close>

function file_slices :: "int \<Rightarrow> int \<Rightarrow> int \<Rightarrow> (int \<times> int) list" where
  "file_slices segmentBytes size1 offset =
     (if 0 < segmentBytes \<and> offset < size1
      then let segmentEnd = min (offset + segmentBytes) size1
           in segment_slices offset segmentEnd @ file_slices segmentBytes size1 segmentEnd
      else [])"
  by pat_completeness auto
termination
  by (relation "measure (\<lambda>(s, n, a). nat (n - a))") auto

declare segment_slices.simps [simp del] file_slices.simps [simp del]

text \<open>The generator as the list of its reads, or its throw at the first \<open>next()\<close>.\<close>

definition readFileByGcmSegments :: "js_file \<Rightarrow> int \<Rightarrow> bytes res list res" where
  "readFileByGcmSegments f segmentCode =
     (if isV2WholeFileSegmentCode segmentCode
      then Inr (if 0 < file_size f then [file_arrayBuffer f] else [])
      else rbind (decodeSegmentPlaintextBytesV21 segmentCode) (\<lambda>segmentBytes.
        Inr (map (\<lambda>(a, b). file_slice f a b) (file_slices segmentBytes (file_size f) 0))))"

section \<open>State of a preparation\<close>

datatype prep_event = PrepStatus upload_status | BlockReady entry

text \<open>The blocks announced.\<close>

fun ready_of :: "prep_event list \<Rightarrow> entry list" where
  "ready_of [] = []"
| "ready_of (PrepStatus _ # evs) = ready_of evs"
| "ready_of (BlockReady b # evs) = b # ready_of evs"

record prep_run =
  pr_bytesFed :: int
  pr_uploads :: upload_map
  pr_events :: "prep_event list"

definition emit_event :: "prep_event \<Rightarrow> ('a \<times> prep_run, unit) act" where
  "emit_event ev = amodify (\<lambda>(a, p). (a, p\<lparr>pr_events := pr_events p @ [ev]\<rparr>))"

definition set_fed :: "int \<Rightarrow> ('a \<times> prep_run, unit) act" where
  "set_fed n = amodify (\<lambda>(a, p). (a, p\<lparr>pr_bytesFed := n\<rparr>))"

definition start_run :: "('a \<times> prep_run, unit) act" where
  "start_run = amodify (\<lambda>(a, p). (a, p\<lparr>pr_bytesFed := 0, pr_uploads := []\<rparr>))"

definition storeWireBlock :: "entry \<Rightarrow> ('a \<times> prep_run, unit) act" where
  "storeWireBlock block = aseq
     (amodify (\<lambda>(a, p). (a, p\<lparr>pr_uploads := jm_set (fst block) (snd block) (pr_uploads p)\<rparr>)))
     (emit_event (BlockReady block))"

definition preparing_status :: "int \<Rightarrow> int \<Rightarrow> int \<Rightarrow> int \<Rightarrow> upload_status" where
  "preparing_status fed size1 index total1 =
     Preparing (Some fed) (Some size1) (Some index) (Some total1)"

definition reportPreparingProgress :: "js_file \<Rightarrow> int \<Rightarrow> int \<Rightarrow> int \<Rightarrow> ('a \<times> prep_run, unit) act" where
  "reportPreparingProgress f code segmentBytes segmentTotal =
     abind (aget (\<lambda>(a, p). pr_bytesFed p)) (\<lambda>fed.
       let index = (if isV2WholeFileSegmentCode code then 1
                    else min segmentTotal (max 1 \<lceil>rat_of_int fed / rat_of_int segmentBytes\<rceil>))
       in emit_event (PrepStatus (preparing_status fed (file_size f) index segmentTotal)))"

text \<open>\<open>for await (const chunk of reads) { body }\<close>: a rejected read or a throw of the body ends it.\<close>

fun for_await :: "bytes res list \<Rightarrow> (bytes \<Rightarrow> ('w, unit) act) \<Rightarrow> ('w, unit) act" where
  "for_await [] body = areturn ()"
| "for_await (r # rs) body = abind (alift r) (\<lambda>chunk. aseq (body chunk) (for_await rs body))"

section \<open>Encrypting in the main thread\<close>

text \<open>Positions inside a chunk are \<open>nat\<close>; \<open>since\<close> is \<open>bytesSinceLastReport\<close>.\<close>

function feed_yield_loop ::
    "'m prepare_session \<Rightarrow> bytes \<Rightarrow> (int \<Rightarrow> ('m \<times> prep_run, unit) act) option \<Rightarrow> nat \<Rightarrow> int \<Rightarrow>
     ('m \<times> prep_run, int) act" where
  "feed_yield_loop session chunk onPartial offset since =
     (if offset < length chunk
      then let stop = min (offset + nat UPLOAD_FEED_YIELD_CHUNK_BYTES) (length chunk);
               since' = since + int (stop - offset)
           in aseq (on_memory (ps_feed session (take (stop - offset) (drop offset chunk))))
             (case onPartial of
                Some report \<Rightarrow>
                  if UPLOAD_PROGRESS_REPORT_INTERVAL_BYTES \<le> since'
                  then aseq (report since') (feed_yield_loop session chunk onPartial
                         (offset + nat UPLOAD_FEED_YIELD_CHUNK_BYTES) 0)
                  else feed_yield_loop session chunk onPartial
                         (offset + nat UPLOAD_FEED_YIELD_CHUNK_BYTES) since'
              | None \<Rightarrow> feed_yield_loop session chunk onPartial
                         (offset + nat UPLOAD_FEED_YIELD_CHUNK_BYTES) since')
      else areturn since)"
  by pat_completeness auto
termination
  by (relation "measure (\<lambda>(s, c, p, i, k). length c - i)")
    (auto simp: UPLOAD_FEED_YIELD_CHUNK_BYTES_def)

declare feed_yield_loop.simps [simp del]

definition feedUploadSessionWithYield ::
    "'m prepare_session \<Rightarrow> bytes \<Rightarrow> (int \<Rightarrow> ('m \<times> prep_run, unit) act) option \<Rightarrow>
     ('m \<times> prep_run, unit) act" where
  "feedUploadSessionWithYield session chunk onPartial =
     abind (feed_yield_loop session chunk onPartial 0 0) (\<lambda>since.
       case onPartial of
         Some report \<Rightarrow> if 0 < since then report since else areturn ()
       | None \<Rightarrow> areturn ())"

text \<open>Segment length and number of the file, and the first status.\<close>

definition segment_layout :: "js_file \<Rightarrow> int \<Rightarrow> (int \<times> int) res" where
  "segment_layout f code =
     rbind (countGcmSegmentsForFileSize (Fin (of_int (file_size f))) code) (\<lambda>segmentTotal.
     rbind (if isV2WholeFileSegmentCode code then Inr (file_size f)
            else decodeSegmentPlaintextBytesV21 code) (\<lambda>segmentBytes.
     Inr (segmentTotal, segmentBytes)))"

text \<open>The first and the last status.\<close>

definition report_start :: "js_file \<Rightarrow> int \<Rightarrow> ('a \<times> prep_run, unit) act" where
  "report_start f segmentTotal = emit_event (PrepStatus (preparing_status 0 (file_size f)
     (if file_size f = 0 then 0 else 1) segmentTotal))"

definition report_end :: "js_file \<Rightarrow> int \<Rightarrow> ('a \<times> prep_run, upload_map) act" where
  "report_end f segmentTotal = aseq
     (emit_event (PrepStatus (preparing_status (file_size f) (file_size f) segmentTotal segmentTotal)))
     (aget (\<lambda>(a, p). pr_uploads p))"

text \<open>The callback that counts the bytes, the body of the loop, and what is done with the session.\<close>

definition main_partial :: "js_file \<Rightarrow> int \<Rightarrow> int \<Rightarrow> int \<Rightarrow> int \<Rightarrow> ('a \<times> prep_run, unit) act" where
  "main_partial f code segmentBytes segmentTotal delta =
     abind (aget (\<lambda>(a, p). pr_bytesFed p)) (\<lambda>fed.
     aseq (set_fed (fed + delta)) (reportPreparingProgress f code segmentBytes segmentTotal))"

definition main_body ::
    "'m prepare_session \<Rightarrow> (int \<Rightarrow> ('m \<times> prep_run, unit) act) \<Rightarrow> bytes \<Rightarrow> ('m \<times> prep_run, unit) act" where
  "main_body session rep chunk = aseq (feedUploadSessionWithYield session chunk (Some rep))
     (abind (on_memory (ps_takeReadyBlocks session)) (\<lambda>blocks. afor blocks storeWireBlock))"

definition main_session_body ::
    "'m prepare_session \<Rightarrow> js_file \<Rightarrow> int \<Rightarrow> int \<Rightarrow> int \<Rightarrow> ('m \<times> prep_run, unit) act" where
  "main_session_body session f code segmentBytes segmentTotal =
     abind (alift (readFileByGcmSegments f code)) (\<lambda>reads.
     aseq (for_await reads (main_body session (main_partial f code segmentBytes segmentTotal)))
     (abind (on_memory (ps_finalize session)) storeWireBlock))"

definition prepareUploadStreamingOnMainThread ::
    "'m twelve_c \<Rightarrow> js_file \<Rightarrow> string \<Rightarrow> string \<Rightarrow> int \<Rightarrow> int \<Rightarrow> ('m \<times> prep_run, upload_map) act" where
  "prepareUploadStreamingOnMainThread tc f credential fileName code max_block =
     abind (alift (segment_layout f code)) (\<lambda>(segmentTotal, segmentBytes).
     aseq (report_start f segmentTotal)
     (abind (on_memory (tc_createUploadPrepareSession tc credential (Some fileName) (file_size f) code
              max_block)) (\<lambda>session.
      aseq start_run (
      aseq (main_session_body session f code segmentBytes segmentTotal)
      (report_end f segmentTotal)))))"

section \<open>Encrypting in a worker\<close>

record 'm worker_env =
  we_hasWorker :: bool
  we_hasModuleUrl :: bool
  we_createUploadWorker :: "('m, unit) act option"
  we_createDefault :: "('m, unit) act"
  we_load :: "string \<Rightarrow> string \<Rightarrow> ('m, 'm make_prepare) act"

definition UPLOAD_PREPARE_WORKER_CREATE_ATTEMPTS :: nat where
  "UPLOAD_PREPARE_WORKER_CREATE_ATTEMPTS = 2"

text \<open>
  The attempts that are left, with the last error. A worker that was created is disposed when its
  initialisation fails.
\<close>

fun create_worker_attempts ::
    "(string \<Rightarrow> string \<Rightarrow> ('m, 'm make_prepare) act) \<Rightarrow> ('m, unit) act \<Rightarrow> worker_init_options \<Rightarrow>
     nat \<Rightarrow> thrown option \<Rightarrow> ('m, worker_client \<times> 'm worker_scope) act" where
  "create_worker_attempts load createWorker o1 0 lastError m =
     (Inl (case lastError of
        Some e \<Rightarrow> if is_Error e then e else ErrorObj (thrown_text e)
      | None \<Rightarrow> ErrorObj ''upload prepare worker create failed''), m)"
| "create_worker_attempts load createWorker o1 (Suc n) lastError m =
     (case createWorker m of
        (Inl e, m') \<Rightarrow> create_worker_attempts load createWorker o1 n (Some e) m'
      | (Inr _, m') \<Rightarrow>
          (case link_init load o1 (worker_client_new, worker_scope_new, m') of
             (Inl e, lk) \<Rightarrow>
               (case link_dispose lk of (c, k, m'') \<Rightarrow>
                  create_worker_attempts load createWorker o1 n (Some e) m'')
           | (Inr _, (c, k, m'')) \<Rightarrow> (Inr (c, k), m'')))"

definition createInitializedUploadPrepareWorker ::
    "(string \<Rightarrow> string \<Rightarrow> ('m, 'm make_prepare) act) \<Rightarrow> ('m, unit) act \<Rightarrow> worker_init_options \<Rightarrow>
     ('m, worker_client \<times> 'm worker_scope) act" where
  "createInitializedUploadPrepareWorker load createWorker o1 =
     create_worker_attempts load createWorker o1 UPLOAD_PREPARE_WORKER_CREATE_ATTEMPTS None"

text \<open>The loop over the parts of one chunk.\<close>

function worker_feed_loop ::
    "(string \<Rightarrow> string \<Rightarrow> ('m, 'm make_prepare) act) \<Rightarrow> ('m link \<times> prep_run, unit) act \<Rightarrow> bytes \<Rightarrow>
     nat \<Rightarrow> ('m link \<times> prep_run, unit) act" where
  "worker_feed_loop load report chunk offset =
     (if offset < length chunk
      then let stop = min (offset + nat UPLOAD_WORKER_FEED_CHUNK_BYTES) (length chunk)
           in abind (on_memory (link_feed load (take (stop - offset) (drop offset chunk))))
                (\<lambda>(fed, blocks).
              aseq (set_fed fed) (aseq (afor blocks storeWireBlock) (aseq report
                (worker_feed_loop load report chunk (offset + nat UPLOAD_WORKER_FEED_CHUNK_BYTES)))))
      else areturn ())"
  by pat_completeness auto
termination
  by (relation "measure (\<lambda>(l, r, c, i). length c - i)")
    (auto simp: UPLOAD_WORKER_FEED_CHUNK_BYTES_def)

declare worker_feed_loop.simps [simp del]

definition worker_session_body ::
    "(string \<Rightarrow> string \<Rightarrow> ('m, 'm make_prepare) act) \<Rightarrow> js_file \<Rightarrow> int \<Rightarrow> int \<Rightarrow> int \<Rightarrow>
     ('m link \<times> prep_run, unit) act" where
  "worker_session_body load f code segmentBytes segmentTotal =
     abind (alift (readFileByGcmSegments f code)) (\<lambda>reads.
     aseq (for_await reads (\<lambda>chunk. worker_feed_loop load
            (reportPreparingProgress f code segmentBytes segmentTotal) chunk 0))
     (abind (on_memory (link_finalize load)) storeWireBlock))"

text \<open>\<open>try { ... } finally { client.dispose(); }\<close>; the client is gone afterwards.\<close>

definition with_worker ::
    "('m link \<times> prep_run, unit) act \<Rightarrow> worker_client \<times> 'm worker_scope \<Rightarrow> ('m \<times> prep_run, unit) act" where
  "with_worker body ck mp = (case ck of (c, k) \<Rightarrow> (case mp of (m, p) \<Rightarrow>
     (case afinally body (\<lambda>(lk, q). (link_dispose lk, q)) ((c, k, m), p) of
        (r, ((_, _, m'), p')) \<Rightarrow> (r, (m', p')))))"

definition prepareUploadStreamingInWorker ::
    "'m worker_env \<Rightarrow> string option \<Rightarrow> string option \<Rightarrow> js_file \<Rightarrow> string \<Rightarrow> string \<Rightarrow> int \<Rightarrow> int \<Rightarrow>
     ('m \<times> prep_run, upload_map) act" where
  "prepareUploadStreamingInWorker we wasmScriptUrl wasmBinaryUrl f credential fileName code max_block =
     abind (alift (segment_layout f code)) (\<lambda>(segmentTotal, segmentBytes).
     aseq (report_start f segmentTotal)
     (abind (on_memory (createInitializedUploadPrepareWorker (we_load we)
             (default_to (we_createUploadWorker we) (we_createDefault we))
             \<lparr>wi_wasmScriptUrl = default_to wasmScriptUrl DEFAULT_UPLOAD_WASM_SCRIPT_URL,
              wi_wasmBinaryUrl = default_to wasmBinaryUrl DEFAULT_UPLOAD_WASM_BINARY_URL,
              wi_credential = credential, wi_fileName = fileName, wi_fileSize = file_size f,
              wi_segmentCode = code, wi_maxWireBlockBytes = max_block\<rparr>)) (\<lambda>ck.
      aseq start_run (
      aseq (with_worker (worker_session_body (we_load we) f code segmentBytes segmentTotal) ck)
      (report_end f segmentTotal)))))"

section \<open>Choosing and retrying\<close>

record prepare_options = wire_choice +
  po_wasmScriptUrl :: "string option"
  po_wasmBinaryUrl :: "string option"
  po_preferWorker :: "bool option"

definition executePrepareUploadStreaming ::
    "'m worker_env \<Rightarrow> js_file \<Rightarrow> string \<Rightarrow> 'm twelve_c \<Rightarrow> string \<Rightarrow> int \<Rightarrow> int \<Rightarrow> prepare_options \<Rightarrow>
     ('m \<times> prep_run, upload_map) act" where
  "executePrepareUploadStreaming we f credential tc fileName code max_block options =
     (let on_main = prepareUploadStreamingOnMainThread tc f credential fileName code max_block in
      if po_preferWorker options \<noteq> Some False \<and>
         canUseUploadPrepareWorker (we_hasWorker we) (we_createUploadWorker we \<noteq> None) (we_hasModuleUrl we)
      then acatch (prepareUploadStreamingInWorker we (po_wasmScriptUrl options)
               (po_wasmBinaryUrl options) f credential fileName code max_block)
             (\<lambda>e. if po_preferWorker options = Some True then athrow e else on_main)
      else on_main)"

definition prepareUploadStreaming ::
    "runtime_env \<Rightarrow> 'm worker_env \<Rightarrow> js_file \<Rightarrow> string \<Rightarrow> 'm twelve_c \<Rightarrow> string option \<Rightarrow> int option \<Rightarrow>
     prepare_options \<Rightarrow> ('m \<times> prep_run, upload_map) act" where
  "prepareUploadStreaming env we f credential tc given_name segmentCode options =
     (let size1 = Fin (of_int (file_size f));
          fileName = default_to given_name (file_name f) in
      abind (alift (case segmentCode of Some c \<Rightarrow> Inr c | None \<Rightarrow> selectSegmentCodeForFileSize size1)) (\<lambda>code.
      abind (alift (validateSegmentCode code)) (\<lambda>_.
      abind (alift (resolvePrepareMaxWireBlockBytes env size1 (wire_choice.truncate options))) (\<lambda>max_block.
      acatch (executePrepareUploadStreaming we f credential tc fileName code max_block options) (\<lambda>e.
        if \<not> isWireLayoutFailure e \<or> max_block \<le> WIRE_BLOCK_BYTES_16_MIB then athrow e
        else executePrepareUploadStreaming we f credential tc fileName code
               WIRE_BLOCK_BYTES_16_MIB options)))))"

section \<open>Hashing the blocks as they come\<close>

text \<open>
  The callback of \<open>prepareUploadStreamingWithHashes\<close> enqueues every announced block in the pool,
  while the digests of earlier blocks settle at any time.
\<close>

inductive pool_fed :: "(hash_job \<Rightarrow> string option) \<Rightarrow> hash_pool \<Rightarrow> entry list \<Rightarrow> hash_pool \<Rightarrow> bool"
  for digest where
  fed_done: "pool_fed digest s [] s"
| fed_settle: "pool_settles digest s t \<Longrightarrow> pool_fed digest t bs u \<Longrightarrow> pool_fed digest s bs u"
| fed_block: "enqueue tok data s = Inr t \<Longrightarrow> pool_fed digest t bs u \<Longrightarrow>
    pool_fed digest s ((tok, data) # bs) u"

text \<open>\<open>await hashPool.drain()\<close> afterwards.\<close>

definition drains_to ::
    "(hash_job \<Rightarrow> string option) \<Rightarrow> hash_pool \<Rightarrow> entry list \<Rightarrow> block_hash_entry list \<Rightarrow> bool" where
  "drains_to digest pool1 blocks hs \<longleftrightarrow> (\<exists>s t. pool_fed digest pool1 blocks s \<and>
     (pool_settles digest)\<^sup>*\<^sup>* (drain_start 0 s) t \<and> 0 \<in> set (hp_resolved t) \<and> hs = drain_result t)"

text \<open>
  The map, the pool as constructed, and the blocks announced to it; the hashes are what
  \<open>drains_to\<close> allows.
\<close>

definition prepareUploadStreamingWithHashes ::
    "runtime_env \<Rightarrow> 'm worker_env \<Rightarrow> js_file \<Rightarrow> string \<Rightarrow> 'm twelve_c \<Rightarrow> string option \<Rightarrow> int option \<Rightarrow>
     prepare_options \<Rightarrow> int option \<Rightarrow> ('m \<times> prep_run, upload_map \<times> hash_pool \<times> entry list) act" where
  "prepareUploadStreamingWithHashes env we f credential tc given_name segmentCode options
       hashConcurrency =
     abind (alift (hash_pool_new (Some (default_to hashConcurrency DEFAULT_BLOCK_HASH_CONCURRENCY))))
       (\<lambda>hashPool.
     abind (aget (\<lambda>(m, p). length (ready_of (pr_events p)))) (\<lambda>before.
     abind (prepareUploadStreaming env we f credential tc given_name segmentCode options) (\<lambda>uploads.
     aget (\<lambda>(m, p). (uploads, hashPool, drop before (ready_of (pr_events p)))))))"

section \<open>The slices of a file\<close>

definition memory_file :: "string \<Rightarrow> bytes \<Rightarrow> js_file" where
  "memory_file name content = \<lparr>file_name = name, file_size = int (length content),
     file_slice = (\<lambda>a b. Inr (take (nat (b - a)) (drop (nat a) content))),
     file_arrayBuffer = Inr content\<rparr>"

definition range_bytes :: "bytes \<Rightarrow> int \<times> int \<Rightarrow> bytes" where
  "range_bytes content ab = (case ab of (a, b) \<Rightarrow> take (nat (b - a)) (drop (nat a) content))"

lemma take_drop_split:
  assumes "0 \<le> a" "a \<le> b" "b \<le> c"
  shows "take (nat (b - a)) (drop (nat a) xs) @ take (nat (c - b)) (drop (nat b) xs) =
    take (nat (c - a)) (drop (nat a) xs)"
proof -
  have "nat (c - a) = nat (b - a) + nat (c - b)" "nat b = nat (b - a) + nat a"
    using assms by linarith+
  then show ?thesis by (simp add: take_add)
qed

lemma slices_done [simp]: "segment_slices b b = []" "file_slices s n n = []"
  by (subst segment_slices.simps, simp) (subst file_slices.simps, simp)

lemma segment_slices_cover:
  assumes "0 \<le> a" "a \<le> b"
  shows "concat (map (range_bytes content) (segment_slices a b)) =
      take (nat (b - a)) (drop (nat a) content) \<and>
    (\<forall>(x, y)\<in>set (segment_slices a b). a \<le> x \<and> x < y \<and> y \<le> b \<and> y - x \<le> UPLOAD_FILE_READ_SLICE_BYTES)"
  using assms
proof (induction a b rule: segment_slices.induct)
  case (1 a b)
  show ?case
  proof (cases "a < b")
    case False
    with 1 have "a = b" by simp
    then show ?thesis by simp
  next
    case True
    define m where "m = a + min UPLOAD_FILE_READ_SLICE_BYTES (b - a)"
    have m: "a < m" "m \<le> b" "m - a \<le> UPLOAD_FILE_READ_SLICE_BYTES"
      using True by (auto simp: m_def UPLOAD_FILE_READ_SLICE_BYTES_def)
    have eq: "segment_slices a b = (a, m) # segment_slices m b"
      using True by (subst segment_slices.simps) (simp add: m_def Let_def)
    have ih: "concat (map (range_bytes content) (segment_slices m b)) =
      take (nat (b - m)) (drop (nat m) content) \<and>
      (\<forall>(x, y)\<in>set (segment_slices m b). m \<le> x \<and> x < y \<and> y \<le> b \<and>
         y - x \<le> UPLOAD_FILE_READ_SLICE_BYTES)"
      using 1(1)[OF True, of "m - a"] m 1(2) by (simp add: m_def)
    have "concat (map (range_bytes content) (segment_slices a b)) =
        take (nat (b - a)) (drop (nat a) content)"
      using ih take_drop_split[of a m b content] m 1(2) by (simp add: eq range_bytes_def)
    moreover have "\<forall>(x, y)\<in>set (segment_slices a b). a \<le> x \<and> x < y \<and> y \<le> b \<and>
        y - x \<le> UPLOAD_FILE_READ_SLICE_BYTES"
      using ih m unfolding eq by fastforce
    ultimately show ?thesis ..
  qed
qed

lemma file_slices_cover:
  assumes "0 \<le> a" "a \<le> n" "0 < s" "s dvd a"
  shows "concat (map (range_bytes content) (file_slices s n a)) =
      take (nat (n - a)) (drop (nat a) content) \<and>
    (\<forall>(x, y)\<in>set (file_slices s n a). a \<le> x \<and> x < y \<and> y \<le> n \<and>
       y - x \<le> UPLOAD_FILE_READ_SLICE_BYTES \<and> x div s = (y - 1) div s)"
  using assms
proof (induction s n a rule: file_slices.induct)
  case (1 s n a)
  show ?case
  proof (cases "a < n")
    case False
    with 1 have "a = n" by simp
    then show ?thesis by simp
  next
    case True
    define m where "m = min (a + s) n"
    have m: "a < m" "m \<le> n" "m \<le> a + s" using True 1(4) by (auto simp: m_def)
    have eq: "file_slices s n a = segment_slices a m @ file_slices s n m"
      using True 1(4) by (subst file_slices.simps) (simp add: m_def Let_def)
    have seg: "concat (map (range_bytes content) (segment_slices a m)) =
        take (nat (m - a)) (drop (nat a) content)"
      "\<forall>(x, y)\<in>set (segment_slices a m). a \<le> x \<and> x < y \<and> y \<le> m \<and>
         y - x \<le> UPLOAD_FILE_READ_SLICE_BYTES"
      using segment_slices_cover[of a m content] m 1(2) by auto
    have same: "x div s = (y - 1) div s" if "a \<le> x" "x < y" "y \<le> m" for x y
    proof -
      obtain q where q: "a = s * q" using 1(5) by (auto simp: dvd_def)
      have "x div s = q" "(y - 1) div s = q"
        using that m q 1(4) by (auto intro!: int_div_pos_eq[of _ _ _ "_ - s * q"])
      then show ?thesis by simp
    qed
    have ih: "concat (map (range_bytes content) (file_slices s n m)) =
        take (nat (n - m)) (drop (nat m) content) \<and>
      (\<forall>(x, y)\<in>set (file_slices s n m). m \<le> x \<and> x < y \<and> y \<le> n \<and>
         y - x \<le> UPLOAD_FILE_READ_SLICE_BYTES \<and> x div s = (y - 1) div s)"
    proof (cases "m = n")
      case True
      then show ?thesis using m by simp
    next
      case False
      then have "m = a + s" using m by (simp add: m_def)
      then show ?thesis
        using 1(1)[OF _ refl] True 1(2-5) m by (simp add: m_def[symmetric])
    qed
    have "concat (map (range_bytes content) (file_slices s n a)) =
        take (nat (n - a)) (drop (nat a) content)"
      using ih seg(1) take_drop_split[of a m n content] m 1(2) by (simp add: eq)
    moreover have "\<forall>(x, y)\<in>set (file_slices s n a). a \<le> x \<and> x < y \<and> y \<le> n \<and>
       y - x \<le> UPLOAD_FILE_READ_SLICE_BYTES \<and> x div s = (y - 1) div s"
      using ih seg(2) m same unfolding eq by fastforce
    ultimately show ?thesis ..
  qed
qed

definition content_reads :: "int \<Rightarrow> bytes \<Rightarrow> bytes list" where
  "content_reads code content =
     (if isV2WholeFileSegmentCode code then (if content = [] then [] else [content])
      else case decodeSegmentPlaintextBytesV21 code of
        Inl _ \<Rightarrow> []
      | Inr s \<Rightarrow> map (range_bytes content) (file_slices s (int (length content)) 0))"

lemma read_memory_file:
  "validateSegmentCode code = Inr () \<Longrightarrow>
     readFileByGcmSegments (memory_file name content) code = Inr (map Inr (content_reads code content))"
  by (auto simp: readFileByGcmSegments_def memory_file_def content_reads_def range_bytes_def
      decodeSegmentPlaintextBytesV21_def Let_def split: prod.split)

lemma content_reads_bounds:
  assumes "validateSegmentCode code = Inr ()"
  shows "concat (content_reads code content) = content"
    "\<forall>c\<in>set (content_reads code content). c \<noteq> [] \<and>
       (\<not> isV2WholeFileSegmentCode code \<longrightarrow> int (length c) \<le> UPLOAD_FILE_READ_SLICE_BYTES)"
proof -
  have "concat (content_reads code content) = content \<and>
    (\<forall>c\<in>set (content_reads code content). c \<noteq> [] \<and>
       (\<not> isV2WholeFileSegmentCode code \<longrightarrow> int (length c) \<le> UPLOAD_FILE_READ_SLICE_BYTES))"
  proof (cases "isV2WholeFileSegmentCode code")
    case True
    then show ?thesis by (auto simp: content_reads_def)
  next
    case False
    define s where "s = 2 ^ nat (code + 3) * MiB"
    have s: "decodeSegmentPlaintextBytesV21 code = Inr s" "0 < s"
      using assms False
      by (auto simp: decode_ok_iff s_def validateSegmentCode_ok isV2WholeFileSegmentCode_def)
    let ?n = "int (length content)"
    have cover: "concat (map (range_bytes content) (file_slices s ?n 0)) = content"
      "\<forall>(x, y)\<in>set (file_slices s ?n 0). 0 \<le> x \<and> x < y \<and> y \<le> ?n \<and>
         y - x \<le> UPLOAD_FILE_READ_SLICE_BYTES"
      using file_slices_cover[of 0 ?n s content] s(2) by auto
    have "c \<noteq> [] \<and> int (length c) \<le> UPLOAD_FILE_READ_SLICE_BYTES"
      if "c \<in> set (map (range_bytes content) (file_slices s ?n 0))" for c
    proof -
      from that obtain x y where c: "c = range_bytes content (x, y)"
          "(x, y) \<in> set (file_slices s ?n 0)" by auto
      then have "0 \<le> x \<and> x < y \<and> y \<le> ?n \<and> y - x \<le> UPLOAD_FILE_READ_SLICE_BYTES"
        using cover(2) by blast
      then have "int (length c) = y - x" by (auto simp: c(1) range_bytes_def)
      with \<open>0 \<le> x \<and> x < y \<and> y \<le> ?n \<and> y - x \<le> _\<close> show ?thesis by auto
    qed
    with cover(1) s(1) False show ?thesis by (auto simp: content_reads_def)
  qed
  then show "concat (content_reads code content) = content"
    "\<forall>c\<in>set (content_reads code content). c \<noteq> [] \<and>
       (\<not> isV2WholeFileSegmentCode code \<longrightarrow> int (length c) \<le> UPLOAD_FILE_READ_SLICE_BYTES)"
    by blast+
qed

section \<open>Both paths against one session\<close>

text \<open>What the encryption session promises: feeding bytes in two portions is feeding them at once.\<close>

definition chunk_insensitive :: "'m wasm_prepare_session \<Rightarrow> bool" where
  "chunk_insensitive s \<longleftrightarrow> (\<forall>a b m. a \<noteq> [] \<longrightarrow> b \<noteq> [] \<longrightarrow>
     ws_feed s (a @ b) m = aseq (ws_feed s a) (ws_feed s b) m)"

text \<open>What a caller sees of a run, the status updates aside: the map and the blocks announced.\<close>

type_synonym prep_view = "upload_map \<times> entry list"

definition view :: "prep_run \<Rightarrow> prep_view" where
  "view p = (pr_uploads p, ready_of (pr_events p))"

definition store_view :: "entry list \<Rightarrow> prep_view \<Rightarrow> prep_view" where
  "store_view blocks v = (fold (\<lambda>(t, d). jm_set t d) blocks (fst v), snd v @ blocks)"

lemma ready_of_append [simp]: "ready_of (xs @ ys) = ready_of xs @ ready_of ys"
  by (induction xs rule: ready_of.induct) simp_all

lemma store_view_Nil [simp]: "store_view [] v = v"
  by (simp add: store_view_def)

lemma store_view_Cons: "store_view (b # bs) v = store_view bs (store_view [b] v)"
  by (simp add: store_view_def split: prod.split)

lemma storeWireBlock_run:
  "\<exists>p'. storeWireBlock b (x, p) = (Inr (), (x, p')) \<and> view p' = store_view [b] (view p)"
  by (cases b) (simp add: storeWireBlock_def emit_event_def aseq_def abind_def view_def store_view_def)

lemma store_all_run:
  "\<exists>p'. afor bs storeWireBlock (x, p) = (Inr (), (x, p')) \<and> view p' = store_view bs (view p)"
proof (induction bs arbitrary: p)
  case Nil
  then show ?case by simp
next
  case (Cons b bs)
  obtain p1 where p1: "storeWireBlock b (x, p) = (Inr (), (x, p1))" "view p1 = store_view [b] (view p)"
    using storeWireBlock_run by metis
  obtain p2 where "afor bs storeWireBlock (x, p1) = (Inr (), (x, p2))" "view p2 = store_view bs (view p1)"
    using Cons by metis
  with p1 show ?case by (metis afor.simps(2) aseq_run(1) store_view_Cons)
qed

lemma emit_status_run:
  "\<exists>p'. emit_event (PrepStatus st) (x, p) = (Inr (), (x, p')) \<and> view p' = view p"
  by (simp add: emit_event_def view_def)

lemma report_run:
  "\<exists>p'. reportPreparingProgress f code sb total1 (x, p) = (Inr (), (x, p')) \<and> view p' = view p"
  by (simp add: reportPreparingProgress_def abind_def Let_def emit_status_run)

lemma set_fed_run:
  "\<exists>p'. set_fed n (x, p) = (Inr (), (x, p')) \<and> view p' = view p"
  by (simp add: set_fed_def view_def)

definition silent :: "(int \<Rightarrow> ('a \<times> prep_run, unit) act) \<Rightarrow> bool" where
  "silent rep \<longleftrightarrow> (\<forall>d x p. \<exists>p'. rep d (x, p) = (Inr (), (x, p')) \<and> view p' = view p)"

lemma feed_yield_end:
  "\<not> offset < length chunk \<Longrightarrow> feed_yield_loop session chunk rep offset since mp = (Inr since, mp)"
  by (subst feed_yield_loop.simps) simp

text \<open>One round: feed the part, perhaps report, go on with some count.\<close>

lemma feed_yield_round:
  assumes "offset < length chunk" "silent rep"
    and part: "part = take (min (offset + nat UPLOAD_FEED_YIELD_CHUNK_BYTES) (length chunk) - offset)
      (drop offset chunk)"
    and fed: "ps_feed session part m = (r, m1)"
  shows "\<exists>p1 k. view p1 = view p \<and> feed_yield_loop session chunk (Some rep) offset since (m, p) =
    (case r of Inl e \<Rightarrow> (Inl e, (m1, p))
     | Inr _ \<Rightarrow> feed_yield_loop session chunk (Some rep)
         (offset + nat UPLOAD_FEED_YIELD_CHUNK_BYTES) k (m1, p1))"
proof (cases r)
  case (Inl e)
  have "feed_yield_loop session chunk (Some rep) offset since (m, p) = (Inl e, (m1, p))"
    using assms(1) fed Inl
    by (subst feed_yield_loop.simps) (simp add: Let_def part[symmetric] aseq_def abind_def on_memory_def)
  with Inl show ?thesis by auto
next
  case (Inr u)
  let ?k = "since + int (min (offset + nat UPLOAD_FEED_YIELD_CHUNK_BYTES) (length chunk) - offset)"
  obtain p1 where rep: "rep ?k (m1, p) = (Inr (), (m1, p1))" "view p1 = view p"
    using assms(2) unfolding silent_def by metis
  have "feed_yield_loop session chunk (Some rep) offset since (m, p) =
      (if UPLOAD_PROGRESS_REPORT_INTERVAL_BYTES \<le> ?k
       then feed_yield_loop session chunk (Some rep) (offset + nat UPLOAD_FEED_YIELD_CHUNK_BYTES) 0 (m1, p1)
       else feed_yield_loop session chunk (Some rep) (offset + nat UPLOAD_FEED_YIELD_CHUNK_BYTES) ?k (m1, p))"
    using assms(1) fed Inr rep(1)
    by (subst feed_yield_loop.simps) (simp add: Let_def part[symmetric] aseq_def abind_def on_memory_def)
  then show ?thesis using Inr rep(2) by (cases "UPLOAD_PROGRESS_REPORT_INTERVAL_BYTES \<le> ?k") auto
qed

lemma feed_yield_run:
  assumes "chunk_insensitive s" "silent rep"
  shows "offset < length chunk \<Longrightarrow> ws_feed s (drop offset chunk) m = (r, m') \<Longrightarrow>
    \<exists>p' k. feed_yield_loop (client_prepare_session s) chunk (Some rep) offset since (m, p) =
      (rbind r (\<lambda>_. Inr k), (m', p')) \<and> view p' = view p"
proof (induction "length chunk - offset" arbitrary: offset since m p rule: less_induct)
  case less
  let ?Y = "nat UPLOAD_FEED_YIELD_CHUNK_BYTES"
  let ?loop = "feed_yield_loop (client_prepare_session s) chunk (Some rep)"
  define part where "part = take (min (offset + ?Y) (length chunk) - offset) (drop offset chunk)"
  have Y: "0 < ?Y" by (simp add: UPLOAD_FEED_YIELD_CHUNK_BYTES_def)
  obtain r1 m1 where fed: "ws_feed s part m = (r1, m1)" by fastforce
  then have fed': "ps_feed (client_prepare_session s) part m = (r1, m1)"
    by (simp add: client_prepare_session_def)
  from feed_yield_round[OF less.prems(1) assms(2) part_def fed', of p since]
  obtain p1 k where v: "view p1 = view p" and round1: "?loop offset since (m, p) =
      (case r1 of Inl e \<Rightarrow> (Inl e, (m1, p)) | Inr _ \<Rightarrow> ?loop (offset + ?Y) k (m1, p1))" by blast
  show ?case
  proof (cases "offset + ?Y < length chunk")
    case False
    then have "part = drop offset chunk" by (simp add: part_def)
    then have "r1 = r" "m1 = m'" using fed less.prems(2) by auto
    with round1 v show ?thesis by (cases r) (auto simp: feed_yield_end[OF False])
  next
    case True
    have split: "drop offset chunk = part @ drop (offset + ?Y) chunk"
    proof -
      have "part = take ?Y (drop offset chunk)" using True by (simp add: part_def)
      moreover have "drop ?Y (drop offset chunk) = drop (offset + ?Y) chunk"
        by (simp add: add.commute)
      ultimately show ?thesis by (metis append_take_drop_id)
    qed
    have ne: "part \<noteq> []" "drop (offset + ?Y) chunk \<noteq> []"
      using True Y less.prems(1) by (simp_all add: part_def)
    have law: "aseq (ws_feed s part) (ws_feed s (drop (offset + ?Y) chunk)) m = (r, m')"
      using assms(1) ne less.prems(2) unfolding chunk_insensitive_def split by metis
    show ?thesis
    proof (cases r1)
      case (Inl e)
      with law fed have "r = Inl e" "m' = m1" by auto
      with round1 Inl show ?thesis by auto
    next
      case (Inr u)
      with law fed have rest: "ws_feed s (drop (offset + ?Y) chunk) m1 = (r, m')" by simp
      have "length chunk - (offset + ?Y) < length chunk - offset" using Y less.prems(1) by linarith
      from less.hyps[OF this True rest, of k p1] obtain p' k' where
        "?loop (offset + ?Y) k (m1, p1) = (rbind r (\<lambda>_. Inr k'), (m', p'))" "view p' = view p1"
        by blast
      with round1 Inr v show ?thesis by auto
    qed
  qed
qed

lemma feed_with_yield_run:
  assumes "chunk_insensitive s" "silent rep" "chunk \<noteq> []" "ws_feed s chunk m = (r, m')"
  shows "\<exists>p'. feedUploadSessionWithYield (client_prepare_session s) chunk (Some rep) (m, p) =
      (rbind r (\<lambda>_. Inr ()), (m', p')) \<and> view p' = view p"
proof -
  obtain p1 k where loop: "feed_yield_loop (client_prepare_session s) chunk (Some rep) 0 0 (m, p) =
      (rbind r (\<lambda>_. Inr k), (m', p1))" "view p1 = view p"
    using feed_yield_run[OF assms(1,2), of 0 chunk m r m' 0 p] assms(3,4) by auto
  obtain p2 where rep: "rep k (m', p1) = (Inr (), (m', p2))" "view p2 = view p1"
    using assms(2) unfolding silent_def by metis
  show ?thesis
    using loop rep by (cases r) (auto simp: feedUploadSessionWithYield_def abind_def)
qed

section \<open>Simulation of the loops\<close>

text \<open>The session itself, one chunk and the whole file, on the memory and a view.\<close>

definition plain_chunk :: "'m wasm_prepare_session \<Rightarrow> bytes \<Rightarrow> ('m \<times> prep_view, unit) act" where
  "plain_chunk s chunk mv = (case mv of (m, v) \<Rightarrow> (case feed_and_take s chunk m of
     (Inl e, m') \<Rightarrow> (Inl e, (m', v))
   | (Inr blocks, m') \<Rightarrow> (Inr (), (m', store_view blocks v))))"

definition plain_run :: "'m wasm_prepare_session \<Rightarrow> bytes list \<Rightarrow> ('m \<times> prep_view, unit) act" where
  "plain_run s chunks = aseq (for_await (map Inr chunks) (plain_chunk s)) (\<lambda>(m, v).
     case ws_finalize s m of
       (Inl e, m') \<Rightarrow> (Inl e, (m', v)) | (Inr b, m') \<Rightarrow> (Inr (), (m', store_view [b] v)))"

text \<open>
  A loop whose body simulates another's body, up to a renaming of errors, simulates the other loop;
  after a throw a weaker relation is enough.
\<close>

lemma for_await_simulates:
  assumes step: "\<And>c x y r y'. c \<in> set cs \<Longrightarrow> R x y \<Longrightarrow> one c y = (r, y') \<Longrightarrow>
      \<exists>x'. body c x = (err r, x') \<and> (if is_ok r then R x' y' else Q x' y')"
    and err: "err (Inr ()) = Inr ()" "\<And>e. \<exists>e'. err (Inl e) = Inl e'"
  shows "R x y \<Longrightarrow> for_await (map Inr cs) one y = (r, y') \<Longrightarrow>
    \<exists>x'. for_await (map Inr cs) body x = (err r, x') \<and> (if is_ok r then R x' y' else Q x' y')"
  using step
proof (induction cs arbitrary: x y)
  case Nil
  then show ?case by (auto simp: err(1))
next
  case (Cons c cs)
  obtain r1 y1 where one: "one c y = (r1, y1)" by fastforce
  from Cons.prems(3)[OF _ Cons.prems(1) one] obtain x1 where
    b: "body c x = (err r1, x1)" "if is_ok r1 then R x1 y1 else Q x1 y1" by auto
  show ?case
  proof (cases r1)
    case (Inl e)
    moreover obtain e' where "err (Inl e) = Inl e'" using err(2) by blast
    ultimately show ?thesis
      using Cons.prems(2) one b by (auto simp: abind_def aseq_def)
  next
    case (Inr u)
    then have "for_await (map Inr cs) one y1 = (r, y')" "R x1 y1"
      using Cons.prems(2) one b by (auto simp: abind_def aseq_def)
    then have "\<exists>x'. for_await (map Inr cs) body x1 = (err r, x') \<and> (if is_ok r then R x' y' else Q x' y')"
      using Cons.IH[of x1 y1] Cons.prems(3) list.set_intros(2) by metis
    then show ?thesis
      using b Inr err(1) by (auto simp: abind_def aseq_def)
  qed
qed

lemma view_after_take:
  assumes "ps_takeReadyBlocks session m = (r, m')" "view p = v"
  shows "\<exists>p'. abind (on_memory (ps_takeReadyBlocks session)) (\<lambda>blocks. afor blocks storeWireBlock) (m, p) =
      (rbind r (\<lambda>_. Inr ()), (m', p')) \<and>
      view p' = (case r of Inl _ \<Rightarrow> v | Inr bs \<Rightarrow> store_view bs v)"
proof (cases r)
  case (Inl e)
  then show ?thesis using assms by (auto simp: abind_def on_memory_def)
next
  case (Inr bs)
  obtain p' where "afor bs storeWireBlock (m', p) = (Inr (), (m', p'))" "view p' = store_view bs (view p)"
    using store_all_run by metis
  then show ?thesis using assms Inr by (auto simp: abind_def on_memory_def)
qed

lemma main_chunk:
  assumes "chunk_insensitive s" "silent rep" "chunk \<noteq> []" "plain_chunk s chunk (m, view p) = (r, (m', v'))"
  shows "\<exists>p'. aseq (feedUploadSessionWithYield (client_prepare_session s) chunk (Some rep))
      (abind (on_memory (ps_takeReadyBlocks (client_prepare_session s))) (\<lambda>blocks.
         afor blocks storeWireBlock)) (m, p) = (r, (m', p')) \<and> view p' = v'"
proof -
  obtain r0 m0 where fed: "ws_feed s chunk m = (r0, m0)" by fastforce
  from feed_with_yield_run[OF assms(1,2,3) fed, of p] obtain p0 where p0:
    "feedUploadSessionWithYield (client_prepare_session s) chunk (Some rep) (m, p) =
      (rbind r0 (\<lambda>_. Inr ()), (m0, p0))" "view p0 = view p" by blast
  show ?thesis
  proof (cases r0)
    case (Inl e)
    then show ?thesis
      using assms(4) fed p0 by (auto simp: plain_chunk_def feed_and_take_def)
  next
    case (Inr u)
    obtain r1 m1 where t: "ws_takeReadyBlocks s m0 = (r1, m1)" by fastforce
    then have t': "ps_takeReadyBlocks (client_prepare_session s) m0 = (r1, m1)"
      by (simp add: client_prepare_session_def)
    have "r = rbind r1 (\<lambda>_. Inr ()) \<and> m' = m1 \<and>
        v' = (case r1 of Inl _ \<Rightarrow> view p | Inr bs \<Rightarrow> store_view bs (view p))"
      using assms(4) fed t Inr by (cases r1) (auto simp: plain_chunk_def feed_and_take_def)
    then show ?thesis
      using view_after_take[OF t' p0(2)] p0(1) Inr by (auto simp: aseq_def abind_def[of "feedUploadSessionWithYield _ _ _"])
  qed
qed

lemma worker_chunk:
  assumes "link_session s (c, k, m)" "chunk \<noteq> []" "int (length chunk) \<le> UPLOAD_WORKER_FEED_CHUNK_BYTES"
    "\<And>x p. \<exists>p'. report (x, p) = (Inr (), (x, p')) \<and> view p' = view p"
    "plain_chunk s chunk (m, view p) = (r, (m', v'))"
  shows "\<exists>c' k' p'. worker_feed_loop load report chunk 0 ((c, k, m), p) = (relayed r, ((c', k', m'), p')) \<and>
      view p' = v' \<and> link_session s (c', k', m')"
proof -
  let ?Y = "nat UPLOAD_WORKER_FEED_CHUNK_BYTES"
  have whole: "min (0 + ?Y) (length chunk) = length chunk" using assms(3) by simp
  have stop: "worker_feed_loop load report chunk (0 + ?Y) x = (Inr (), x)" for x
    using assms(3) by (subst worker_feed_loop.simps) auto
  obtain r0 m0 where ft: "feed_and_take s chunk m = (r0, m0)" by fastforce
  from link_feed_refines[OF assms(1) ft, of load] obtain c' k' where
    l: "link_feed load chunk (c, k, m) =
      (rbind (relayed r0) (\<lambda>blocks. Inr (wk_bytesFed k + int (length chunk), blocks)), (c', k', m0))"
    and ok: "link_session s (c', k', m0)" by blast
  show ?thesis
  proof (cases r0)
    case (Inl e)
    then show ?thesis
      using assms(2,5) ft l ok whole
      by (subst worker_feed_loop.simps)
        (auto simp: plain_chunk_def Let_def abind_def on_memory_def split: prod.splits)
  next
    case (Inr bs)
    let ?lk = "(c', k', m0)"
    obtain p1 where p1: "set_fed (wk_bytesFed k + int (length chunk)) (?lk, p) = (Inr (), (?lk, p1))"
      "view p1 = view p" using set_fed_run by metis
    obtain p2 where p2: "afor bs storeWireBlock (?lk, p1) = (Inr (), (?lk, p2))"
      "view p2 = store_view bs (view p1)" using store_all_run by metis
    obtain p3 where p3: "report (?lk, p2) = (Inr (), (?lk, p3))" "view p3 = view p2"
      using assms(4) by metis
    have "worker_feed_loop load report chunk 0 ((c, k, m), p) = (Inr (), (?lk, p3))"
      using assms(2) l Inr whole p1(1) p2(1) p3(1) stop
      by (subst worker_feed_loop.simps) (simp add: Let_def abind_def on_memory_def aseq_def)
    moreover have "r = Inr ()" "m' = m0" "v' = store_view bs (view p)"
      using assms(5) ft Inr by (auto simp: plain_chunk_def)
    ultimately show ?thesis using p1(2) p2(2) p3(2) ok by auto
  qed
qed

text \<open>The two loops over the file.\<close>

lemma main_loop:
  assumes "chunk_insensitive s" "silent rep" "\<forall>c\<in>set cs. c \<noteq> []"
    "for_await (map Inr cs) (plain_chunk s) (m, view p) = (r, (m', v'))"
  shows "\<exists>p'. for_await (map Inr cs) (main_body (client_prepare_session s) rep) (m, p) = (r, (m', p')) \<and>
      view p' = v'"
proof -
  let ?R = "\<lambda>x y. fst x = fst y \<and> view (snd x) = snd y"
  have step: "\<exists>x'. main_body (client_prepare_session s) rep c x = (id q, x') \<and>
      (if is_ok q then ?R x' y' else ?R x' y')"
    if c: "c \<in> set cs" and R: "?R x y" and one: "plain_chunk s c y = (q, y')" for c x y q y'
  proof -
    have "plain_chunk s c (fst x, view (snd x)) = (q, (fst y', snd y'))" using R one by simp
    from main_chunk[OF assms(1,2) _ this] assms(3) c show ?thesis
      by (cases x) (auto simp: main_body_def)
  qed
  have "\<exists>x'. for_await (map Inr cs) (main_body (client_prepare_session s) rep) (m, p) = (id r, x') \<and>
      (if is_ok r then ?R x' (m', v') else ?R x' (m', v'))"
    by (rule for_await_simulates[where R="?R" and Q="?R" and err=id, OF step _ _ _ assms(4)]) auto
  then show ?thesis by auto
qed

lemma worker_loop:
  assumes "link_session s (c, k, m)"
    "\<And>x p. \<exists>p'. report (x, p) = (Inr (), (x, p')) \<and> view p' = view p"
    "\<forall>c\<in>set cs. c \<noteq> [] \<and> int (length c) \<le> UPLOAD_WORKER_FEED_CHUNK_BYTES"
    "for_await (map Inr cs) (plain_chunk s) (m, view p) = (r, (m', v'))"
  shows "\<exists>c' k' p'. for_await (map Inr cs) (\<lambda>chunk. worker_feed_loop load report chunk 0) ((c, k, m), p) =
      (relayed r, ((c', k', m'), p')) \<and> view p' = v' \<and> link_session s (c', k', m')"
proof -
  let ?R = "\<lambda>x y. link_session s (fst x) \<and> snd (snd (fst x)) = fst y \<and> view (snd x) = snd y"
  let ?body = "\<lambda>chunk. worker_feed_loop load report chunk 0"
  have step: "\<exists>x'. ?body ch x = (relayed q, x') \<and> (if is_ok q then ?R x' y' else ?R x' y')"
    if ch: "ch \<in> set cs" and R: "?R x y" and one: "plain_chunk s ch y = (q, y')" for ch x y q y'
  proof -
    obtain c0 k0 m0 p0 where x: "x = ((c0, k0, m0), p0)" by (metis prod.exhaust)
    have "plain_chunk s ch (m0, view p0) = (q, (fst y', snd y'))" "link_session s (c0, k0, m0)"
      using R one by (auto simp: x)
    from worker_chunk[OF this(2) _ _ assms(2) this(1), of load] assms(3) ch obtain c' k' p' where
      "?body ch ((c0, k0, m0), p0) = (relayed q, ((c', k', fst y'), p'))" "view p' = snd y'"
      "link_session s (c', k', fst y')" by blast
    then show ?thesis by (simp add: x)
  qed
  have "\<exists>x'. for_await (map Inr cs) ?body ((c, k, m), p) = (relayed r, x') \<and>
      (if is_ok r then ?R x' (m', v') else ?R x' (m', v'))"
    by (rule for_await_simulates[where R="?R" and Q="?R" and err=relayed, OF step _ _ _ assms(4)])
      (use assms(1) in auto)
  then show ?thesis by auto
qed

lemma segment_layout_ok:
  assumes "validateSegmentCode code = Inr ()"
  shows "\<exists>t b. segment_layout (memory_file name content) code = Inr (t, b)"
proof -
  have c: "0 \<le> code" "code \<le> 5" using assms by (simp_all add: validateSegmentCode_ok)
  then obtain k where k: "countGcmSegmentsForFileSize (Fin (of_int (int (length content)))) code = Inr k"
    using countGcmSegments_cases by simp
  show ?thesis
  proof (cases "isV2WholeFileSegmentCode code")
    case False
    then obtain b where "decodeSegmentPlaintextBytesV21 code = Inr b"
      using c by (auto simp: decode_ok_iff isV2WholeFileSegmentCode_def)
    with False k show ?thesis by (simp add: segment_layout_def memory_file_def)
  qed (use k in \<open>simp add: segment_layout_def memory_file_def\<close>)
qed

lemma plain_run_cases:
  assumes "plain_run s chunks (m, v) = (r, (m', v'))"
  obtains r1 m1 v1 where "for_await (map Inr chunks) (plain_chunk s) (m, v) = (r1, (m1, v1))"
    "case r1 of Inl e \<Rightarrow> r = Inl e \<and> m' = m1 \<and> v' = v1
     | Inr _ \<Rightarrow> \<exists>r2. ws_finalize s m1 = (r2, m') \<and> r = rbind r2 (\<lambda>_. Inr ()) \<and>
         v' = (case r2 of Inl _ \<Rightarrow> v1 | Inr b \<Rightarrow> store_view [b] v1)"
proof -
  obtain r1 m1 v1 where a: "for_await (map Inr chunks) (plain_chunk s) (m, v) = (r1, (m1, v1))"
    by (metis prod.exhaust)
  obtain r2 m2 where f: "ws_finalize s m1 = (r2, m2)" by fastforce
  show ?thesis
    by (rule that[OF a]) (use assms a f in \<open>cases r1; cases r2; auto simp: plain_run_def aseq_def abind_def\<close>)
qed

lemma client_session_methods [simp]:
  "ps_feed (client_prepare_session s) = ws_feed s"
  "ps_takeReadyBlocks (client_prepare_session s) = ws_takeReadyBlocks s"
  "ps_finalize (client_prepare_session s) = ws_finalize s"
  by (simp_all add: client_prepare_session_def)

lemma main_session_run:
  assumes "chunk_insensitive s" "validateSegmentCode code = Inr ()"
    "plain_run s (content_reads code content) (m, view p) = (r, (m', v'))"
  shows "\<exists>p'. main_session_body (client_prepare_session s) (memory_file name content) code b t (m, p) =
      (r, (m', p')) \<and> view p' = v'"
proof -
  let ?f = "memory_file name content" and ?session = "client_prepare_session s"
  have silent: "silent (main_partial ?f code b t)"
    unfolding silent_def
  proof (intro allI)
    fix d and x :: 'b and q
    obtain q1 where q1: "set_fed (pr_bytesFed q + d) (x, q) = (Inr (), (x, q1))" "view q1 = view q"
      using set_fed_run by metis
    obtain q2 where "reportPreparingProgress ?f code b t (x, q1) = (Inr (), (x, q2))" "view q2 = view q1"
      using report_run by metis
    with q1 show "\<exists>p'. main_partial ?f code b t d (x, q) = (Inr (), (x, p')) \<and> view p' = view q"
      by (simp add: main_partial_def abind_def aseq_def)
  qed
  from assms(3) obtain r1 m1 v1 where
    loop: "for_await (map Inr (content_reads code content)) (plain_chunk s) (m, view p) = (r1, (m1, v1))"
    and fin: "case r1 of Inl e \<Rightarrow> r = Inl e \<and> m' = m1 \<and> v' = v1
     | Inr _ \<Rightarrow> \<exists>r2. ws_finalize s m1 = (r2, m') \<and> r = rbind r2 (\<lambda>_. Inr ()) \<and>
         v' = (case r2 of Inl _ \<Rightarrow> v1 | Inr b \<Rightarrow> store_view [b] v1)"
    by (rule plain_run_cases)
  obtain p1 where p1: "for_await (map Inr (content_reads code content))
      (main_body ?session (main_partial ?f code b t)) (m, p) = (r1, (m1, p1))" "view p1 = v1"
    using main_loop[OF assms(1) silent _ loop] content_reads_bounds(2)[OF assms(2)] by blast
  note run = main_session_body_def read_memory_file[OF assms(2)] p1(1) abind_def aseq_def on_memory_def
  show ?thesis
  proof (cases r1)
    case (Inl e)
    with fin p1 show ?thesis by (simp add: run)
  next
    case (Inr u)
    with fin obtain r2 where r2: "ws_finalize s m1 = (r2, m')" "r = rbind r2 (\<lambda>_. Inr ())"
      "v' = (case r2 of Inl _ \<Rightarrow> v1 | Inr b \<Rightarrow> store_view [b] v1)" by auto
    show ?thesis
    proof (cases r2)
      case (Inl e)
      with Inr r2 p1(2) show ?thesis by (auto simp: run)
    next
      case (Inr bl)
      obtain p2 where "storeWireBlock bl (m', p1) = (Inr (), (m', p2))" "view p2 = store_view [bl] (view p1)"
        using storeWireBlock_run by metis
      with Inr r2 p1(2) \<open>r1 = Inr u\<close> show ?thesis by (auto simp: run)
    qed
  qed
qed

lemma worker_session_run:
  assumes "link_session s (c, k, m)" "validateSegmentCode code = Inr ()"
    "\<not> isV2WholeFileSegmentCode code"
    "plain_run s (content_reads code content) (m, view p) = (r, (m', v'))"
  shows "\<exists>c' k' p'. worker_session_body load (memory_file name content) code b t ((c, k, m), p) =
      (relayed r, ((c', k', m'), p')) \<and> view p' = v'"
proof -
  let ?f = "memory_file name content"
  have small: "\<forall>ch\<in>set (content_reads code content). ch \<noteq> [] \<and>
      int (length ch) \<le> UPLOAD_WORKER_FEED_CHUNK_BYTES"
    using content_reads_bounds(2)[OF assms(2), of content] assms(3)
    by (fastforce simp: UPLOAD_WORKER_FEED_CHUNK_BYTES_def UPLOAD_FILE_READ_SLICE_BYTES_def)
  from assms(4) obtain r1 m1 v1 where
    loop: "for_await (map Inr (content_reads code content)) (plain_chunk s) (m, view p) = (r1, (m1, v1))"
    and fin: "case r1 of Inl e \<Rightarrow> r = Inl e \<and> m' = m1 \<and> v' = v1
     | Inr _ \<Rightarrow> \<exists>r2. ws_finalize s m1 = (r2, m') \<and> r = rbind r2 (\<lambda>_. Inr ()) \<and>
         v' = (case r2 of Inl _ \<Rightarrow> v1 | Inr b \<Rightarrow> store_view [b] v1)"
    by (rule plain_run_cases)
  obtain c1 k1 p1 where p1: "for_await (map Inr (content_reads code content))
      (\<lambda>chunk. worker_feed_loop load (reportPreparingProgress ?f code b t) chunk 0) ((c, k, m), p) =
      (relayed r1, ((c1, k1, m1), p1))" "view p1 = v1" "link_session s (c1, k1, m1)"
    using worker_loop[where report="reportPreparingProgress ?f code b t" and load=load,
        OF assms(1) report_run small loop] by blast
  note run = worker_session_body_def read_memory_file[OF assms(2)] p1(1) abind_def aseq_def on_memory_def
  show ?thesis
  proof (cases r1)
    case (Inl e)
    with fin p1 show ?thesis by (simp add: run)
  next
    case (Inr u)
    with fin obtain r2 where r2: "ws_finalize s m1 = (r2, m')" "r = rbind r2 (\<lambda>_. Inr ())"
      "v' = (case r2 of Inl _ \<Rightarrow> v1 | Inr b \<Rightarrow> store_view [b] v1)" by auto
    obtain c2 k2 where lf: "link_finalize load (c1, k1, m1) = (relayed r2, (c2, k2, m'))"
      using link_finalize_refines[OF p1(3) r2(1)] by blast
    show ?thesis
    proof (cases r2)
      case (Inl e)
      with Inr r2 p1(2) lf show ?thesis by (auto simp: run)
    next
      case (Inr bl)
      obtain p2 where "storeWireBlock bl ((c2, k2, m'), p1) = (Inr (), ((c2, k2, m'), p2))"
        "view p2 = store_view [bl] (view p1)" using storeWireBlock_run by metis
      with Inr r2 p1(2) lf \<open>r1 = Inr u\<close> show ?thesis by (auto simp: run)
    qed
  qed
qed

text \<open>Around the session: status, creation, and the result.\<close>

lemma report_start_run: "\<exists>p'. report_start f t (x, p) = (Inr (), (x, p')) \<and> view p' = view p"
  by (simp add: report_start_def emit_status_run)

lemma report_end_run:
  "\<exists>p'. report_end f t (x, p) = (Inr (pr_uploads p), (x, p')) \<and> view p' = view p"
  by (simp add: report_end_def emit_event_def aseq_def abind_def view_def)

lemma start_run_run:
  "\<exists>p'. start_run (x, p) = (Inr (), (x, p')) \<and> view p' = ([], snd (view p))"
  by (simp add: start_run_def view_def)

lemma wrap_run:
  assumes "segment_layout f code = Inr (t, b)"
    "\<And>p0. view p0 = view p \<Longrightarrow> \<exists>p1. create (x, p0) = (Inr y, (x1, p1)) \<and> view p1 = view p0"
    "\<And>p1. view p1 = ([], snd (view p)) \<Longrightarrow> \<exists>p2. body t b y (x1, p1) = (r, (x2, p2)) \<and> view p2 = v2"
  shows "\<exists>p'. abind (alift (segment_layout f code)) (\<lambda>(t, b). aseq (report_start f t)
      (abind create (\<lambda>y. aseq start_run (aseq (body t b y) (report_end f t))))) (x, p) =
     (rbind r (\<lambda>_. Inr (fst v2)), (x2, p')) \<and> view p' = v2"
proof -
  obtain p0 where p0: "report_start f t (x, p) = (Inr (), (x, p0))" "view p0 = view p"
    using report_start_run by metis
  obtain p1 where p1: "create (x, p0) = (Inr y, (x1, p1))" "view p1 = view p" using assms(2)[OF p0(2)] p0(2) by auto
  obtain p2 where p2: "start_run (x1, p1) = (Inr (), (x1, p2))" "view p2 = ([], snd (view p))"
    using start_run_run p1(2) by metis
  obtain p3 where p3: "body t b y (x1, p2) = (r, (x2, p3))" "view p3 = v2" using assms(3)[OF p2(2)] by blast
  obtain p4 where p4: "report_end f t (x2, p3) = (Inr (pr_uploads p3), (x2, p4))" "view p4 = view p3"
    using report_end_run by metis
  have "pr_uploads p3 = fst v2" using p3(2) by (auto simp: view_def)
  then show ?thesis
    using assms(1) p0(1) p1(1) p2(1) p3 p4 by (cases r) (auto simp: abind_def aseq_def)
qed

lemma main_run:
  assumes "chunk_insensitive s" "validateSegmentCode code = Inr ()"
    "tc_createUploadPrepareSession tc credential (Some fileName) (int (length content)) code max_block m =
       (Inr (client_prepare_session s), m1)"
    "plain_run s (content_reads code content) (m1, ([], snd (view p))) = (r, (m', v'))"
  shows "\<exists>p'. prepareUploadStreamingOnMainThread tc (memory_file name content) credential fileName code
      max_block (m, p) = (rbind r (\<lambda>_. Inr (fst v')), (m', p')) \<and> view p' = v'"
proof -
  obtain t b where lay: "segment_layout (memory_file name content) code = Inr (t, b)"
    using segment_layout_ok[OF assms(2)] by blast
  show ?thesis
    unfolding prepareUploadStreamingOnMainThread_def
  proof (rule wrap_run[OF lay, where ?x1.0=m1 and y="client_prepare_session s"])
    show "\<exists>p1. on_memory (tc_createUploadPrepareSession tc credential (Some fileName)
        (file_size (memory_file name content)) code max_block) (m, p0) =
        (Inr (client_prepare_session s), (m1, p1)) \<and> view p1 = view p0" for p0
      using assms(3) by (simp add: on_memory_def memory_file_def)
  next
    fix p1 assume "view p1 = ([], snd (view p))"
    then show "\<exists>p2. main_session_body (client_prepare_session s) (memory_file name content) code b t
        (m1, p1) = (r, (m', p2)) \<and> view p2 = v'"
      using main_session_run[OF assms(1,2), of content m1 p1 r m' v'] assms(4) by simp
  qed
qed

definition worker_options ::
    "string option \<Rightarrow> string option \<Rightarrow> js_file \<Rightarrow> string \<Rightarrow> string \<Rightarrow> int \<Rightarrow> int \<Rightarrow> worker_init_options" where
  "worker_options su bu f credential fileName code max_block =
     \<lparr>wi_wasmScriptUrl = default_to su DEFAULT_UPLOAD_WASM_SCRIPT_URL,
      wi_wasmBinaryUrl = default_to bu DEFAULT_UPLOAD_WASM_BINARY_URL,
      wi_credential = credential, wi_fileName = fileName, wi_fileSize = file_size f,
      wi_segmentCode = code, wi_maxWireBlockBytes = max_block\<rparr>"

lemma create_worker_ok:
  assumes "createWorker m = (Inr (), m0)" "construct load o1 m0 = (Inr s, m1)"
  shows "\<exists>c k. createInitializedUploadPrepareWorker load createWorker o1 m = (Inr (c, k), m1) \<and>
      link_session s (c, k, m1)"
proof -
  from link_init_refines[where c=worker_client_new and k=worker_scope_new and load=load and ?o1.0=o1,
      OF idle_new _ assms(2)] obtain c k where
    "link_init load o1 (worker_client_new, worker_scope_new, m0) = (Inr (), (c, k, m1))"
    "link_session s (c, k, m1)" by (auto simp: worker_scope_new_def)
  then show ?thesis
    using assms(1)
    by (auto simp: createInitializedUploadPrepareWorker_def UPLOAD_PREPARE_WORKER_CREATE_ATTEMPTS_def
        numeral_2_eq_2)
qed

lemma worker_run:
  assumes "validateSegmentCode code = Inr ()" "\<not> isV2WholeFileSegmentCode code"
    "default_to (we_createUploadWorker we) (we_createDefault we) m = (Inr (), m0)"
    "construct (we_load we) (worker_options su bu (memory_file name content) credential fileName code
       max_block) m0 = (Inr s, m1)"
    "plain_run s (content_reads code content) (m1, ([], snd (view p))) = (r, (m', v'))"
  shows "\<exists>p'. prepareUploadStreamingInWorker we su bu (memory_file name content) credential fileName code
      max_block (m, p) = (rbind (relayed r) (\<lambda>_. Inr (fst v')), (m', p')) \<and> view p' = v'"
proof -
  let ?f = "memory_file name content"
  obtain t b where lay: "segment_layout ?f code = Inr (t, b)"
    using segment_layout_ok[OF assms(1)] by blast
  obtain c k where ck: "createInitializedUploadPrepareWorker (we_load we)
      (default_to (we_createUploadWorker we) (we_createDefault we))
      (worker_options su bu ?f credential fileName code max_block) m = (Inr (c, k), m1)"
    "link_session s (c, k, m1)"
    using create_worker_ok[where createWorker="default_to (we_createUploadWorker we) (we_createDefault we)"
        and load="we_load we" and m=m, OF assms(3,4)] by blast
  show ?thesis
    unfolding prepareUploadStreamingInWorker_def worker_options_def[symmetric]
  proof (rule wrap_run[OF lay, where ?x1.0=m1 and y="(c, k)"])
    show "\<exists>p1. on_memory (createInitializedUploadPrepareWorker (we_load we)
        (default_to (we_createUploadWorker we) (we_createDefault we))
        (worker_options su bu ?f credential fileName code max_block)) (m, p0) =
        (Inr (c, k), (m1, p1)) \<and> view p1 = view p0" for p0
      using ck(1) by (simp add: on_memory_def)
  next
    fix p1 assume v: "view p1 = ([], snd (view p))"
    then obtain c' k' p2 where "worker_session_body (we_load we) ?f code b t ((c, k, m1), p1) =
        (relayed r, ((c', k', m'), p2))" "view p2 = v'"
      using worker_session_run[where load="we_load we" and name=name and b=b and t=t,
        OF ck(2) assms(1,2), of content p1 r m' v'] assms(5) by auto
    then show "\<exists>p2. with_worker (worker_session_body (we_load we) ?f code b t) (c, k) (m1, p1) =
        (relayed r, (m', p2)) \<and> view p2 = v'"
      by (auto simp: with_worker_def afinally_def link_dispose_def)
  qed
qed

section \<open>What a run announces\<close>

text \<open>An action that only stores and announces blocks, besides status updates.\<close>

definition tracks :: "('a \<times> prep_run, 'b) act \<Rightarrow> bool" where
  "tracks f \<longleftrightarrow> (\<forall>x p r x' p'. f (x, p) = (r, (x', p')) \<longrightarrow> (\<exists>bs. view p' = store_view bs (view p)))"

lemma tracksD: "tracks f \<Longrightarrow> f (x, p) = (r, (x', p')) \<Longrightarrow> \<exists>bs. view p' = store_view bs (view p)"
  by (simp add: tracks_def)

lemma store_view_append: "store_view (as @ bs) v = store_view bs (store_view as v)"
  by (simp add: store_view_def)

lemma tracks_same: "(\<And>x p. snd (snd (f (x, p))) = p) \<Longrightarrow> tracks f"
  unfolding tracks_def by (metis snd_conv store_view_Nil)

lemma tracks_abind:
  assumes "tracks f" "\<And>y. tracks (g y)"
  shows "tracks (abind f g)"
  unfolding tracks_def
proof (intro allI impI)
  fix x p r x' p' assume run: "abind f g (x, p) = (r, (x', p'))"
  obtain r1 x1 p1 where f: "f (x, p) = (r1, (x1, p1))" by (metis prod.exhaust)
  obtain as where as1: "view p1 = store_view as (view p)" using tracksD[OF assms(1) f] by blast
  show "\<exists>bs. view p' = store_view bs (view p)"
  proof (cases r1)
    case (Inl e)
    with run f as1 show ?thesis by auto
  next
    case (Inr y)
    with run f have "g y (x1, p1) = (r, (x', p'))" by simp
    from tracksD[OF assms(2) this] as1 show ?thesis by (metis store_view_append)
  qed
qed

lemma tracks_aseq: "tracks f \<Longrightarrow> tracks g \<Longrightarrow> tracks (aseq f g)"
  unfolding aseq_def by (rule tracks_abind)

lemma tracks_basic [simp]:
  "tracks (areturn y)" "tracks (alift r)" "tracks (athrow e)" "tracks (aget h)"
  "tracks (on_memory g)" "tracks (set_fed n)" "tracks (emit_event (PrepStatus st))"
  by (rule tracks_same, simp add: on_memory_def split: prod.split)+
    (auto simp: tracks_def set_fed_def emit_event_def view_def intro!: exI[of _ "[]"])

lemma tracks_store [simp]: "tracks (storeWireBlock b)"
  unfolding tracks_def using storeWireBlock_run by (metis Pair_inject)

lemma tracks_afor: "(\<And>b. tracks (body b)) \<Longrightarrow> tracks (afor bs body)"
  by (induction bs) (simp_all add: tracks_aseq)

lemma tracks_for_await: "(\<And>c. tracks (body c)) \<Longrightarrow> tracks (for_await rs body)"
  by (induction rs) (simp_all add: tracks_aseq tracks_abind)

lemma tracks_report [simp]: "tracks (reportPreparingProgress f code b t)"
  unfolding reportPreparingProgress_def by (intro tracks_abind) (simp_all add: Let_def)

lemma tracks_feed_loop: "(\<And>d. tracks (rep d)) \<Longrightarrow> tracks (feed_yield_loop s chunk (Some rep) i k)"
proof (induction s chunk "Some rep" i k rule: feed_yield_loop.induct)
  case (1 s chunk i k)
  then show ?case
    by (subst feed_yield_loop.simps) (auto simp: Let_def intro!: tracks_aseq)
qed

lemma tracks_worker_feed: "tracks report \<Longrightarrow> tracks (worker_feed_loop load report chunk i)"
proof (induction load report chunk i rule: worker_feed_loop.induct)
  case (1 load report chunk i)
  then show ?case
    by (subst worker_feed_loop.simps)
      (auto simp: Let_def tracks_afor split: prod.split intro!: tracks_aseq tracks_abind)
qed

lemma tracks_main_body: "tracks (main_session_body session f code b t)"
proof -
  have partial: "tracks (main_partial f code b t d)" for d
    unfolding main_partial_def by (intro tracks_abind tracks_aseq) simp_all
  have "tracks (main_body session (main_partial f code b t) c)" for c
    unfolding main_body_def feedUploadSessionWithYield_def
    by (intro tracks_aseq tracks_abind tracks_afor)
      (auto simp: partial intro!: tracks_feed_loop split: option.split)
  then show ?thesis
    unfolding main_session_body_def by (intro tracks_abind tracks_aseq tracks_for_await) simp_all
qed

lemma tracks_worker_body: "tracks (worker_session_body load f code b t)"
  unfolding worker_session_body_def
  by (intro tracks_abind tracks_aseq tracks_for_await tracks_worker_feed) simp_all

lemma tracks_with_worker: "tracks body \<Longrightarrow> tracks (with_worker body ck)"
  unfolding tracks_def with_worker_def afinally_def
  by (clarsimp split: prod.splits)

text \<open>
  A successful path announces exactly the blocks of the map it returns, after whatever was announced
  before; a failed one may have announced some.
\<close>

definition announces :: "('m \<times> prep_run, upload_map) act \<Rightarrow> bool" where
  "announces f \<longleftrightarrow> (\<forall>m p r m' p'. f (m, p) = (r, (m', p')) \<longrightarrow>
     (\<exists>junk bs. snd (view p') = snd (view p) @ junk @ bs \<and>
        (\<forall>uploads. r = Inr uploads \<longrightarrow> uploads = fold (\<lambda>(t, d). jm_set t d) bs [])))"

lemma announces_wrap:
  assumes "tracks create" "\<And>t b y. tracks (body t b y)"
  shows "announces (abind (alift lay) (\<lambda>(t, b). aseq (report_start f t)
      (abind create (\<lambda>y. aseq start_run (aseq (body t b y) (report_end f t))))))"
  unfolding announces_def
proof (intro allI impI)
  fix m p r m' p'
  assume run: "abind (alift lay) (\<lambda>(t, b). aseq (report_start f t)
      (abind create (\<lambda>y. aseq start_run (aseq (body t b y) (report_end f t))))) (m, p) = (r, (m', p'))"
  let ?goal = "\<exists>junk bs. snd (view p') = snd (view p) @ junk @ bs \<and>
        (\<forall>uploads. r = Inr uploads \<longrightarrow> uploads = fold (\<lambda>(t, d). jm_set t d) bs [])"
  show ?goal
  proof (cases lay)
    case (Inl e)
    with run show ?thesis by (auto intro!: exI[of _ "[]"])
  next
    case (Inr tb)
    obtain t b where tb: "tb = (t, b)" by (cases tb)
    obtain p0 where p0: "report_start f t (m, p) = (Inr (), (m, p0))" "view p0 = view p"
      using report_start_run by metis
    obtain rc m1 p1 where c: "create (m, p0) = (rc, (m1, p1))" by (metis prod.exhaust)
    obtain cs where cs: "view p1 = store_view cs (view p)" using tracksD[OF assms(1) c] p0(2) by auto
    show ?thesis
    proof (cases rc)
      case (Inl e)
      with run Inr tb p0(1) c have "p' = p1" "r = Inl e" by auto
      with cs show ?thesis by (intro exI[of _ cs] exI[of _ "[]"]) (simp add: store_view_def)
    next
      case (Inr y)
      obtain p2 where p2: "start_run (m1, p1) = (Inr (), (m1, p2))" "view p2 = ([], snd (view p1))"
        using start_run_run by metis
      obtain rb m3 p3 where b: "body t b y (m1, p2) = (rb, (m3, p3))" by (metis prod.exhaust)
      obtain bs where bs: "view p3 = store_view bs ([], snd (view p1))"
        using tracksD[OF assms(2) b] p2(2) by auto
      obtain p4 where p4: "report_end f t (m3, p3) = (Inr (pr_uploads p3), (m3, p4))" "view p4 = view p3"
        using report_end_run by metis
      have "view p' = view p3 \<and> (\<forall>uploads. r = Inr uploads \<longrightarrow> uploads = pr_uploads p3)"
        using run \<open>lay = Inr tb\<close> tb p0(1) c Inr p2(1) b p4 by (cases rb) auto
      moreover have "pr_uploads p3 = fst (view p3)" by (simp add: view_def)
      ultimately show ?thesis
        using bs cs by (intro exI[of _ cs] exI[of _ bs]) (simp add: store_view_def)
    qed
  qed
qed

lemma announces_main: "announces (prepareUploadStreamingOnMainThread tc f credential fileName code max_block)"
  unfolding prepareUploadStreamingOnMainThread_def
  by (rule announces_wrap) (simp_all add: tracks_main_body)

lemma announces_worker:
  "announces (prepareUploadStreamingInWorker we su bu f credential fileName code max_block)"
  unfolding prepareUploadStreamingInWorker_def
  by (rule announces_wrap) (simp_all add: tracks_with_worker tracks_worker_body)

lemma announces_again:
  assumes "announces f" "\<And>e. announces (h e) \<or> h e = athrow e"
  shows "announces (acatch f h)"
  unfolding announces_def
proof (intro allI impI)
  fix m p r m' p' assume run: "acatch f h (m, p) = (r, (m', p'))"
  obtain r1 m1 p1 where f: "f (m, p) = (r1, (m1, p1))" by (metis prod.exhaust)
  obtain junk bs where a: "snd (view p1) = snd (view p) @ junk @ bs"
    "\<forall>uploads. r1 = Inr uploads \<longrightarrow> uploads = fold (\<lambda>(t, d). jm_set t d) bs []"
    using assms(1) f unfolding announces_def by metis
  show "\<exists>junk bs. snd (view p') = snd (view p) @ junk @ bs \<and>
      (\<forall>uploads. r = Inr uploads \<longrightarrow> uploads = fold (\<lambda>(t, d). jm_set t d) bs [])"
  proof (cases r1)
    case (Inr u)
    with run f a show ?thesis by auto
  next
    case (Inl e)
    then have h: "h e (m1, p1) = (r, (m', p'))" using run f by simp
    show ?thesis
    proof (cases "announces (h e)")
      case True
      then obtain junk2 bs2 where "snd (view p') = snd (view p1) @ junk2 @ bs2"
        "\<forall>uploads. r = Inr uploads \<longrightarrow> uploads = fold (\<lambda>(t, d). jm_set t d) bs2 []"
        using h unfolding announces_def by metis
      with a(1) show ?thesis by (intro exI[of _ "junk @ bs @ junk2"] exI[of _ bs2]) simp
    next
      case False
      then have "h e = athrow e" using assms(2) by blast
      with h a(1) show ?thesis by (intro exI[of _ junk] exI[of _ bs]) auto
    qed
  qed
qed

lemma announces_execute:
  "announces (executePrepareUploadStreaming we f credential tc fileName code max_block options)"
proof -
  have "announces (acatch (prepareUploadStreamingInWorker we su bu f credential fileName code max_block)
      (\<lambda>e. if q then athrow e
           else prepareUploadStreamingOnMainThread tc f credential fileName code max_block))"
    for su bu q
    by (rule announces_again[OF announces_worker]) (simp add: announces_main)
  then show ?thesis by (simp add: executePrepareUploadStreaming_def Let_def announces_main)
qed

lemma announces_failed: "announces (alift (Inl e))"
  by (auto simp: announces_def)

lemma announces_alift: "(\<And>y. announces (g y)) \<Longrightarrow> announces (abind (alift r) g)"
  by (cases r) (auto simp: announces_def)

lemma announces_prepare:
  "announces (prepareUploadStreaming env we f credential tc given_name segmentCode options)"
  unfolding prepareUploadStreaming_def Let_def
  by (intro announces_alift announces_again announces_execute) (simp add: announces_execute)

lemma withHashes_blocks:
  assumes "prepareUploadStreamingWithHashes env we f credential tc given_name segmentCode options hc (m, p) =
      (Inr (uploads, pool1, blocks), mp')"
  shows "hash_pool_new (Some (default_to hc DEFAULT_BLOCK_HASH_CONCURRENCY)) = Inr pool1 \<and>
    (\<exists>junk bs. blocks = junk @ bs \<and> uploads = fold (\<lambda>(t, d). jm_set t d) bs [])"
proof -
  obtain m' p' where pool: "hash_pool_new (Some (default_to hc DEFAULT_BLOCK_HASH_CONCURRENCY)) = Inr pool1"
    and run: "prepareUploadStreaming env we f credential tc given_name segmentCode options (m, p) =
      (Inr uploads, (m', p'))"
    and bl: "blocks = drop (length (ready_of (pr_events p))) (ready_of (pr_events p'))"
    using assms unfolding prepareUploadStreamingWithHashes_def
    by (auto simp: abind_Inr_iff alift_def aget_def)
  obtain junk bs where "snd (view p') = snd (view p) @ junk @ bs"
      "uploads = fold (\<lambda>(t, d). jm_set t d) bs []"
    using announces_prepare[of env we f credential tc given_name segmentCode options] run
    unfolding announces_def by metis
  with pool bl show ?thesis by (auto simp: view_def)
qed

text \<open>The pool fed over time.\<close>

lemma finishJob_closed [simp]: "hp_closed (finishJob digest i s) = hp_closed s"
  by (simp add: finishJob_def Let_def maybeResolveDrain_def split: option.split)

lemma pool_fed_frame:
  assumes "pool_fed digest s bs u" "pool_inv digest s"
  shows "pool_inv digest u \<and> hp_history u = hp_history s @ bs \<and> hp_closed u = hp_closed s"
  using assms
proof (induction rule: pool_fed.induct)
  case (fed_settle s t bs u)
  then obtain i where "i < length (hp_running s)" "t = finishJob digest i s" by (auto elim: pool_settlesE)
  with fed_settle show ?case by (simp add: finishJob_inv finishJob_fields)
next
  case (fed_block tok data s t bs u)
  with enqueue_inv[of digest s tok data t] show ?case by (simp add: enqueue_frame[OF fed_block(1)])
qed simp

lemma settles_history: "(pool_settles digest)\<^sup>*\<^sup>* s t \<Longrightarrow> hp_history t = hp_history s"
  by (induction rule: rtranclp_induct) (auto elim!: pool_settlesE simp: finishJob_fields)

lemma drained_results:
  assumes "drains_to digest pool1 blocks hs" "pool_inv digest pool1" "hp_history pool1 = []" "jm_wf blocks"
  shows "distinct (map bh_token hs) \<and>
    (\<forall>t h. (t, h) \<in> set (map (\<lambda>e. (bh_token e, bh_blockHash e)) hs) \<longleftrightarrow>
       (\<exists>d. (t, d) \<in> set blocks \<and> digest (t, d) = Some h))"
proof -
  obtain s t where st: "pool_fed digest pool1 blocks s" "(pool_settles digest)\<^sup>*\<^sup>* (drain_start 0 s) t"
    "0 \<in> set (hp_resolved t)" "hs = drain_result t"
    using assms(1) by (auto simp: drains_to_def)
  note fr = pool_fed_frame[OF st(1) assms(2)]
  have inv: "pool_inv digest t"
    by (rule pool.inv_steps[OF st(2)]) (use fr in \<open>simp add: drain_start_inv\<close>)
  have hist: "hp_history t = blocks" using settles_history[OF st(2)] fr assms(3) by (simp add: drain_start_frame)
  have "hp_inFlight t = 0" using inv st(3) unfolding pool_inv_def by force
  then have idle: "hp_running t = []" "hp_queue t = []" using inv unfolding pool_inv_def by auto
  have res: "jm_get (hp_results t) k = Option.bind (jm_get blocks k) (\<lambda>d. digest (k, d))" for k
    using pool_results[OF inv idle] assms(4) by (simp add: hist)
  have wf: "jm_wf (hp_results t)" using inv by (simp add: pool_inv_def)
  have tok: "map bh_token hs = jm_keys (hp_results t)"
    unfolding st(4) drain_result_def by (induction "hp_results t") auto
  have pairs: "map (\<lambda>e. (bh_token e, bh_blockHash e)) hs = hp_results t"
    unfolding st(4) drain_result_def by (simp add: comp_def case_prod_beta)
  have "distinct (map bh_token hs)" using wf tok by (simp add: jm_wf_def)
  moreover have "(k, h) \<in> set (hp_results t) \<longleftrightarrow> (\<exists>d. (k, d) \<in> set blocks \<and> digest (k, d) = Some h)" for k h
  proof -
    have "(k, h) \<in> set (hp_results t) \<longleftrightarrow> jm_get (hp_results t) k = Some h"
      using wf by (simp add: jm_wf_def)
    also have "\<dots> \<longleftrightarrow> (\<exists>d. jm_get blocks k = Some d \<and> digest (k, d) = Some h)"
      unfolding res by (cases "jm_get blocks k") auto
    also have "\<dots> \<longleftrightarrow> (\<exists>d. (k, d) \<in> set blocks \<and> digest (k, d) = Some h)"
      using assms(4) by (simp add: jm_wf_def)
    finally show ?thesis .
  qed
  ultimately show ?thesis unfolding pairs by blast
qed

lemma fold_set_length:
  assumes "jm_wf m"
  shows "length (fold (\<lambda>(t, d). jm_set t d) bs m) \<le> length m + length bs \<and>
    (length m + length bs \<le> length (fold (\<lambda>(t, d). jm_set t d) bs m) \<longrightarrow>
       fold (\<lambda>(t, d). jm_set t d) bs m = m @ bs \<and> jm_wf (m @ bs))"
  using assms
proof (induction bs arbitrary: m)
  case (Cons b bs)
  obtain t d where b: "b = (t, d)" by (cases b)
  have ih: "length (fold (\<lambda>(t, d). jm_set t d) bs (jm_set t d m)) \<le> length (jm_set t d m) + length bs \<and>
    (length (jm_set t d m) + length bs \<le> length (fold (\<lambda>(t, d). jm_set t d) bs (jm_set t d m)) \<longrightarrow>
       fold (\<lambda>(t, d). jm_set t d) bs (jm_set t d m) = jm_set t d m @ bs \<and> jm_wf (jm_set t d m @ bs))"
    by (rule Cons.IH) (rule jm_wf_set[OF Cons.prems])
  show ?case
  proof (cases "t \<in> set (jm_keys m)")
    case True
    have "jm_keys (jm_set t d m) = jm_keys m" using True by (simp add: update_keys)
    then have "length (jm_set t d m) = length m" by (metis length_map)
    with ih show ?thesis by (simp add: b)
  next
    case False
    with ih show ?thesis by (auto simp: b jm_set_new)
  qed
qed simp

section \<open>Properties\<close>

text \<open>The file is read completely, in order and in bounded pieces: for every supported segment
  code the chunks of a readable file are non-empty and concatenate to its content; for a V2.1
  code none exceeds 2 MiB and none crosses a boundary between two encryption segments.\<close>

theorem read_covers_file:
  assumes "validateSegmentCode code = Inr ()"
  shows "\<exists>chunks. readFileByGcmSegments (memory_file name content) code = Inr (map Inr chunks) \<and>
    concat chunks = content \<and> [] \<notin> set chunks \<and>
    (\<forall>s. decodeSegmentPlaintextBytesV21 code = Inr s \<longrightarrow>
       (\<forall>c\<in>set chunks. length c \<le> 2 * 1024 * 1024) \<and>
       (\<exists>slices. chunks = map (range_bytes content) slices \<and>
          (\<forall>(x, y)\<in>set slices. x < y \<and> x div s = (y - 1) div s)))"
proof (intro exI[of _ "content_reads code content"] conjI allI impI)
  show "readFileByGcmSegments (memory_file name content) code =
      Inr (map Inr (content_reads code content))" by (rule read_memory_file[OF assms])
  show "concat (content_reads code content) = content" by (rule content_reads_bounds(1)[OF assms])
  show "[] \<notin> set (content_reads code content)" using content_reads_bounds(2)[OF assms] by blast
  fix s assume s: "decodeSegmentPlaintextBytesV21 code = Inr s"
  then have v21: "\<not> isV2WholeFileSegmentCode code" "0 < s"
    by (auto simp: decode_ok_iff isV2WholeFileSegmentCode_def)
  show "\<forall>c\<in>set (content_reads code content). length c \<le> 2 * 1024 * 1024"
    using content_reads_bounds(2)[OF assms, of content] v21
    by (auto simp: UPLOAD_FILE_READ_SLICE_BYTES_def)
  let ?sl = "file_slices s (int (length content)) 0"
  have "content_reads code content = map (range_bytes content) ?sl" using v21 s by (simp add: content_reads_def)
  moreover have "\<forall>(x, y)\<in>set ?sl. x < y \<and> x div s = (y - 1) div s"
    using file_slices_cover[of 0 "int (length content)" s content] v21(2) by auto
  ultimately show "\<exists>slices. content_reads code content = map (range_bytes content) slices \<and>
      (\<forall>(x, y)\<in>set slices. x < y \<and> x div s = (y - 1) div s)" by blast
qed


lemma pipelined_entries:
  assumes "prepareUploadStreamingWithHashes env we f credential tc given_name segmentCode options hc (m, p) =
      (Inr (uploads, pool1, blocks), mp')"
    and "length blocks \<le> length uploads" "drains_to digest pool1 blocks hs"
    and "\<forall>b\<in>set blocks. digest b \<noteq> None"
  shows "distinct (map bh_token hs) \<and> set (map bh_token hs) = set (jm_keys uploads) \<and>
    (\<forall>e\<in>set hs. \<exists>d. jm_get uploads (bh_token e) = Some d \<and> digest (bh_token e, d) = Some (bh_blockHash e))"
proof -
  from withHashes_blocks[OF assms(1)] obtain junk bs where
    pool: "hash_pool_new (Some (default_to hc DEFAULT_BLOCK_HASH_CONCURRENCY)) = Inr pool1"
    and b: "blocks = junk @ bs" "uploads = fold (\<lambda>(t, d). jm_set t d) bs []" by blast
  have fs: "length uploads \<le> length bs"
    "length bs \<le> length uploads \<Longrightarrow> uploads = bs \<and> jm_wf bs"
    using fold_set_length[OF jm_wf_Nil, of bs] by (simp_all add: b(2))
  then have eq: "uploads = blocks" "jm_wf blocks" using assms(2) b(1) by auto
  have hist: "hp_history pool1 = []"
    using pool by (auto simp: hash_pool_new_def Let_def split: if_splits)
  note res = drained_results[OF assms(3) hash_pool_new_inv[OF pool] hist eq(2)]
  have pairs: "(t, h) \<in> (\<lambda>e. (bh_token e, bh_blockHash e)) ` set hs \<longleftrightarrow>
      (\<exists>d. jm_get uploads t = Some d \<and> digest (t, d) = Some h)" for t h
    using res eq by (auto simp: jm_wf_def)
  have all: "\<exists>e\<in>set hs. bh_token e = t" if "jm_get uploads t = Some d" for t d
  proof -
    have "(t, d) \<in> set blocks" using that eq(1) by (simp add: map_of_SomeD)
    then obtain h where "digest (t, d) = Some h" using assms(4) by fastforce
    with that pairs[of t h] show ?thesis by auto
  qed
  have "set (jm_keys uploads) \<subseteq> set (map bh_token hs)"
  proof
    fix t assume "t \<in> set (jm_keys uploads)"
    then obtain d where "jm_get uploads t = Some d"
      by (metis jm_get_None_iff not_None_eq)
    then show "t \<in> set (map bh_token hs)" using all by fastforce
  qed
  moreover have own: "\<exists>d. jm_get uploads (bh_token e) = Some d \<and> digest (bh_token e, d) = Some (bh_blockHash e)"
    if "e \<in> set hs" for e
    using pairs[of "bh_token e" "bh_blockHash e"] that by auto
  moreover have "set (map bh_token hs) \<subseteq> set (jm_keys uploads)"
  proof
    fix t assume "t \<in> set (map bh_token hs)"
    then obtain e where e: "e \<in> set hs" "t = bh_token e" by auto
    with own obtain d where "jm_get uploads t = Some d" by blast
    then show "t \<in> set (jm_keys uploads)" by (metis jm_get_None_iff option.distinct(1))
  qed
  ultimately show ?thesis using res by blast
qed

text \<open>C19. Hashing in the pipeline is as good as hashing afterwards: whichever path encrypted the file,
  if the pool was given no more blocks than the map holds (no attempt failed after announcing
  blocks), then under every interleaving of encryption and digests the drained pool has exactly
  one entry per block of the map, with the hash of that block.\<close>

theorem pipelined_hashes_exact:
  assumes "prepareUploadStreamingWithHashes env we f credential tc given_name segmentCode options hc (m, p) =
      (Inr (uploads, pool1, blocks), mp')"
    and "length blocks \<le> length uploads" "drains_to digest pool1 blocks hs"
    and "\<forall>b\<in>set blocks. digest b \<noteq> None"
  shows "distinct (map bh_token hs) \<and> set (map bh_token hs) = set (jm_keys uploads) \<and>
    (\<forall>e\<in>set hs. \<exists>d. jm_get uploads (bh_token e) = Some d \<and> digest (bh_token e, d) = Some (bh_blockHash e))"
  using pipelined_entries[OF assms] .

definition twice_announced :: "entry list" where
  "twice_announced = [(''t'', [1]), (''t'', [2])]"

definition demo_pool :: hash_pool where
  "demo_pool = \<lparr>hp_concurrency = 12, hp_results = [], hp_queue = [], hp_inFlight = 0,
     hp_completed = 0, hp_totalEnqueued = 0, hp_drainWaiters = [], hp_closed = False,
     hp_running = [], hp_resolved = [], hp_history = [], hp_progress = []\<rparr>"

text \<open>Without that condition a stale hash can be registered: when a failed attempt announced a
  block and the second attempt announces another block under the same token, both digests run at
  once, the map holds the second block, but if the first digest settles last, the pool drains to
  the hash of the block that is not uploaded.\<close>

theorem stale_hash_possible:
  "\<exists>hs. drains_to demo_digest demo_pool twice_announced hs \<and>
     fold (\<lambda>(t, d). jm_set t d) twice_announced [] = [(''t'', [2])] \<and>
     map_of (map (\<lambda>e. (bh_token e, bh_blockHash e)) hs) ''t'' = demo_digest (''t'', [1]) \<and>
     demo_digest (''t'', [1]) \<noteq> demo_digest (''t'', [2])"
proof -
  define s1 where "s1 = projr (enqueue ''t'' [1] demo_pool)"
  define s2 where "s2 = projr (enqueue ''t'' [2] s1)"
  define t1 where "t1 = finishJob demo_digest 1 (drain_start 0 s2)"
  define t2 where "t2 = finishJob demo_digest 0 t1"
  have e: "enqueue ''t'' [1] demo_pool = Inr s1" "enqueue ''t'' [2] s1 = Inr s2"
    unfolding s2_def s1_def by code_simp+
  have r: "1 < length (hp_running (drain_start 0 s2))" "0 < length (hp_running t1)"
    unfolding t1_def s2_def s1_def by code_simp+
  have fed: "pool_fed demo_digest demo_pool twice_announced s2"
    unfolding twice_announced_def using e by (meson fed_block fed_done)
  have run: "(pool_settles demo_digest)\<^sup>*\<^sup>* (drain_start 0 s2) t2"
    using settle[OF r(1), of demo_digest] settle[OF r(2), of demo_digest]
    unfolding t2_def t1_def by (meson converse_rtranclp_into_rtranclp r_into_rtranclp)
  have fin: "0 \<in> set (hp_resolved t2)"
    "map_of (map (\<lambda>e. (bh_token e, bh_blockHash e)) (drain_result t2)) ''t'' = demo_digest (''t'', [1])"
    unfolding t2_def t1_def s2_def s1_def by code_simp+
  have "drains_to demo_digest demo_pool twice_announced (drain_result t2)"
    unfolding drains_to_def using fed run fin(1) by blast
  moreover have "fold (\<lambda>(t, d). jm_set t d) twice_announced [] = [(''t'', [2])]"
    "demo_digest (''t'', [1]) \<noteq> demo_digest (''t'', [2])" by code_simp+
  ultimately show ?thesis using fin(2) by blast
qed

section \<open>Witnesses\<close>

theorem read_covers_file_witness:
  "\<exists>chunks. readFileByGcmSegments (memory_file ''f'' [7, 8]) 3 = Inr (map Inr chunks) \<and>
     concat chunks = [7, 8]"
proof -
  have "validateSegmentCode 3 = Inr ()" by code_simp
  from read_covers_file[OF this, of "''f''" "[7, 8]"] show ?thesis by blast
qed

text \<open>A session that keeps the bytes it is fed in its memory and returns them as one block.\<close>

definition demo_session :: "string \<Rightarrow> bytes wasm_prepare_session" where
  "demo_session token = \<lparr>ws_feed = (\<lambda>b m. (Inr (), m @ b)), ws_takeReadyBlocks = (\<lambda>m. (Inr [], m)),
     ws_finalize = (\<lambda>m. (Inr (token, m), m))\<rparr>"

definition demo_build :: "bytes make_prepare" where
  "demo_build credential name1 size1 code max_block m = (Inr (demo_session credential), [])"

definition demo_tc :: "bytes twelve_c" where
  "demo_tc = createTwelveCClientFromModule (\<lambda>_. NaN)
     \<lparr>wm_prepareUpload = (\<lambda>_ _ _ _ _. areturn []), wm_createUploadPrepareSession = Some demo_build,
      wm_UploadPrepareSession = None, wm_createReceiveDecryptSession = None,
      wm_ReceiveDecryptSession = None, wm_receiveFromUploadMap = (\<lambda>_ _. areturn []),
      wm_deriveUploadToken = (\<lambda>s i. s), wm_parseSmbEncrypted = (\<lambda>_ _. athrow (ErrorObj ''bad''))\<rparr>"

definition demo_worker_env :: "bytes worker_env" where
  "demo_worker_env = \<lparr>we_hasWorker = True, we_hasModuleUrl = True, we_createUploadWorker = None,
     we_createDefault = areturn (), we_load = (\<lambda>_ _. areturn demo_build)\<rparr>"

definition demo_run :: prep_run where
  "demo_run = \<lparr>pr_bytesFed = 0, pr_uploads = [], pr_events = []\<rparr>"

lemma demo_session_insensitive: "chunk_insensitive (demo_session token)"
  by (simp add: chunk_insensitive_def demo_session_def)


definition demo_options :: prepare_options where
  "demo_options = \<lparr>wo_maxWireBlockBytes = Some (Fin 100), wo_relayMaxBodyBytes = None,
     wo_preferConservative = None, po_wasmScriptUrl = None, po_wasmBinaryUrl = None,
     po_preferWorker = Some False\<rparr>"

definition demo_env :: runtime_env where
  "demo_env = \<lparr>env_navigator = None, env_window = False, env_vars = (\<lambda>_. None)\<rparr>"

lemma demo_hashes:
  "\<exists>mp'. prepareUploadStreamingWithHashes demo_env demo_worker_env (memory_file ''f'' [7, 8]) ''c'' demo_tc
     None (Some 0) demo_options None ([], demo_run) =
     (Inr ([(''c'', [7, 8])], demo_pool, [(''c'', [7, 8])]), mp')"
proof -
  let ?f = "memory_file ''f'' [7, 8]"
  have code: "validateSegmentCode 0 = Inr ()" by code_simp
  have "plain_run (demo_session ''c'') (content_reads 0 [7, 8]) ([], ([], snd (view demo_run))) =
      (Inr (), ([7, 8], ([(''c'', [7, 8])], [(''c'', [7, 8])])))"
  proof -
    have "content_reads 0 [7, 8] = [[7, 8]]" by (simp add: content_reads_def isV2WholeFileSegmentCode_def)
    moreover have "snd (view demo_run) = []" by (simp add: demo_run_def view_def)
    moreover have "feed_and_take (demo_session ''c'') [7, 8] [] = (Inr [], [7, 8])"
      by (simp add: feed_and_take_def demo_session_def)
    moreover have "ws_finalize (demo_session ''c'') [7, 8] = (Inr (''c'', [7, 8]), [7, 8])"
      by (simp add: demo_session_def)
    ultimately show ?thesis
      by (simp add: plain_run_def plain_chunk_def store_view_def)
  qed
  moreover have "tc_createUploadPrepareSession demo_tc ''c'' (Some ''f'') (int (length [7 :: nat, 8])) 0 100 [] =
      (Inr (client_prepare_session (demo_session ''c'')), [])"
    by (simp add: demo_tc_def createTwelveCClientFromModule_def first_available_def demo_build_def abind_def)
  ultimately obtain p' where p':
    "prepareUploadStreamingOnMainThread demo_tc ?f ''c'' ''f'' 0 100 ([], demo_run) =
      (Inr [(''c'', [7, 8])], ([7, 8], p'))" "view p' = ([(''c'', [7, 8])], [(''c'', [7, 8])])"
    using main_run[OF demo_session_insensitive code, where p=demo_run and m="[]" and ?m1.0="[]"
        and tc=demo_tc and name="''f''"] by (metis fst_conv rbind_simps(2))
  have max: "resolvePrepareMaxWireBlockBytes demo_env q (wire_choice.truncate demo_options) = Inr 100" for q
    by (simp add: resolvePrepareMaxWireBlockBytes_def demo_options_def wire_choice.defs trunc_rat_def)
  have "prepareUploadStreaming demo_env demo_worker_env ?f ''c'' demo_tc None (Some 0) demo_options
      ([], demo_run) = (Inr [(''c'', [7, 8])], ([7, 8], p'))"
  proof -
    have "po_preferWorker demo_options = Some False" "file_name ?f = ''f''"
      by (simp_all add: demo_options_def memory_file_def)
    then have "executePrepareUploadStreaming demo_worker_env ?f ''c'' demo_tc ''f'' 0 100 demo_options
        ([], demo_run) = (Inr [(''c'', [7, 8])], ([7, 8], p'))"
      using p'(1) by (simp add: executePrepareUploadStreaming_def)
    then show ?thesis
      using \<open>file_name ?f = ''f''\<close>
      by (simp add: prepareUploadStreaming_def Let_def code max default_to_def abind_def acatch_def)
  qed
  moreover have "hash_pool_new (Some (default_to None DEFAULT_BLOCK_HASH_CONCURRENCY)) = Inr demo_pool"
    by code_simp
  moreover have "ready_of (pr_events p') = [(''c'', [7, 8])]" "ready_of (pr_events demo_run) = []"
    using p'(2) by (simp_all add: view_def demo_run_def)
  ultimately show ?thesis
    by (simp add: prepareUploadStreamingWithHashes_def abind_def)
qed

lemma demo_drains: "drains_to demo_digest demo_pool [(''c'', [7, 8])]
   [\<lparr>bh_token = ''c'', bh_blockHash = ''0708''\<rparr>]"
proof -
  define s where "s = projr (enqueue ''c'' [7, 8] demo_pool)"
  define t where "t = finishJob demo_digest 0 (drain_start 0 s)"
  have e: "enqueue ''c'' [7, 8] demo_pool = Inr s" unfolding s_def by code_simp
  have r: "0 < length (hp_running (drain_start 0 s))" unfolding s_def by code_simp
  have fin: "0 \<in> set (hp_resolved t)"
    "drain_result t = [\<lparr>bh_token = ''c'', bh_blockHash = ''0708''\<rparr>]"
    unfolding t_def s_def by code_simp+
  have "pool_fed demo_digest demo_pool [(''c'', [7, 8])] s" using e by (meson fed_block fed_done)
  moreover have "(pool_settles demo_digest)\<^sup>*\<^sup>* (drain_start 0 s) t"
    using settle[OF r, of demo_digest] unfolding t_def by (rule r_into_rtranclp)
  ultimately show ?thesis unfolding drains_to_def using fin by metis
qed

theorem pipelined_hashes_exact_witness:
  "distinct (map bh_token [\<lparr>bh_token = ''c'', bh_blockHash = ''0708''\<rparr>]) \<and>
   demo_digest (''c'', [7, 8]) = Some ''0708''"
proof -
  obtain mp' where run: "prepareUploadStreamingWithHashes demo_env demo_worker_env
     (memory_file ''f'' [7, 8]) ''c'' demo_tc None (Some 0) demo_options None ([], demo_run) =
     (Inr ([(''c'', [7, 8])], demo_pool, [(''c'', [7, 8])]), mp')" using demo_hashes by blast
  show ?thesis
    using pipelined_hashes_exact[OF run _ demo_drains] by (simp add: demo_digest_def)
qed

end
