(* ===== verification/Upload.thy ===== *)
theory Upload
  imports Prepare Router "HOL-Library.Multiset"
begin

text \<open>
  The upload session as a whole: routes (\<open>session/upload-registry.ts\<close>), the stripe upload with its
  parameters (\<open>uploadPrepared\<close>), the background replication (\<open>session/replica-replication.ts\<close>),
  \<open>uploadFile\<close>, and the application's \<open>sendFile\<close> with a new credential after a conflict.
\<close>

section \<open>Routes\<close>

record upload_route_plan =
  up_primary :: endpoint_map
  up_replicas :: "(string, replica_target list) jsmap"
  up_reservation :: "reserve_meta option"

text \<open>\<open>RegistryClient\<close>, the interface of the upload.\<close>

record 'w registry_client =
  rc_reserveUploadBlocks :: "block_hash_entry list \<Rightarrow> jsnum option \<Rightarrow> ('w, reserve_result) act"
  rc_abandonReplicaPlacements :: "placement_failure list \<Rightarrow> ('w, unit) act"

definition http_registry_client :: "http_registry_options \<Rightarrow> 'w fetch_fn \<Rightarrow> 'w registry_client" where
  "http_registry_client opts fetch = \<lparr>rc_reserveUploadBlocks = http_reserveUploadBlocks opts fetch,
     rc_abandonReplicaPlacements = http_abandonReplicaPlacements opts fetch\<rparr>"

text \<open>
  \<open>hashes\<close> is the awaited \<open>computeUploadBlockHashesParallel\<close>: what it may return is the subject of
  \<open>HashPool\<close>. \<open>say\<close> is the caller's status callback.
\<close>

record 'w route_options =
  uo_registry :: "'w registry_client option"
  uo_ttlSeconds :: "jsnum option"
  uo_precomputedBlockHashes :: "block_hash_entry list option"
  uo_hashConcurrency :: "int option"

definition hash_mismatch :: "nat \<Rightarrow> nat \<Rightarrow> thrown" where
  "hash_mismatch expected got =
     ErrorObj (''block hash count mismatch: expected '' @ dec expected @ '', got '' @ dec got)"

definition missing_hash :: "string \<Rightarrow> thrown" where
  "missing_hash token = ErrorObj (''missing block hash for token: '' @ token)"

definition reserveAndRegisterUploadBlocks ::
    "(upload_map \<Rightarrow> int \<Rightarrow> ('w, block_hash_entry list) act) \<Rightarrow> (upload_status \<Rightarrow> 'w \<Rightarrow> 'w) \<Rightarrow>
     upload_map \<Rightarrow> 'w registry_client \<Rightarrow> 'w route_options \<Rightarrow> ('w, upload_route_plan) act" where
  "reserveAndRegisterUploadBlocks hashes say uploads registry options =
     abind (case uo_precomputedBlockHashes options of
              Some entries \<Rightarrow> areturn entries
            | None \<Rightarrow> hashes uploads (default_to (uo_hashConcurrency options) DEFAULT_BLOCK_HASH_CONCURRENCY))
       (\<lambda>entries.
     if length entries \<noteq> length uploads then athrow (hash_mismatch (length uploads) (length entries))
     else
       let hashByToken = fold (\<lambda>e. jm_set (bh_token e) (bh_blockHash e)) entries [] in
       (case find (\<lambda>token. jm_get hashByToken token = None) (jm_keys uploads) of
          Some token \<Rightarrow> athrow (missing_hash token)
        | None \<Rightarrow>
            aseq (amodify (say Reserving))
            (abind (rc_reserveUploadBlocks registry entries (uo_ttlSeconds options)) (\<lambda>reserveResult.
             abind (alift (endpointsFromRegistryMap (rs_routes reserveResult))) (\<lambda>primary.
             areturn \<lparr>up_primary = primary,
               up_replicas = replicaTargetsFromRegistryMap (rs_routes reserveResult),
               up_reservation = Some (reserve_meta.truncate reserveResult)\<rparr>)))))"

definition resolveUploadEndpoints ::
    "(upload_map \<Rightarrow> int \<Rightarrow> ('w, block_hash_entry list) act) \<Rightarrow> (upload_status \<Rightarrow> 'w \<Rightarrow> 'w) \<Rightarrow>
     upload_map \<Rightarrow> (string list \<Rightarrow> ('w, endpoint_map) act) \<Rightarrow> 'w route_options \<Rightarrow>
     ('w, upload_route_plan) act" where
  "resolveUploadEndpoints hashes say uploads resolveMany options = (case uo_registry options of
     Some registry \<Rightarrow> reserveAndRegisterUploadBlocks hashes say uploads registry options
   | None \<Rightarrow>
       if jm_keys uploads = []
       then areturn \<lparr>up_primary = [], up_replicas = [], up_reservation = None\<rparr>
       else aseq (amodify (say Reserving))
         (abind (resolveMany (jm_keys uploads)) (\<lambda>primary.
          areturn \<lparr>up_primary = primary, up_replicas = [], up_reservation = None\<rparr>)))"

record replica_job =
  rj_token :: string
  rj_relayId :: string
  rj_blob :: bytes
  rj_endpoint :: endpoint_base

definition collectReplicaJobs :: "upload_map \<Rightarrow> upload_route_plan \<Rightarrow> replica_job list" where
  "collectReplicaJobs uploads routePlan = concat (map (\<lambda>(token, blob).
     map (\<lambda>target. \<lparr>rj_token = token, rj_relayId = rt_relayId target, rj_blob = blob,
                    rj_endpoint = rt_endpoint target\<rparr>)
       (default_to (jm_get (up_replicas routePlan) token) [])) uploads)"

section \<open>Background replication\<close>

text \<open>
  \<open>runAsyncReplicaReplication\<close>: a worker awaits its \<open>putWithRetry\<close> (\<open>Replicating i\<close>) or has
  returned. Whatever \<open>putWithRetry\<close> throws becomes a failure.
\<close>

datatype replica_worker = Replicating nat | ReplicaDone

record replica_state =
  ra_nextIndex :: nat
  ra_workers :: "replica_worker list"
  ra_failures :: "placement_failure list"
  ra_put :: "nat list"
  ra_failed :: "nat list"

text \<open>One turn of a worker's loop: it takes the next job or returns.\<close>

definition replica_take :: "replica_job list \<Rightarrow> nat \<Rightarrow> replica_state \<Rightarrow> replica_state" where
  "replica_take jobs i s =
     (if ra_nextIndex s < length jobs
      then s\<lparr>ra_workers := (ra_workers s)[i := Replicating (ra_nextIndex s)],
             ra_nextIndex := ra_nextIndex s + 1\<rparr>
      else s\<lparr>ra_workers := (ra_workers s)[i := ReplicaDone]\<rparr>)"

definition replica_finish ::
    "replica_job list \<Rightarrow> nat \<Rightarrow> nat \<Rightarrow> unit res \<Rightarrow> replica_state \<Rightarrow> replica_state" where
  "replica_finish jobs i current outcome s = replica_take jobs i (case outcome of
     Inr _ \<Rightarrow> s\<lparr>ra_put := ra_put s @ [current]\<rparr>
   | Inl _ \<Rightarrow> s\<lparr>ra_failures := ra_failures s @
         [\<lparr>pf_token = rj_token (jobs ! current), pf_relayId = rj_relayId (jobs ! current)\<rparr>],
         ra_failed := ra_failed s @ [current]\<rparr>)"

definition replica_workers :: "replica_job list \<Rightarrow> int \<Rightarrow> nat" where
  "replica_workers jobs concurrency = nat (min concurrency (int (length jobs)))"

definition replica_start :: "replica_job list \<Rightarrow> int \<Rightarrow> replica_state" where
  "replica_start jobs concurrency = fold (replica_take jobs) [0..<replica_workers jobs concurrency]
     \<lparr>ra_nextIndex = 0, ra_workers = replicate (replica_workers jobs concurrency) ReplicaDone,
      ra_failures = [], ra_put = [], ra_failed = []\<rparr>"

text \<open>After \<open>Promise.all\<close>: the failures are reported, if there are any.\<close>

definition replica_report :: "'w registry_client \<Rightarrow> replica_state \<Rightarrow> ('w, unit) act" where
  "replica_report registry s =
     (if ra_failures s \<noteq> [] then rc_abandonReplicaPlacements registry (ra_failures s) else areturn ())"

definition replica_put_policy :: "int \<Rightarrow> int \<Rightarrow> put_retry_policy" where
  "replica_put_policy putMaxAttempts putRetryDelayMs =
     \<lparr>rp_maxAttempts = putMaxAttempts, rp_baseDelayMs = putRetryDelayMs,
      rp_transientMaxAttempts = None\<rparr>"

subsection \<open>Interleavings of the replication workers\<close>

inductive replica_step :: "replica_job list \<Rightarrow> replica_state \<Rightarrow> replica_state \<Rightarrow> bool" for jobs where
  replicated: "i < length (ra_workers s) \<Longrightarrow> ra_workers s ! i = Replicating k \<Longrightarrow>
    replica_step jobs s (replica_finish jobs i k outcome s)"

inductive_cases replica_stepE: "replica_step jobs s t"

definition replicating :: "replica_worker \<Rightarrow> nat list" where
  "replicating w = (case w of Replicating k \<Rightarrow> [k] | ReplicaDone \<Rightarrow> [])"

definition replicas_in_flight :: "replica_state \<Rightarrow> nat list" where
  "replicas_in_flight s = concat (map replicating (ra_workers s))"

definition replica_failure :: "replica_job list \<Rightarrow> nat \<Rightarrow> placement_failure" where
  "replica_failure jobs k = \<lparr>pf_token = rj_token (jobs ! k), pf_relayId = rj_relayId (jobs ! k)\<rparr>"

text \<open>
  Every job taken so far is in flight, put or failed, exactly once; the failures are those of the
  failed jobs; a worker returns only when every job was taken.
\<close>

definition replica_inv :: "replica_job list \<Rightarrow> int \<Rightarrow> replica_state \<Rightarrow> bool" where
  "replica_inv jobs c s \<longleftrightarrow>
     mset (replicas_in_flight s) + mset (ra_put s) + mset (ra_failed s) = mset [0..<ra_nextIndex s] \<and>
     ra_nextIndex s \<le> length jobs \<and> length (ra_workers s) = replica_workers jobs c \<and>
     ra_failures s = map (replica_failure jobs) (ra_failed s) \<and>
     (ReplicaDone \<in> set (ra_workers s) \<longrightarrow> ra_nextIndex s = length jobs)"

lemma mset_flight_update:
  assumes "i < length ws"
  shows "mset (concat (map replicating (ws[i := w]))) + mset (replicating (ws ! i)) =
    mset (concat (map replicating ws)) + mset (replicating w)"
proof -
  have "ws = take i ws @ ws ! i # drop (Suc i) ws" using assms by (rule id_take_nth_drop)
  then have "mset (concat (map replicating ws)) = mset (concat (map replicating (take i ws))) +
      mset (replicating (ws ! i)) + mset (concat (map replicating (drop (Suc i) ws)))"
    by (metis concat.simps(2) concat_append list.simps(9) map_append mset_append union_assoc)
  then show ?thesis using assms by (simp add: upd_conv_take_nth_drop)
qed

lemma replica_finish_inv:
  assumes inv: "replica_inv jobs c s" and i: "i < length (ra_workers s)" "ra_workers s ! i = Replicating k"
  shows "replica_inv jobs c (replica_finish jobs i k outcome s)"
proof -
  let ?w = "if ra_nextIndex s < length jobs then Replicating (ra_nextIndex s) else ReplicaDone"
  have flight: "mset (concat (map replicating ((ra_workers s)[i := ?w]))) + {#k#} =
      mset (replicas_in_flight s) + mset (replicating ?w)"
    using mset_flight_update[OF i(1), of ?w] i(2) by (simp add: replicas_in_flight_def replicating_def)
  have done_mem: "ReplicaDone \<in> set ((ra_workers s)[i := v]) \<Longrightarrow> v = ReplicaDone \<or> ReplicaDone \<in> set (ra_workers s)" for v
    by (metis in_set_conv_nth length_list_update nth_list_update_eq nth_list_update_neq)
  have keep: "mset (concat (map replicating ((ra_workers s)[i := ?w]))) + {#k#} + mset (ra_put s) + mset (ra_failed s) =
      mset [0..<ra_nextIndex s] + mset (replicating ?w)"
    using inv flight by (simp add: replica_inv_def ac_simps)
  show ?thesis
  proof (cases "ra_nextIndex s < length jobs")
    case True
    with inv keep done_mem[of ?w] show ?thesis
      by (cases outcome)
        (auto simp: replica_inv_def replica_finish_def replica_take_def replicas_in_flight_def
          replicating_def replica_failure_def ac_simps)
  next
    case False
    with inv keep show ?thesis
      by (cases outcome)
        (auto simp: replica_inv_def replica_finish_def replica_take_def replicas_in_flight_def
          replicating_def replica_failure_def ac_simps)
  qed
qed

lemma replica_start_upto:
  assumes "m \<le> W" "W \<le> length jobs"
  shows "fold (replica_take jobs) [0..<m] \<lparr>ra_nextIndex = 0, ra_workers = replicate W ReplicaDone,
      ra_failures = [], ra_put = [], ra_failed = []\<rparr> =
    \<lparr>ra_nextIndex = m, ra_workers = map Replicating [0..<m] @ replicate (W - m) ReplicaDone,
      ra_failures = [], ra_put = [], ra_failed = []\<rparr>"
  using assms(1)
proof (induction m)
  case (Suc m)
  then have "replicate (W - m) ReplicaDone = ReplicaDone # replicate (W - Suc m) ReplicaDone"
    by (metis Suc_diff_le diff_Suc_Suc replicate_Suc)
  with Suc assms(2) show ?case by (simp add: replica_take_def list_update_append)
qed simp

lemma replica_start_eq:
  "replica_start jobs c = \<lparr>ra_nextIndex = replica_workers jobs c,
     ra_workers = map Replicating [0..<replica_workers jobs c], ra_failures = [], ra_put = [], ra_failed = []\<rparr>"
  using replica_start_upto[of "replica_workers jobs c" "replica_workers jobs c" jobs]
  by (simp add: replica_start_def replica_workers_def)

lemma replica_start_inv: "replica_inv jobs c (replica_start jobs c)"
proof -
  have "concat (map replicating (map Replicating ks)) = ks" for ks
    by (induction ks) (simp_all add: replicating_def)
  then show ?thesis
    by (auto simp: replica_inv_def replica_start_eq replicas_in_flight_def replica_workers_def)
qed

definition replica_rank :: "replica_job list \<Rightarrow> replica_state \<Rightarrow> nat" where
  "replica_rank jobs s = length jobs - (length (ra_put s) + length (ra_failed s))"

lemma replica_counts:
  assumes "replica_inv jobs c s"
  shows "length (replicas_in_flight s) + length (ra_put s) + length (ra_failed s) = ra_nextIndex s"
proof -
  have "size (mset (replicas_in_flight s) + mset (ra_put s) + mset (ra_failed s)) =
      size (mset [0..<ra_nextIndex s])"
    using assms unfolding replica_inv_def by metis
  then show ?thesis by simp
qed

interpretation replica_pool: draining_system "replica_step jobs" "replica_inv jobs c" "replica_rank jobs"
  for jobs c
proof
  show "replica_inv jobs c t" if "replica_inv jobs c s" "replica_step jobs s t" for s t
    using that by (auto elim!: replica_stepE intro: replica_finish_inv)
  show "replica_rank jobs t < replica_rank jobs s" if inv: "replica_inv jobs c s" and st: "replica_step jobs s t" for s t
  proof -
    obtain i k outcome where t: "t = replica_finish jobs i k outcome s"
        and i: "i < length (ra_workers s)" "ra_workers s ! i = Replicating k"
      using st by (auto elim: replica_stepE)
    have "k \<in> set (replicas_in_flight s)"
      using i nth_mem[OF i(1)] by (force simp: replicas_in_flight_def replicating_def)
    then have "0 < length (replicas_in_flight s)" by (cases "replicas_in_flight s") auto
    then have "length (ra_put s) + length (ra_failed s) < length jobs"
    proof -
      have "ra_nextIndex s \<le> length jobs" using inv by (simp add: replica_inv_def)
      with \<open>0 < length (replicas_in_flight s)\<close> replica_counts[OF inv] show ?thesis by linarith
    qed
    then show ?thesis
      unfolding t
      by (cases outcome) (auto simp: replica_rank_def replica_finish_def replica_take_def)
  qed
qed

section \<open>Upload of a prepared map\<close>

definition DEFAULT_PUT_MAX_ATTEMPTS :: int where
  "DEFAULT_PUT_MAX_ATTEMPTS = 3"

definition DEFAULT_PUT_RETRY_DELAY_MS :: int where
  "DEFAULT_PUT_RETRY_DELAY_MS = 2000"

definition DEFAULT_BROWSER_PRIMARY_PUT_CONCURRENCY :: int where
  "DEFAULT_BROWSER_PRIMARY_PUT_CONCURRENCY = 6"

definition DEFAULT_BROWSER_H2_PRIMARY_PUT_CONCURRENCY :: int where
  "DEFAULT_BROWSER_H2_PRIMARY_PUT_CONCURRENCY = 12"

definition DEFAULT_REPLICA_PUT_MAX_ATTEMPTS :: int where
  "DEFAULT_REPLICA_PUT_MAX_ATTEMPTS = 5"

definition DEFAULT_REPLICA_PUT_RETRY_DELAY_MS :: int where
  "DEFAULT_REPLICA_PUT_RETRY_DELAY_MS = 1000"

definition DEFAULT_REPLICA_ASYNC_CONCURRENCY :: int where
  "DEFAULT_REPLICA_ASYNC_CONCURRENCY = 4"

definition UPLOAD_REPLICATION_POLICY_STRIPE_BEFORE_REPLICA :: string where
  "UPLOAD_REPLICATION_POLICY_STRIPE_BEFORE_REPLICA = ''stripe-before-replica''"

definition DEFAULT_UPLOAD_REPLICATION_POLICY :: string where
  "DEFAULT_UPLOAD_REPLICATION_POLICY = UPLOAD_REPLICATION_POLICY_STRIPE_BEFORE_REPLICA"

definition resolvePrimaryPutConcurrency ::
    "runtime_env \<Rightarrow> int \<Rightarrow> int option \<Rightarrow> hop_protocol \<Rightarrow> int" where
  "resolvePrimaryPutConcurrency env total1 explicit hopProtocol = (case explicit of
     Some c \<Rightarrow> c
   | None \<Rightarrow>
       if isBrowserRuntime env
       then min total1 (if hopProtocol = H2 then DEFAULT_BROWSER_H2_PRIMARY_PUT_CONCURRENCY
                        else DEFAULT_BROWSER_PRIMARY_PUT_CONCURRENCY)
       else total1)"

definition firstPrimaryEndpointUrl :: "endpoint_map \<Rightarrow> string option" where
  "firstPrimaryEndpointUrl primary = (case primary of [] \<Rightarrow> None | (_, ep) # _ \<Rightarrow> Some (ep_url ep))"

record 'w upload_options =
  op_concurrency :: "int option"
  op_registry :: "'w registry_client option"
  op_putMaxAttempts :: "int option"
  op_putTransientMaxAttempts :: "int option"
  op_putRetryDelayMs :: "int option"
  op_replicaPutMaxAttempts :: "int option"
  op_replicaPutRetryDelayMs :: "int option"
  op_replicaAsyncConcurrency :: "int option"
  op_ttlSeconds :: "jsnum option"
  op_segmentCode :: "int option"
  op_hashConcurrency :: "int option"
  op_precomputedBlockHashes :: "block_hash_entry list option"
  op_replicationPolicy :: "string option"
  op_relayMaxBodyBytes :: "int option"
  op_maxWireBlockBytes :: "jsnum option"
  op_preferConservativeWireBlocks :: "bool option"
  op_stripeRampConcurrency :: "bool option"
  op_wireBlockBytes :: "int option"

text \<open>
  What the session awaits: \<open>ud_stripe\<close> is the awaited pool of \<open>Stripe\<close>, \<open>ud_hashes\<close> and \<open>ud_drain\<close>
  the awaited pools of \<open>HashPool\<close>. The replication that is left running in the background is part
  of the result.
\<close>

record 'w upload_deps =
  ud_env :: runtime_env
  ud_resolveMany :: "string list \<Rightarrow> ('w, endpoint_map) act"
  ud_client :: "'w upload_client"
  ud_hashes :: "upload_map \<Rightarrow> int \<Rightarrow> ('w, block_hash_entry list) act"
  ud_drain :: "hash_pool \<Rightarrow> entry list \<Rightarrow> ('w, block_hash_entry list) act"
  ud_stripe :: "stripe_config \<Rightarrow> ('w, unit) act"
  ud_say :: "upload_status \<Rightarrow> 'w \<Rightarrow> 'w"

record replica_run =
  rn_jobs :: "replica_job list"
  rn_policy :: put_retry_policy
  rn_concurrency :: int

record prepared_result =
  pd_replicaSync :: "replica_run option"
  pd_reservation :: "reserve_meta option"

text \<open>The relay count of the plan is only compared with 1.\<close>

definition count_of :: "jsnum \<Rightarrow> int" where
  "count_of n = (case n of Fin r \<Rightarrow> \<lceil>r\<rceil> | PosInf \<Rightarrow> 2 | _ \<Rightarrow> 0)"

definition stripe_config_of ::
    "runtime_env \<Rightarrow> 'w upload_options \<Rightarrow> upload_map \<Rightarrow> upload_route_plan \<Rightarrow> hop_protocol \<Rightarrow> stripe_config" where
  "stripe_config_of env options uploads routePlan hop =
     \<lparr>sc_entries = uploads, sc_endpoints = up_primary routePlan,
      sc_maxConcurrency = resolvePrimaryPutConcurrency env (int (length uploads)) (op_concurrency options) hop,
      sc_rampConcurrency = resolveStripeRampConcurrency (isBrowserRuntime env)
        \<lparr>ro_relayCount = map_option (\<lambda>p. count_of (pp_relayCount p))
            (Option.bind (up_reservation routePlan) rs_placementPlan),
         ro_explicit = op_stripeRampConcurrency options, ro_hopProtocol = hop,
         ro_uses32MiBWireBlocks = resolveUploadUses32MiBWireBlocks uploads (op_wireBlockBytes options),
         ro_isBrowser = Some (isBrowserRuntime env)\<rparr>,
      sc_putMaxAttempts = default_to (op_putMaxAttempts options) DEFAULT_PUT_MAX_ATTEMPTS,
      sc_putTransientMaxAttempts =
        default_to (op_putTransientMaxAttempts options) DEFAULT_PUT_TRANSIENT_MAX_ATTEMPTS,
      sc_putRetryDelayMs = default_to (op_putRetryDelayMs options) DEFAULT_PUT_RETRY_DELAY_MS\<rparr>"

definition replica_run_of :: "'w upload_options \<Rightarrow> replica_job list \<Rightarrow> replica_run" where
  "replica_run_of options jobs =
     \<lparr>rn_jobs = jobs,
      rn_policy = replica_put_policy
        (default_to (op_replicaPutMaxAttempts options) DEFAULT_REPLICA_PUT_MAX_ATTEMPTS)
        (default_to (op_replicaPutRetryDelayMs options) DEFAULT_REPLICA_PUT_RETRY_DELAY_MS),
      rn_concurrency = default_to (op_replicaAsyncConcurrency options) DEFAULT_REPLICA_ASYNC_CONCURRENCY\<rparr>"

definition uploadPrepared ::
    "'w upload_deps \<Rightarrow> upload_map \<Rightarrow> 'w upload_options \<Rightarrow> ('w, prepared_result) act" where
  "uploadPrepared deps uploads options =
     (let policy = default_to (op_replicationPolicy options) DEFAULT_UPLOAD_REPLICATION_POLICY in
      if policy \<noteq> UPLOAD_REPLICATION_POLICY_STRIPE_BEFORE_REPLICA
      then athrow (ErrorObj (''unsupported upload replication policy: '' @ policy))
      else if uploads = [] then areturn \<lparr>pd_replicaSync = None, pd_reservation = None\<rparr>
      else if default_to (op_putMaxAttempts options) DEFAULT_PUT_MAX_ATTEMPTS \<le> 0
      then athrow (ErrorObj ''putMaxAttempts must be greater than zero'')
      else
        abind (resolveUploadEndpoints (ud_hashes deps) (ud_say deps) uploads (ud_resolveMany deps)
          \<lparr>uo_registry = op_registry options, uo_ttlSeconds = op_ttlSeconds options,
           uo_precomputedBlockHashes = op_precomputedBlockHashes options,
           uo_hashConcurrency = op_hashConcurrency options\<rparr>) (\<lambda>routePlan.
        abind (case firstPrimaryEndpointUrl (up_primary routePlan) of
                 Some url \<Rightarrow> probeHopProtocol (ud_client deps) url
               | None \<Rightarrow> areturn UnknownHop) (\<lambda>hop.
        aseq (ud_stripe deps (stripe_config_of (ud_env deps) options uploads routePlan hop))
          (let jobs = collectReplicaJobs uploads routePlan in
           areturn (if op_registry options = None \<or> jobs = []
             then \<lparr>pd_replicaSync = None, pd_reservation = up_reservation routePlan\<rparr>
             else \<lparr>pd_replicaSync = Some (replica_run_of options jobs),
                   pd_reservation = up_reservation routePlan\<rparr>)))))"

section \<open>Upload of a file\<close>

datatype upload_input = InMemory bytes | OnDisk js_file

fun status_events :: "prep_event list \<Rightarrow> upload_status list" where
  "status_events [] = []"
| "status_events (PrepStatus st # evs) = st # status_events evs"
| "status_events (BlockReady b # evs) = status_events evs"

definition fresh_run :: prep_run where
  "fresh_run = \<lparr>pr_bytesFed = 0, pr_uploads = [], pr_events = []\<rparr>"

definition upload_prepare_options :: "'w upload_options \<Rightarrow> prepare_options" where
  "upload_prepare_options options =
     \<lparr>wo_maxWireBlockBytes = op_maxWireBlockBytes options,
      wo_relayMaxBodyBytes = op_relayMaxBodyBytes options,
      wo_preferConservative = op_preferConservativeWireBlocks options,
      po_wasmScriptUrl = None, po_wasmBinaryUrl = None, po_preferWorker = None\<rparr>"

text \<open>
  A large \<open>File\<close> is encrypted as a stream (the statuses of the encryption are delivered when it
  ends), anything else in one call of the module.
\<close>

definition upload_streamed ::
    "'w upload_deps \<Rightarrow> 'w worker_env \<Rightarrow> 'w twelve_c \<Rightarrow> js_file \<Rightarrow> string \<Rightarrow> 'w upload_options \<Rightarrow>
     string option \<Rightarrow> ('w, upload_map \<times> prepared_result) act" where
  "upload_streamed deps we tc f credential options given_name w =
     (case prepareUploadStreamingWithHashes (ud_env deps) (we\<lparr>we_createUploadWorker := None\<rparr>) f
             credential tc (Some (default_to given_name (file_name f))) (op_segmentCode options)
             (upload_prepare_options options) (op_hashConcurrency options) (w, fresh_run) of
        (r, (w1, p)) \<Rightarrow>
          (let w2 = fold (ud_say deps) (status_events (pr_events p)) w1 in
           abind (alift r) (\<lambda>(uploads, pool1, blocks).
           abind (ud_drain deps pool1 blocks) (\<lambda>blockHashes.
           abind (uploadPrepared deps uploads (options\<lparr>op_precomputedBlockHashes := Some blockHashes\<rparr>))
             (\<lambda>prepared. areturn (uploads, prepared)))) w2))"

definition upload_at_once ::
    "'w upload_deps \<Rightarrow> 'w twelve_c \<Rightarrow> upload_input \<Rightarrow> string \<Rightarrow> 'w upload_options \<Rightarrow>
     string option \<Rightarrow> ('w, upload_map \<times> prepared_result) act" where
  "upload_at_once deps tc input credential options given_name =
     aseq (amodify (ud_say deps (Preparing None None None None)))
     (abind (alift (case input of OnDisk f \<Rightarrow> file_arrayBuffer f | InMemory b \<Rightarrow> Inr b)) (\<lambda>plain.
      let size1 = Fin (of_int (int (length plain))) in
      abind (alift (case op_segmentCode options of Some c \<Rightarrow> Inr c
               | None \<Rightarrow> selectSegmentCodeForFileSize size1)) (\<lambda>code.
      aseq (alift (validateSegmentCode code))
      (abind (alift (resolvePrepareMaxWireBlockBytes (ud_env deps) size1
           (wire_choice.truncate (upload_prepare_options options)))) (\<lambda>max_block.
       abind (tc_prepareUpload tc plain credential
           (case given_name of Some n \<Rightarrow> Some n
            | None \<Rightarrow> (case input of OnDisk f \<Rightarrow> Some (file_name f) | InMemory _ \<Rightarrow> None))
           code max_block) (\<lambda>uploads.
       abind (uploadPrepared deps uploads options) (\<lambda>prepared. areturn (uploads, prepared))))))))"

definition uploadFile ::
    "'w upload_deps \<Rightarrow> 'w worker_env \<Rightarrow> 'w twelve_c \<Rightarrow> upload_input \<Rightarrow> string \<Rightarrow> 'w upload_options \<Rightarrow>
     string option \<Rightarrow> ('w, upload_map \<times> prepared_result) act" where
  "uploadFile deps we tc input credential options given_name = (case input of
     OnDisk f \<Rightarrow>
       if V21_WHOLE_FILE_THRESHOLD_BYTES < file_size f
       then upload_streamed deps we tc f credential options given_name
       else upload_at_once deps tc input credential options given_name
   | InMemory _ \<Rightarrow> upload_at_once deps tc input credential options given_name)"

section \<open>Sending with a new credential after a conflict\<close>

definition DEFAULT_MAX_RESERVATION_ATTEMPTS :: int where
  "DEFAULT_MAX_RESERVATION_ATTEMPTS = 5"

text \<open>
  \<open>generate\<close> is \<open>generateCredential\<close>, \<open>upload\<close> is \<open>uploadFile\<close> with the fixed arguments, \<open>retried\<close> the
  caller's \<open>onReservationRetry\<close>.
\<close>

function send_attempts ::
    "('w, string) act \<Rightarrow> (string \<Rightarrow> ('w, 'r) act) \<Rightarrow> (int \<Rightarrow> int \<Rightarrow> occupied_token list \<Rightarrow> 'w \<Rightarrow> 'w) \<Rightarrow>
     int \<Rightarrow> int \<Rightarrow> occupied_token list \<Rightarrow> ('w, string \<times> 'r) act" where
  "send_attempts generate upload retried maxAttempts attempt lastOccupied w =
     (if attempt \<le> maxAttempts
      then (case generate w of
         (Inl e, w1) \<Rightarrow> (Inl e, w1)
       | (Inr credential, w1) \<Rightarrow>
           (case upload credential w1 of
              (Inr r, w2) \<Rightarrow> (Inr (credential, r), w2)
            | (Inl e, w2) \<Rightarrow>
                (case e of
                   RegistryTokenOccupiedError occupied \<Rightarrow>
                     send_attempts generate upload retried maxAttempts (attempt + 1) occupied
                       (retried attempt maxAttempts occupied w2)
                 | _ \<Rightarrow> (Inl e, w2))))
      else (Inl (UploadTokenReservationExhaustedError maxAttempts lastOccupied), w))"
  by pat_completeness auto
termination
  by (relation "measure (\<lambda>(_, _, _, maxAttempts, attempt, _). nat (maxAttempts + 1 - attempt))") auto

declare send_attempts.simps [simp del]

definition sendFile ::
    "('w, string) act \<Rightarrow> (string \<Rightarrow> ('w, 'r) act) \<Rightarrow> (int \<Rightarrow> int \<Rightarrow> occupied_token list \<Rightarrow> 'w \<Rightarrow> 'w) \<Rightarrow>
     int option \<Rightarrow> ('w, string \<times> 'r) act" where
  "sendFile generate upload retried maxReservationAttempts =
     (let maxAttempts = default_to maxReservationAttempts DEFAULT_MAX_RESERVATION_ATTEMPTS in
      if maxAttempts \<le> 0 then athrow (ErrorObj ''maxReservationAttempts must be greater than zero'')
      else send_attempts generate upload retried maxAttempts 1 [])"

text \<open>The upload that \<open>sendFile\<close> makes of its dependencies.\<close>

definition send_options :: "'w registry_client \<Rightarrow> int option \<Rightarrow> 'w upload_options" where
  "send_options registry concurrency =
     \<lparr>op_concurrency = concurrency, op_registry = Some registry, op_putMaxAttempts = None,
      op_putTransientMaxAttempts = None, op_putRetryDelayMs = None, op_replicaPutMaxAttempts = None,
      op_replicaPutRetryDelayMs = None, op_replicaAsyncConcurrency = None, op_ttlSeconds = None,
      op_segmentCode = None, op_hashConcurrency = None, op_precomputedBlockHashes = None,
      op_replicationPolicy = None, op_relayMaxBodyBytes = None, op_maxWireBlockBytes = None,
      op_preferConservativeWireBlocks = None, op_stripeRampConcurrency = None, op_wireBlockBytes = None\<rparr>"

definition send_upload ::
    "'w upload_deps \<Rightarrow> 'w worker_env \<Rightarrow> 'w twelve_c \<Rightarrow> 'w registry_client \<Rightarrow> int option \<Rightarrow> bytes \<Rightarrow>
     string \<Rightarrow> ('w, upload_map \<times> prepared_result) act" where
  "send_upload deps we tc registry concurrency plain credential =
     uploadFile deps we tc (InMemory plain) credential (send_options registry concurrency) None"

section \<open>Running the stripe pool\<close>

text \<open>
  A scheduler that always lets the first worker that can do something do it; the outcome of the
  PUT of block \<open>k\<close> is \<open>outs k\<close>. It is one of the interleavings, and comes to rest.
\<close>

definition worker_turn ::
    "stripe_config \<Rightarrow> (nat \<Rightarrow> unit res) \<Rightarrow> stripe_state \<Rightarrow> nat \<Rightarrow> stripe_state option" where
  "worker_turn cfg outs s i = (case ss_workers s ! i of
     AtSlot \<Rightarrow> if slot_free cfg s then Some (stripe_poll cfg i s) else None
   | Granted \<Rightarrow> Some (stripe_resume cfg i s)
   | Putting k \<Rightarrow> Some (stripe_finish cfg i k (outs k) s)
   | _ \<Rightarrow> None)"

definition next_turn :: "stripe_config \<Rightarrow> (nat \<Rightarrow> unit res) \<Rightarrow> stripe_state \<Rightarrow> stripe_state option" where
  "next_turn cfg outs s = (case List.map_filter (worker_turn cfg outs s) [0..<length (ss_workers s)] of
     [] \<Rightarrow> None | t # _ \<Rightarrow> Some t)"

fun run_turns :: "nat \<Rightarrow> stripe_config \<Rightarrow> (nat \<Rightarrow> unit res) \<Rightarrow> stripe_state \<Rightarrow> stripe_state" where
  "run_turns 0 cfg outs s = s"
| "run_turns (Suc n) cfg outs s = (case next_turn cfg outs s of None \<Rightarrow> s | Some t \<Rightarrow> run_turns n cfg outs t)"

definition run_stripe :: "stripe_config \<Rightarrow> (nat \<Rightarrow> unit res) \<Rightarrow> stripe_state" where
  "run_stripe cfg outs = run_turns (stripe_rank cfg (stripe_start cfg)) cfg outs (stripe_start cfg)"

lemma worker_turn_work:
  "i < length (ss_workers s) \<Longrightarrow> worker_turn cfg outs s i = Some t \<Longrightarrow> stripe_work cfg s t"
  by (auto simp: worker_turn_def split: worker.splits if_splits intro: stripe_work.intros)

lemma next_turn_work: "next_turn cfg outs s = Some t \<Longrightarrow> stripe_work cfg s t"
proof -
  assume "next_turn cfg outs s = Some t"
  then have "t \<in> set (List.map_filter (worker_turn cfg outs s) [0..<length (ss_workers s)])"
    by (auto simp: next_turn_def split: list.splits)
  then obtain i where "i < length (ss_workers s)" "worker_turn cfg outs s i = Some t"
    by (auto simp: List.map_filter_def)
  then show ?thesis by (rule worker_turn_work)
qed

lemma next_turn_stuck:
  assumes "next_turn cfg outs s = None"
  shows "\<not> (\<exists>u. stripe_work cfg s u)"
proof
  assume "\<exists>u. stripe_work cfg s u"
  then obtain i where i: "i < length (ss_workers s)" "worker_turn cfg outs s i \<noteq> None"
    by (auto elim!: stripe_workE simp: worker_turn_def)
  have "List.map_filter (worker_turn cfg outs s) [0..<length (ss_workers s)] = []"
    using assms by (auto simp: next_turn_def split: list.splits)
  with i show False by (auto simp: List.map_filter_def filter_empty_conv)
qed

lemma run_turns_rests:
  "stripe_rank cfg s \<le> n \<Longrightarrow> (stripe_work cfg)\<^sup>*\<^sup>* s (run_turns n cfg outs s) \<and>
     \<not> (\<exists>u. stripe_work cfg (run_turns n cfg outs s) u)"
proof (induction n arbitrary: s)
  case 0
  then show ?case using stripe_work_rank[of cfg s] by fastforce
next
  case (Suc n)
  show ?case
  proof (cases "next_turn cfg outs s")
    case None
    then show ?thesis using next_turn_stuck[OF None] by simp
  next
    case (Some t)
    have step: "stripe_work cfg s t" using Some by (rule next_turn_work)
    then have "stripe_rank cfg t \<le> n" using stripe_work_rank[OF step] Suc.prems by linarith
    from Suc.IH[OF this] Some step show ?thesis
      by (auto intro: converse_rtranclp_into_rtranclp)
  qed
qed

lemma run_stripe_rests:
  "(stripe_step cfg)\<^sup>*\<^sup>* (stripe_start cfg) (run_stripe cfg outs) \<and>
     \<not> (\<exists>u. stripe_work cfg (run_stripe cfg outs) u)"
proof -
  have "stripe_work cfg \<le> stripe_step cfg" by (auto intro: stripe_step.work)
  then have "(stripe_work cfg)\<^sup>*\<^sup>* x y \<Longrightarrow> (stripe_step cfg)\<^sup>*\<^sup>* x y" for x y
    by (metis rtranclp_mono predicate2D)
  then show ?thesis using run_turns_rests[of cfg "stripe_start cfg"] by (simp add: run_stripe_def)
qed

text \<open>What awaiting the pool may give: the result of one of its runs that came to rest.\<close>

definition awaits_pool :: "(stripe_config \<Rightarrow> ('w, unit) act) \<Rightarrow> bool" where
  "awaits_pool stripe1 \<longleftrightarrow> (\<forall>cfg w r w'. stripe1 cfg w = (r, w') \<longrightarrow>
     (\<exists>s. (stripe_step cfg)\<^sup>*\<^sup>* (stripe_start cfg) s \<and> \<not> (\<exists>u. stripe_work cfg s u) \<and> r = stripe_result s))"

lemma run_stripe_awaits: "awaits_pool (\<lambda>cfg w. (stripe_result (run_stripe cfg (outs w)), f cfg w))"
  unfolding awaits_pool_def using run_stripe_rests by fastforce

section \<open>Only blocks with an endpoint are started\<close>

definition started_routed :: "stripe_config \<Rightarrow> stripe_state \<Rightarrow> bool" where
  "started_routed cfg s \<longleftrightarrow> (\<forall>k\<in>set (ss_started s).
     \<exists>ep. jm_get (sc_endpoints cfg) (fst (sc_entries cfg ! k)) = Some ep)"

lemma started_frame:
  "ss_started (stripe_poll cfg i s) = ss_started s"
  "ss_started (stripe_finish cfg i k outcome s) = ss_started s"
  "ss_started (stripe_progress cfg k n s) = ss_started s"
  by (simp_all add: stripe_poll_def set_worker_def stripe_finish_def stripe_progress_def
      reportUploading_def Let_def worker_throw_def split: sum.split)

lemma started_routed_step: "stripe_step cfg s t \<Longrightarrow> started_routed cfg s \<Longrightarrow> started_routed cfg t"
proof (induction rule: stripe_step.induct)
  case (work s t)
  have resume: "started_routed cfg (stripe_resume cfg i s)" for i
    using work.prems
    by (auto simp: started_routed_def stripe_resume_def set_worker_def reportUploading_def Let_def
        worker_throw_def split: option.splits if_splits)
  from work.hyps show ?case
    by (rule stripe_workE) (use work.prems resume in \<open>auto simp: started_routed_def started_frame\<close>)
next
  case (progress i s k n)
  then show ?case by (simp add: started_routed_def started_frame)
qed

lemma stripe_start_started: "ss_started (stripe_start cfg) = []"
proof -
  have "ss_started (fold (stripe_poll cfg) is s) = ss_started s" for "is" s
    by (induction "is" arbitrary: s) (simp_all add: started_frame)
  then show ?thesis by (simp add: stripe_start_def stripe_blank_def)
qed

lemma started_routed_reachable: "(stripe_step cfg)\<^sup>*\<^sup>* (stripe_start cfg) s \<Longrightarrow> started_routed cfg s"
proof (induction rule: rtranclp_induct)
  case base
  then show ?case by (simp add: started_routed_def stripe_start_started)
next
  case (step t u)
  then show ?case using started_routed_step by blast
qed

lemma uploadPrepared_success:
  assumes "uploadPrepared deps uploads options w = (Inr res, w')" "uploads \<noteq> []"
  obtains routePlan hop w1 w2 where
    "ud_stripe deps (stripe_config_of (ud_env deps) options uploads routePlan hop) w1 = (Inr (), w2)"
    "pd_reservation res = up_reservation routePlan"
    "pd_replicaSync res = (let jobs = collectReplicaJobs uploads routePlan in
        if op_registry options = None \<or> jobs = [] then None else Some (replica_run_of options jobs))"
proof -
  have policy: "default_to (op_replicationPolicy options) DEFAULT_UPLOAD_REPLICATION_POLICY =
      UPLOAD_REPLICATION_POLICY_STRIPE_BEFORE_REPLICA"
    and attempts: "\<not> default_to (op_putMaxAttempts options) DEFAULT_PUT_MAX_ATTEMPTS \<le> 0"
    using assms by (auto simp: uploadPrepared_def Let_def split: if_splits)
  obtain plan hop w1 u w2 where
    s: "ud_stripe deps (stripe_config_of (ud_env deps) options uploads plan hop) w1 = (Inr u, w2)"
    and r: "(let jobs = collectReplicaJobs uploads plan in
       areturn (if op_registry options = None \<or> jobs = []
         then \<lparr>pd_replicaSync = None, pd_reservation = up_reservation plan\<rparr>
         else \<lparr>pd_replicaSync = Some (replica_run_of options jobs),
               pd_reservation = up_reservation plan\<rparr>)) w2 = (Inr res, w')"
    using assms(1) unfolding uploadPrepared_def aseq_def
    by (simp only: Let_def policy attempts assms(2) if_False simp_thms abind_Inr_iff) blast
  have s': "ud_stripe deps (stripe_config_of (ud_env deps) options uploads plan hop) w1 = (Inr (), w2)"
    using s by simp
  show ?thesis
    by (rule that[OF s']) (use r in \<open>auto simp: Let_def split: if_splits\<close>)
qed

section \<open>Properties\<close>


text \<open>An explicit concurrency of zero or less uploads nothing and still succeeds: no worker is
  started, so the pool is at rest at once with the result of a success and no block stored.\<close>

theorem zero_concurrency_stores_nothing:
  assumes "sc_maxConcurrency cfg \<le> 0" "(stripe_step cfg)\<^sup>*\<^sup>* (stripe_start cfg) s"
  shows "stripe_result s = Inr () \<and> ss_stored s = [] \<and> \<not> (\<exists>u. stripe_step cfg s u)"
proof -
  have start: "ss_workers (stripe_start cfg) = []" "ss_failure (stripe_start cfg) = None"
    "ss_stored (stripe_start cfg) = []"
    using assms(1) by (simp_all add: stripe_start_def worker_count_def stripe_blank_def)
  have stuck: "\<not> (\<exists>u. stripe_step cfg (stripe_start cfg) u)"
    using start(1) by (auto elim!: stripe_stepE stripe_workE)
  have "s = stripe_start cfg"
    using assms(2) stuck by (metis converse_rtranclpE)
  then show ?thesis using start stuck by (simp add: stripe_result_def)
qed

text \<open>C10. Background replication forgets no replica: under every interleaving its workers come to
  rest, and then every job was either put or has failed, exactly once, and what is reported to the
  registry for clean-up is exactly the list of the failed placements (nothing when all were put).\<close>

theorem replicas_all_settled:
  assumes "0 < c" "(replica_step jobs)\<^sup>*\<^sup>* (replica_start jobs c) s"
  shows "(\<exists>t. (replica_step jobs)\<^sup>*\<^sup>* s t \<and> \<not> (\<exists>u. replica_step jobs t u)) \<and>
    (\<not> (\<exists>u. replica_step jobs s u) \<longrightarrow>
       mset (ra_put s @ ra_failed s) = mset [0..<length jobs] \<and>
       replica_report registry s = (if ra_failed s = [] then areturn ()
         else rc_abandonReplicaPlacements registry (map (replica_failure jobs) (ra_failed s))))"
proof (intro conjI impI)
  have inv: "replica_inv jobs c s"
    using replica_pool.inv_steps[OF assms(2) replica_start_inv] .
  show "\<exists>t. (replica_step jobs)\<^sup>*\<^sup>* s t \<and> \<not> (\<exists>u. replica_step jobs t u)"
    using replica_pool.reaches_stuck[OF inv] by blast
  assume stuck: "\<not> (\<exists>u. replica_step jobs s u)"
  have done_all: "w = ReplicaDone" if w: "w \<in> set (ra_workers s)" for w
  proof (cases w)
    case (Replicating k)
    obtain i where "i < length (ra_workers s)" "ra_workers s ! i = w"
      using w by (auto simp: in_set_conv_nth)
    then have "replica_step jobs s (replica_finish jobs i k (Inr ()) s)"
      using Replicating by (intro replicated) simp_all
    then show ?thesis using stuck by blast
  qed
  have "replicating w = []" if "w \<in> set (ra_workers s)" for w
    using done_all[OF that] by (simp add: replicating_def)
  then have flight: "replicas_in_flight s = []" by (simp add: replicas_in_flight_def)
  have taken: "ra_nextIndex s = length jobs"
  proof (cases "ra_workers s")
    case Nil
    then have "replica_workers jobs c = 0" using inv by (simp add: replica_inv_def)
    then have "jobs = []"
    proof -
      have "min c (int (length jobs)) \<le> 0" using \<open>replica_workers jobs c = 0\<close> by (simp add: replica_workers_def)
      then have "int (length jobs) \<le> 0" using assms(1) by linarith
      then show ?thesis by simp
    qed
    then show ?thesis using inv by (simp add: replica_inv_def)
  next
    case (Cons w ws)
    then show ?thesis using inv done_all[of w] by (auto simp: replica_inv_def)
  qed
  show "mset (ra_put s @ ra_failed s) = mset [0..<length jobs]"
    using inv flight taken by (simp add: replica_inv_def)
  show "replica_report registry s = (if ra_failed s = [] then areturn ()
         else rc_abandonReplicaPlacements registry (map (replica_failure jobs) (ra_failed s)))"
    using inv by (simp add: replica_report_def replica_inv_def)
qed

text \<open>The history of \<open>n\<close> attempts that met an occupied token.\<close>

inductive conflicted ::
    "('w, string) act \<Rightarrow> (string \<Rightarrow> ('w, 'r) act) \<Rightarrow> (int \<Rightarrow> int \<Rightarrow> occupied_token list \<Rightarrow> 'w \<Rightarrow> 'w) \<Rightarrow>
     int \<Rightarrow> nat \<Rightarrow> 'w \<Rightarrow> 'w \<Rightarrow> occupied_token list \<Rightarrow> bool"
  for generate upload retried maxAttempts where
  no_conflict: "conflicted generate upload retried maxAttempts 0 w w []"
| conflict: "conflicted generate upload retried maxAttempts n w wn toks \<Longrightarrow>
    generate wn = (Inr credential, w1) \<Longrightarrow>
    upload credential w1 = (Inl (RegistryTokenOccupiedError occupied), w2) \<Longrightarrow>
    conflicted generate upload retried maxAttempts (Suc n) w
      (retried (int n + 1) maxAttempts occupied w2) occupied"

definition send_once :: "('w, string) act \<Rightarrow> (string \<Rightarrow> ('w, 'r) act) \<Rightarrow> ('w, string \<times> 'r) act" where
  "send_once generate upload = abind generate (\<lambda>credential. abind (upload credential) (\<lambda>r.
     areturn (credential, r)))"

lemma send_attempts_history:
  assumes "conflicted generate upload retried maxAttempts n w wn toks" "int n \<le> maxAttempts"
    "send_attempts generate upload retried maxAttempts (int n + 1) toks wn = (r, w')"
  shows "\<exists>m v toks'. n \<le> m \<and> int m \<le> maxAttempts \<and>
    conflicted generate upload retried maxAttempts m w v toks' \<and>
    (if int m = maxAttempts
     then (r, w') = (Inl (UploadTokenReservationExhaustedError maxAttempts toks'), v)
     else (r, w') = send_once generate upload v \<and>
       (\<forall>credential v1 occ. generate v = (Inr credential, v1) \<longrightarrow>
          fst (upload credential v1) \<noteq> Inl (RegistryTokenOccupiedError occ)))"
  using assms
proof (induction "nat (maxAttempts - int n)" arbitrary: n wn toks)
  case 0
  then have "int n = maxAttempts" by simp
  with 0 show ?case by (subst (asm) send_attempts.simps) fastforce
next
  case (Suc d)
  then have lt: "int n + 1 \<le> maxAttempts" by linarith
  obtain g w1 where g: "generate wn = (g, w1)" by fastforce
  show ?case
  proof (cases "\<exists>credential occ w2. g = Inr credential \<and>
      upload credential w1 = (Inl (RegistryTokenOccupiedError occ), w2)")
    case True
    then obtain credential occ w2 where u: "g = Inr credential"
      "upload credential w1 = (Inl (RegistryTokenOccupiedError occ), w2)" by blast
    let ?w = "retried (int n + 1) maxAttempts occ w2"
    have c: "conflicted generate upload retried maxAttempts (Suc n) w ?w occ"
      using conflict[OF Suc.prems(1)] g u by blast
    have "send_attempts generate upload retried maxAttempts (int (Suc n) + 1) occ ?w = (r, w')"
      using Suc.prems(3) lt g u
      by (subst (asm) send_attempts.simps) (simp add: add.commute add.left_commute)
    moreover have "d = nat (maxAttempts - int (Suc n))" "int (Suc n) \<le> maxAttempts"
      using Suc.hyps(2) lt by linarith+
    ultimately show ?thesis using Suc.hyps(1)[OF _ c] Suc_leD by blast
  next
    case False
    have "(r, w') = send_once generate upload wn"
      using Suc.prems(3) lt g False
      by (subst (asm) send_attempts.simps)
        (auto simp: send_once_def abind_def split: prod.splits sum.splits thrown.splits)
    moreover have "\<forall>credential v1 occ. generate wn = (Inr credential, v1) \<longrightarrow>
          fst (upload credential v1) \<noteq> Inl (RegistryTokenOccupiedError occ)"
      using g False by (metis Pair_inject prod.collapse)
    ultimately show ?thesis using Suc.prems(1) lt by (intro exI[of _ n]) auto
  qed
qed

text \<open>C11. Sending retries exactly on conflicts: \<open>sendFile\<close> makes at most the allowed number of attempts,
  each with a newly generated credential; every attempt before the last met an occupied token, the
  last one's result (its credential with the upload, or its error) is the result, and when all
  attempts met occupied tokens the error names their number and the last occupied tokens.\<close>

theorem sendFile_retries:
  assumes "0 < default_to limit DEFAULT_MAX_RESERVATION_ATTEMPTS"
    and "sendFile generate upload retried limit w = (r, w')"
  shows "\<exists>n v toks. int n \<le> default_to limit DEFAULT_MAX_RESERVATION_ATTEMPTS \<and>
    conflicted generate upload retried (default_to limit DEFAULT_MAX_RESERVATION_ATTEMPTS) n w v toks \<and>
    (if int n = default_to limit DEFAULT_MAX_RESERVATION_ATTEMPTS
     then (r, w') = (Inl (UploadTokenReservationExhaustedError (int n) toks), v)
     else (r, w') = send_once generate upload v \<and>
       (\<forall>credential v1 occ. generate v = (Inr credential, v1) \<longrightarrow>
          fst (upload credential v1) \<noteq> Inl (RegistryTokenOccupiedError occ)))"
proof -
  let ?max = "default_to limit DEFAULT_MAX_RESERVATION_ATTEMPTS"
  have "send_attempts generate upload retried ?max (int 0 + 1) [] w = (r, w')"
    using assms by (simp add: sendFile_def)
  from send_attempts_history[OF no_conflict _ this] assms(1) show ?thesis by fastforce
qed

text \<open>The hashes of the pipeline pass the check before the reservation: for a streamed encryption
  whose announcements match its map, whatever the pool drained to, the reservation is made with
  exactly these entries, one for every block of the map; neither the count check nor the check for
  missing hashes can reject them.\<close>

theorem streamed_hashes_accepted:
  assumes "prepareUploadStreamingWithHashes env we f credential tc given_name segmentCode options hc (m, p) =
      (Inr (uploads, pool1, blocks), mp')"
    and "length blocks \<le> length uploads" "drains_to digest pool1 blocks hs"
    and "\<forall>b\<in>set blocks. digest b \<noteq> None"
    and "uo_precomputedBlockHashes opts = Some hs"
  shows "reserveAndRegisterUploadBlocks hashes say uploads registry opts w =
    abind (rc_reserveUploadBlocks registry hs (uo_ttlSeconds opts)) (\<lambda>reserveResult.
      abind (alift (endpointsFromRegistryMap (rs_routes reserveResult))) (\<lambda>primary.
      areturn \<lparr>up_primary = primary,
        up_replicas = replicaTargetsFromRegistryMap (rs_routes reserveResult),
        up_reservation = Some (reserve_meta.truncate reserveResult)\<rparr>)) (say Reserving w)"
proof -
  note entries = pipelined_entries[OF assms(1-4)]
  have wf: "jm_wf uploads"
  proof -
    have "jm_wf m \<Longrightarrow> jm_wf (fold (\<lambda>(t, d). jm_set t d) bs m)" for bs and m :: upload_map
      by (induction bs arbitrary: m) auto
    then show ?thesis using withHashes_blocks[OF assms(1)] by auto
  qed
  have "length hs = length uploads"
  proof -
    have "length (map bh_token hs) = length (jm_keys uploads)"
      using entries wf distinct_card[of "map bh_token hs"] distinct_card[of "jm_keys uploads"]
      by (simp add: jm_wf_def)
    then show ?thesis by simp
  qed
  moreover have "find (\<lambda>token. jm_get (fold (\<lambda>e. jm_set (bh_token e) (bh_blockHash e)) hs []) token = None)
      (jm_keys uploads) = None"
  proof -
    have keys: "set (jm_keys (fold (\<lambda>e. jm_set (bh_token e) (bh_blockHash e)) es m)) =
        bh_token ` set es \<union> set (jm_keys m)" for es and m :: "(string, string) jsmap"
      by (induction es arbitrary: m) auto
    have "jm_get (fold (\<lambda>e. jm_set (bh_token e) (bh_blockHash e)) hs []) t \<noteq> None"
      if "t \<in> set (jm_keys uploads)" for t
      using that entries keys[of hs "[]"] by (metis (no_types, lifting) UnI1 image_set jm_get_None_iff)
    then show ?thesis by (auto simp: find_None_iff)
  qed
  ultimately show ?thesis
    using assms(5) by (simp add: reserveAndRegisterUploadBlocks_def Let_def abind_def aseq_def)
qed

section \<open>Witnesses\<close>

definition demo_client :: "unit upload_client" where
  "demo_client = \<lparr>uc_fetch = (\<lambda>_. areturn 201), uc_xhr = None, uc_rejectNonOk = True,
     uc_forceFetchPutFallback = False, uc_throttle = (\<lambda>l. l), uc_performance = None,
     uc_head = (\<lambda>_. areturn ())\<rparr>"

definition demo_deps :: "unit upload_deps" where
  "demo_deps = \<lparr>ud_env = demo_env,
     ud_resolveMany = (\<lambda>tokens. areturn (map (\<lambda>t. (t, \<lparr>ep_url = ''http://r/'' @ t, ep_headers = None,
       ep_fallbacks = []\<rparr>)) tokens)),
     ud_client = demo_client, ud_hashes = (\<lambda>_ _. areturn []), ud_drain = (\<lambda>_ _. areturn []),
     ud_stripe = (\<lambda>cfg w. (stripe_result (run_stripe cfg (\<lambda>_. Inr ())), ())), ud_say = (\<lambda>_ w. w)\<rparr>"

definition demo_registry :: "unit registry_client" where
  "demo_registry = \<lparr>rc_reserveUploadBlocks = (\<lambda>entries ttl. areturn \<lparr>rs_grantedTtlSeconds = Fin 60,
       rs_requestedTtlSeconds = Fin 60, rs_degraded = False, rs_placementPlan = None, rs_routes = []\<rparr>),
     rc_abandonReplicaPlacements = (\<lambda>_. areturn ())\<rparr>"

definition demo_upload_options :: "unit upload_options" where
  "demo_upload_options = (send_options demo_registry None)\<lparr>op_registry := None\<rparr>"

lemma demo_upload_runs:
  "uploadPrepared demo_deps [(''t'', [1, 2])] demo_upload_options () =
     (Inr \<lparr>pd_replicaSync = None, pd_reservation = None\<rparr>, ())"
  by code_simp


theorem zero_concurrency_stores_nothing_witness:
  "stripe_result (stripe_start (demo_stripe\<lparr>sc_maxConcurrency := 0\<rparr>)) = Inr () \<and>
   ss_stored (stripe_start (demo_stripe\<lparr>sc_maxConcurrency := 0\<rparr>)) = []"
  using zero_concurrency_stores_nothing[of "demo_stripe\<lparr>sc_maxConcurrency := 0\<rparr>", OF _ rtranclp.rtrancl_refl]
  by simp

definition demo_jobs :: "replica_job list" where
  "demo_jobs = [\<lparr>rj_token = ''t'', rj_relayId = ''r1'', rj_blob = [1],
       rj_endpoint = \<lparr>ep_url = ''http://r1/t'', ep_headers = None\<rparr>\<rparr>,
     \<lparr>rj_token = ''t'', rj_relayId = ''r2'', rj_blob = [1],
       rj_endpoint = \<lparr>ep_url = ''http://r2/t'', ep_headers = None\<rparr>\<rparr>]"

theorem replicas_all_settled_witness:
  "\<exists>s. (replica_step demo_jobs)\<^sup>*\<^sup>* (replica_start demo_jobs 4) s \<and>
     mset (ra_put s @ ra_failed s) = {#0, 1#}"
proof -
  have all: "0 < (4 :: int)" by simp
  obtain t where t: "(replica_step demo_jobs)\<^sup>*\<^sup>* (replica_start demo_jobs 4) t"
      "\<not> (\<exists>u. replica_step demo_jobs t u)"
    using replicas_all_settled[OF all rtranclp.rtrancl_refl[of "replica_step demo_jobs"]] by blast
  have "mset [0..<length demo_jobs] = {#0, 1#}" by (simp add: demo_jobs_def upt_rec)
  with replicas_all_settled[OF all t(1)] t show ?thesis by metis
qed

text \<open>The first attempt meets an occupied token, the second succeeds; the world counts them.\<close>

definition demo_generate :: "(nat, string) act" where
  "demo_generate n = (Inr (dec n), n + 1)"

definition demo_send_upload :: "string \<Rightarrow> (nat, unit) act" where
  "demo_send_upload credential n =
     (if n = 1 then (Inl (RegistryTokenOccupiedError []), n) else (Inr (), n))"

theorem sendFile_retries_witness:
  "\<exists>n v toks. conflicted demo_generate demo_send_upload (\<lambda>_ _ _ w. w) 5 n 0 v toks \<and> n < 5 \<and>
     send_once demo_generate demo_send_upload v = (Inr (''1'', ()), 2)"
proof -
  have lim: "0 < default_to None DEFAULT_MAX_RESERVATION_ATTEMPTS"
    "default_to None DEFAULT_MAX_RESERVATION_ATTEMPTS = 5" by code_simp+
  have run: "sendFile demo_generate demo_send_upload (\<lambda>_ _ _ w. w) None 0 = (Inr (''1'', ()), 2)"
    by code_simp
  from sendFile_retries[OF lim(1) run] obtain n v toks where
    "conflicted demo_generate demo_send_upload (\<lambda>_ _ _ w. w) 5 n 0 v toks" "int n \<le> 5"
    "if int n = 5 then (Inr (''1'', ()), 2) =
        (Inl (UploadTokenReservationExhaustedError (int n) toks) :: (string \<times> unit) res, v)
     else (Inr (''1'', ()), 2) = send_once demo_generate demo_send_upload v"
    unfolding lim(2) by (metis (no_types, lifting))
  then show ?thesis by (intro exI[of _ n] exI[of _ v] exI[of _ toks]) (auto split: if_splits)
qed

theorem streamed_hashes_accepted_witness:
  "is_ok (fst (reserveAndRegisterUploadBlocks (\<lambda>_ _. areturn []) (\<lambda>_ w. w) [(''c'', [7, 8])] demo_registry
     \<lparr>uo_registry = None, uo_ttlSeconds = None,
      uo_precomputedBlockHashes = Some [\<lparr>bh_token = ''c'', bh_blockHash = ''0708''\<rparr>],
      uo_hashConcurrency = None\<rparr> ()))"
proof -
  obtain mp' where run: "prepareUploadStreamingWithHashes demo_env demo_worker_env
     (memory_file ''f'' [7, 8]) ''c'' demo_tc None (Some 0) demo_options None ([], demo_run) =
     (Inr ([(''c'', [7, 8])], demo_pool, [(''c'', [7, 8])]), mp')" using demo_hashes by blast
  show ?thesis
    by (subst streamed_hashes_accepted[OF run _ demo_drains])
      (simp_all add: demo_digest_def demo_registry_def endpointsFromRegistryMap_def abind_def)
qed

end
