(* ===== verification/Decrypt.thy ===== *)
theory Decrypt
  imports Wasm
begin

text \<open>
  \<open>session/finalize-receive-decrypt.ts\<close>: taking the decrypted file out of a receive session, either
  into one buffer of the expected length (\<open>ReceivePlaintextAccumulator\<close>) or, the deprecated way, as
  a list of parts. The session is WebAssembly and a parameter; \<open>yield\<close> is what the rest of the
  program does to the world while the loop awaits \<open>yieldToBrowser\<close>. The loop into a buffer ends for
  every session, because its overflow check bounds the chunks it accepts; the loop into parts has
  no such check and is a partial function.
\<close>

section \<open>The accumulator\<close>

definition RECEIVE_PLAINTEXT_EXPORT_CHUNK_BYTES :: int where
  "RECEIVE_PLAINTEXT_EXPORT_CHUNK_BYTES = 4 * MiB"

record accumulator =
  pa_buffer :: bytes
  pa_offset :: nat
  pa_expectedLength :: int

definition bytesWritten :: "accumulator \<Rightarrow> nat" where
  "bytesWritten acc = pa_offset acc"

text \<open>\<open>this.buffer.set(chunk, this.offset); this.offset += chunk.length\<close>, for a chunk that fits.\<close>

definition append_chunk :: "bytes \<Rightarrow> accumulator \<Rightarrow> accumulator" where
  "append_chunk chunk acc =
     acc\<lparr>pa_buffer := take (pa_offset acc) (pa_buffer acc) @ chunk @
                      drop (pa_offset acc + length chunk) (pa_buffer acc),
         pa_offset := pa_offset acc + length chunk\<rparr>"

definition overflow_error :: "nat \<Rightarrow> nat \<Rightarrow> thrown" where
  "overflow_error wrote capacity = ErrorObj (''decrypted file overflow: wrote '' @ dec wrote @
     '' bytes, buffer capacity '' @ dec capacity)"

definition after_chunk :: "('w \<Rightarrow> 'w) \<Rightarrow> nat \<Rightarrow> 'w \<Rightarrow> 'w" where
  "after_chunk yield chunkCount w = (if chunkCount mod 4 = 0 then yield w else w)"

lemma length_append_chunk:
  "pa_offset acc + length chunk \<le> length (pa_buffer acc) \<Longrightarrow>
     length (pa_buffer (append_chunk chunk acc)) = length (pa_buffer acc)"
  by (simp add: append_chunk_def)

function drain_loop ::
    "(int \<Rightarrow> ('w, bytes) act) \<Rightarrow> ('w \<Rightarrow> 'w) \<Rightarrow> nat \<Rightarrow> accumulator \<Rightarrow> 'w \<Rightarrow>
     unit res \<times> accumulator \<times> 'w" where
  "drain_loop takeChunk yield chunkCount acc w =
     (case takeChunk RECEIVE_PLAINTEXT_EXPORT_CHUNK_BYTES w of
        (Inl e, w') \<Rightarrow> (Inl e, acc, w')
      | (Inr chunk, w') \<Rightarrow>
          if chunk = [] then (Inr (), acc, w')
          else if length (pa_buffer acc) < pa_offset acc + length chunk
          then (Inl (overflow_error (pa_offset acc + length chunk) (length (pa_buffer acc))), acc, w')
          else drain_loop takeChunk yield (Suc chunkCount) (append_chunk chunk acc)
                 (after_chunk yield (Suc chunkCount) w'))"
  by pat_completeness auto
termination
  by (relation "measure (\<lambda>(t, y, k, acc, w). length (pa_buffer acc) - pa_offset acc)")
    (auto simp: append_chunk_def neq_Nil_conv)

declare drain_loop.simps [simp del]

definition drainSession ::
    "('w \<Rightarrow> 'w) \<Rightarrow> 'w receive_session \<Rightarrow> accumulator \<Rightarrow> 'w \<Rightarrow> unit res \<times> accumulator \<times> 'w" where
  "drainSession yield session acc w = (case rs_takePlaintextChunk session of
     None \<Rightarrow> (Inr (), acc, w)
   | Some takeChunk \<Rightarrow> drain_loop takeChunk yield 0 acc w)"

definition size_mismatch :: "int \<Rightarrow> int \<Rightarrow> thrown" where
  "size_mismatch got expected = ErrorObj (''decrypted file size mismatch: got '' @ dec_int got @
     '', expected '' @ dec_int expected)"

text \<open>A blob is the sequence of its bytes; lengths are numbers, so \<open>toNumber\<close> is never asked.\<close>

definition lengths_equal :: "(string \<Rightarrow> jsnum) \<Rightarrow> int \<Rightarrow> int \<Rightarrow> bool res" where
  "lengths_equal toNumber l r =
     byteLengthsEqual toNumber (NumberV (Fin (of_int l))) (NumberV (Fin (of_int r)))"

definition toBlob :: "(string \<Rightarrow> jsnum) \<Rightarrow> accumulator \<Rightarrow> bytes res" where
  "toBlob toNumber acc =
     rbind (lengths_equal toNumber (int (pa_offset acc)) (pa_expectedLength acc)) (\<lambda>same.
       throw_if (\<not> same) (size_mismatch (int (pa_offset acc)) (pa_expectedLength acc))
         (Inr (pa_buffer acc)))"

text \<open>
  \<open>alloc n\<close> is what \<open>new Uint8Array(n)\<close> throws, if the browser cannot allocate that much; the
  message is Chinese in the source.
\<close>

definition allocation_error :: "int \<Rightarrow> thrown \<Rightarrow> thrown" where
  "allocation_error n e = ErrorObj (''cannot allocate '' @ dec_int n @
     '' bytes for the decrypted file ('' @ thrown_text e @ '')'')"

definition createReceivePlaintextAccumulator ::
    "(string \<Rightarrow> jsnum) \<Rightarrow> (int \<Rightarrow> thrown option) \<Rightarrow> int \<Rightarrow> accumulator res" where
  "createReceivePlaintextAccumulator toNumber alloc expectedLength =
     rbind (toSafeByteLength toNumber (NumberV (Fin (of_int expectedLength)))
              ''expectedPlaintextLength'') (\<lambda>safe.
       case alloc safe of
         None \<Rightarrow> Inr \<lparr> pa_buffer = replicate (nat safe) 0, pa_offset = 0, pa_expectedLength = safe \<rparr>
       | Some e \<Rightarrow> Inl (allocation_error safe e))"

section \<open>The list of parts\<close>

definition copyChunk :: "bytes \<Rightarrow> bytes" where
  "copyChunk chunk = chunk"

partial_function (option) drain_parts ::
    "(int \<Rightarrow> ('w, bytes) act) \<Rightarrow> ('w \<Rightarrow> 'w) \<Rightarrow> nat \<Rightarrow> bytes list \<Rightarrow> 'w \<Rightarrow>
     (unit res \<times> bytes list \<times> 'w) option" where
  "drain_parts takeChunk yield chunkCount parts w =
     (case takeChunk RECEIVE_PLAINTEXT_EXPORT_CHUNK_BYTES w of
        (r, w') \<Rightarrow> (case r of
          Inl e \<Rightarrow> Some (Inl e, parts, w')
        | Inr chunk \<Rightarrow>
            if copyChunk chunk = [] then Some (Inr (), parts, w')
            else drain_parts takeChunk yield (Suc chunkCount) (parts @ [copyChunk chunk])
                   (after_chunk yield (Suc chunkCount) w')))"

definition drainReadyPlaintextParts ::
    "('w \<Rightarrow> 'w) \<Rightarrow> 'w receive_session \<Rightarrow> bytes list \<Rightarrow> 'w \<Rightarrow>
     (unit res \<times> bytes list \<times> 'w) option" where
  "drainReadyPlaintextParts yield session parts w = (case rs_takePlaintextChunk session of
     None \<Rightarrow> Some (Inr (), parts, w)
   | Some takeChunk \<Rightarrow> drain_parts takeChunk yield 0 parts w)"

section \<open>Finalizing\<close>

datatype sink = IntoBuffer accumulator | IntoParts "bytes list"

text \<open>The length the session announces, if it has the method and knows the length.\<close>

definition announced_length :: "'w receive_session \<Rightarrow> ('w, int option) act" where
  "announced_length session = (case rs_originalFileLength session of
     None \<Rightarrow> areturn None | Some method \<Rightarrow> method)"

definition total_length :: "bytes list \<Rightarrow> int" where
  "total_length parts = foldl (\<lambda>sum part. sum + int (length part)) 0 parts"

definition parts_to_blob :: "(string \<Rightarrow> jsnum) \<Rightarrow> bytes list \<Rightarrow> int option \<Rightarrow> bytes res" where
  "parts_to_blob toNumber parts expected = (case expected of
     None \<Rightarrow> Inr (concat parts)
   | Some n \<Rightarrow> rbind (lengths_equal toNumber (total_length parts) n) (\<lambda>same.
       throw_if (\<not> same) (size_mismatch (total_length parts) n) (Inr (concat parts))))"

text \<open>
  The two ways in: a session without \<open>completeFinalize\<close> returns the plaintext at once, any other is
  completed.
\<close>

definition finish_session :: "'w receive_session \<Rightarrow> ('w, bytes option) act" where
  "finish_session session = (case rs_completeFinalize session of
     None \<Rightarrow> abind (rs_finalize session) (\<lambda>plaintext. areturn (Some (copyChunk plaintext)))
   | Some completeFinalize \<Rightarrow> aseq completeFinalize (areturn None))"

definition finalize_buffer ::
    "(string \<Rightarrow> jsnum) \<Rightarrow> ('w \<Rightarrow> 'w) \<Rightarrow> 'w receive_session \<Rightarrow> accumulator \<Rightarrow> 'w \<Rightarrow>
     bytes res \<times> accumulator \<times> 'w" where
  "finalize_buffer toNumber yield session acc w = (case finish_session session w of
     (Inl e, w') \<Rightarrow> (Inl e, acc, w')
   | (Inr (Some plaintext), w') \<Rightarrow> (Inr plaintext, acc, w')
   | (Inr None, w') \<Rightarrow> (case drainSession yield session acc w' of
       (Inl e, acc', w'') \<Rightarrow> (Inl e, acc', w'')
     | (Inr _, acc', w'') \<Rightarrow> (toBlob toNumber acc', acc', w'')))"

definition finalize_parts ::
    "(string \<Rightarrow> jsnum) \<Rightarrow> ('w \<Rightarrow> 'w) \<Rightarrow> 'w receive_session \<Rightarrow> bytes list \<Rightarrow> 'w \<Rightarrow>
     (bytes res \<times> bytes list \<times> 'w) option" where
  "finalize_parts toNumber yield session parts w = (case finish_session session w of
     (Inl e, w') \<Rightarrow> Some (Inl e, parts, w')
   | (Inr (Some plaintext), w') \<Rightarrow> Some (Inr plaintext, parts, w')
   | (Inr None, w') \<Rightarrow> (case drainReadyPlaintextParts yield session parts w' of
       None \<Rightarrow> None
     | Some (Inl e, parts', w'') \<Rightarrow> Some (Inl e, parts', w'')
     | Some (Inr _, parts', w'') \<Rightarrow> (case announced_length session w'' of
         (Inl e, w3) \<Rightarrow> Some (Inl e, parts', w3)
       | (Inr expected, w3) \<Rightarrow> Some (parts_to_blob toNumber parts' expected, parts', w3))))"

text \<open>
  The blob or the error, the sink as the caller sees it afterwards, and the world; \<open>None\<close> if the
  loop into parts never ends.
\<close>

definition finalizeReceiveDecryptToBlob ::
    "(string \<Rightarrow> jsnum) \<Rightarrow> ('w \<Rightarrow> 'w) \<Rightarrow> 'w receive_session \<Rightarrow> sink \<Rightarrow> 'w \<Rightarrow>
     (bytes res \<times> sink \<times> 'w) option" where
  "finalizeReceiveDecryptToBlob toNumber yield session sink w = (case sink of
     IntoBuffer acc \<Rightarrow> (case finalize_buffer toNumber yield session acc w of
       (r, acc', w') \<Rightarrow> Some (r, IntoBuffer acc', w'))
   | IntoParts parts \<Rightarrow> (case finalize_parts toNumber yield session parts w of
       None \<Rightarrow> None
     | Some (r, parts', w') \<Rightarrow> Some (r, IntoParts parts', w')))"

section \<open>What a session yields\<close>

text \<open>
  \<open>yields takeChunk yield k w cs w'\<close>: from the world \<open>w\<close>, the calls of the loop get the non-empty
  chunks \<open>cs\<close> and then an empty one, which leaves \<open>w'\<close>.
\<close>

inductive yields ::
    "(int \<Rightarrow> ('w, bytes) act) \<Rightarrow> ('w \<Rightarrow> 'w) \<Rightarrow> nat \<Rightarrow> 'w \<Rightarrow> bytes list \<Rightarrow> 'w \<Rightarrow> bool"
  for takeChunk :: "int \<Rightarrow> ('w, bytes) act" and yield :: "'w \<Rightarrow> 'w" where
  finished: "takeChunk RECEIVE_PLAINTEXT_EXPORT_CHUNK_BYTES w = (Inr [], w') \<Longrightarrow>
    yields takeChunk yield k w [] w'"
| another: "takeChunk RECEIVE_PLAINTEXT_EXPORT_CHUNK_BYTES w = (Inr c, w') \<Longrightarrow> c \<noteq> [] \<Longrightarrow>
    yields takeChunk yield (Suc k) (after_chunk yield (Suc k) w') cs w'' \<Longrightarrow>
    yields takeChunk yield k w (c # cs) w''"

text \<open>An accumulator between two operations: its buffer has the expected length.\<close>

definition accumulator_ok :: "accumulator \<Rightarrow> bool" where
  "accumulator_ok acc \<longleftrightarrow> pa_offset acc \<le> length (pa_buffer acc) \<and>
     int (length (pa_buffer acc)) = pa_expectedLength acc \<and> pa_expectedLength acc \<le> max_safe_integer"

definition written :: "accumulator \<Rightarrow> bytes" where
  "written acc = take (pa_offset acc) (pa_buffer acc)"

lemma append_chunk_ok:
  assumes "accumulator_ok acc" "pa_offset acc + length chunk \<le> length (pa_buffer acc)"
  shows "accumulator_ok (append_chunk chunk acc)" "written (append_chunk chunk acc) = written acc @ chunk"
    "pa_offset (append_chunk chunk acc) = pa_offset acc + length chunk"
    "pa_expectedLength (append_chunk chunk acc) = pa_expectedLength acc"
    "length (pa_buffer (append_chunk chunk acc)) = length (pa_buffer acc)"
  using assms by (simp_all add: accumulator_ok_def append_chunk_def written_def)

lemma create_accumulator_ok:
  "createReceivePlaintextAccumulator toNumber alloc n = Inr acc \<Longrightarrow>
     accumulator_ok acc \<and> pa_expectedLength acc = n \<and> written acc = [] \<and> 0 \<le> n"
  by (auto simp: createReceivePlaintextAccumulator_def rbind_Inr_iff toSafeByteLength_def
      toSafeByteLength_number_ok accumulator_ok_def written_def
      simp del: toSafeByteLength_number.simps split: option.splits)

lemma lengths_equal_ok [simp]:
  "0 \<le> l \<Longrightarrow> l \<le> max_safe_integer \<Longrightarrow> 0 \<le> r \<Longrightarrow> r \<le> max_safe_integer \<Longrightarrow>
     lengths_equal toNumber l r = Inr (l = r)"
  by (simp add: lengths_equal_def byteLengthsEqual_def toSafeByteLength_def
      toSafeByteLength_number_ok [THEN iffD2] del: toSafeByteLength_number.simps)

lemma lengths_equal_sound: "lengths_equal toNumber l r = Inr b \<Longrightarrow> b = (l = r)"
  by (auto simp: lengths_equal_def byteLengthsEqual_def toSafeByteLength_def rbind_Inr_iff
      toSafeByteLength_number_ok simp del: toSafeByteLength_number.simps)

lemma toBlob_ok:
  assumes "accumulator_ok acc"
  shows "toBlob toNumber acc = (if pa_offset acc = length (pa_buffer acc) then Inr (written acc)
     else Inl (size_mismatch (int (pa_offset acc)) (pa_expectedLength acc)))"
proof -
  have "lengths_equal toNumber (int (pa_offset acc)) (pa_expectedLength acc) =
      Inr (int (pa_offset acc) = pa_expectedLength acc)"
    using assms by (intro lengths_equal_ok) (auto simp: accumulator_ok_def)
  then show ?thesis
    using assms by (auto simp: toBlob_def accumulator_ok_def written_def)
qed

text \<open>Draining a session that yields \<open>cs\<close>: everything fits, or the overflow is reported.\<close>

lemma drain_loop_fits:
  assumes "yields takeChunk yield k w cs w'" "accumulator_ok acc"
    "pa_offset acc + length (concat cs) \<le> length (pa_buffer acc)"
  shows "\<exists>acc'. drain_loop takeChunk yield k acc w = (Inr (), acc', w') \<and> accumulator_ok acc' \<and>
    written acc' = written acc @ concat cs \<and> pa_offset acc' = pa_offset acc + length (concat cs) \<and>
    pa_expectedLength acc' = pa_expectedLength acc \<and> length (pa_buffer acc') = length (pa_buffer acc)"
  using assms
proof (induction arbitrary: acc rule: yields.induct)
  case (finished w w' k)
  then show ?case by (subst drain_loop.simps) simp
next
  case (another w c w' k cs w'')
  have fits: "pa_offset acc + length c \<le> length (pa_buffer acc)" using another.prems(2) by simp
  note step = append_chunk_ok [OF another.prems(1) fits]
  have "pa_offset (append_chunk c acc) + length (concat cs) \<le> length (pa_buffer (append_chunk c acc))"
    using another.prems(2) step by simp
  from another.IH [OF step(1) this] show ?case
    using another.hyps fits step by (subst drain_loop.simps) auto
qed

lemma drain_loop_overflows:
  assumes "yields takeChunk yield k w cs w'" "accumulator_ok acc"
    "length (pa_buffer acc) < pa_offset acc + length (concat cs)"
  shows "\<exists>n acc' w1. drain_loop takeChunk yield k acc w =
    (Inl (overflow_error n (length (pa_buffer acc))), acc', w1) \<and> length (pa_buffer acc) < n"
  using assms
proof (induction arbitrary: acc rule: yields.induct)
  case (finished w w' k)
  then show ?case by (simp add: accumulator_ok_def)
next
  case (another w c w' k cs w'')
  show ?case
  proof (cases "pa_offset acc + length c \<le> length (pa_buffer acc)")
    case True
    note step = append_chunk_ok [OF another.prems(1) True]
    have "length (pa_buffer (append_chunk c acc)) < pa_offset (append_chunk c acc) + length (concat cs)"
      using another.prems(2) step by simp
    from another.IH [OF step(1) this] show ?thesis
      using another.hyps True step by (subst drain_loop.simps) auto
  qed (use another.hyps in \<open>subst drain_loop.simps, auto\<close>)
qed

lemma drain_loop_ok:
  "accumulator_ok acc \<Longrightarrow> drain_loop takeChunk yield k acc w = (r, acc', w') \<Longrightarrow>
     accumulator_ok acc' \<and> pa_expectedLength acc' = pa_expectedLength acc"
proof (induction takeChunk yield k acc w rule: drain_loop.induct)
  case (1 takeChunk yield k acc w)
  obtain t w1 where t: "takeChunk RECEIVE_PLAINTEXT_EXPORT_CHUNK_BYTES w = (t, w1)" by fastforce
  show ?case
  proof (cases t)
    case (Inl e)
    with 1 t show ?thesis by (simp add: drain_loop.simps [of takeChunk])
  next
    case (Inr c)
    consider "c = [] \<or> length (pa_buffer acc) < pa_offset acc + length c"
      | "c \<noteq> []" "pa_offset acc + length c \<le> length (pa_buffer acc)" by linarith
    then show ?thesis
    proof cases
      case 1
      with "1.prems" t Inr show ?thesis
        by (auto simp: drain_loop.simps [of takeChunk] split: if_splits)
    next
      case 2
      have "drain_loop takeChunk yield (Suc k) (append_chunk c acc) (after_chunk yield (Suc k) w1) = (r, acc', w')"
        using "1.prems"(2) t Inr 2 by (subst (asm) drain_loop.simps) simp
      from "1.IH" [OF t [symmetric, unfolded Inr] refl 2(1) _ _ this]
        append_chunk_ok [OF "1.prems"(1) 2(2)] 2 show ?thesis by (simp add: Inr)
    qed
  qed
qed

text \<open>Whatever the calls and the waits keep, the loop keeps.\<close>

lemma drain_loop_keeps:
  assumes take: "\<And>w r w'. P w \<Longrightarrow> takeChunk RECEIVE_PLAINTEXT_EXPORT_CHUNK_BYTES w = (r, w') \<Longrightarrow> P w'"
    and wait: "\<And>w. P w \<Longrightarrow> P (yield w)"
  shows "P w \<Longrightarrow> drain_loop takeChunk yield k acc w = (r, acc', w') \<Longrightarrow> P w'"
  using take wait
proof (induction takeChunk yield k acc w rule: drain_loop.induct)
  case (1 takeChunk yield k acc w)
  obtain c w1 where c: "takeChunk RECEIVE_PLAINTEXT_EXPORT_CHUNK_BYTES w = (c, w1)" by fastforce
  have w1: "P w1" by (rule "1.prems"(3) [OF "1.prems"(1) c])
  then have w2: "P (after_chunk yield (Suc k) w1)" using "1.prems"(4) by (simp add: after_chunk_def)
  show ?case
  proof (cases c)
    case (Inl e)
    with "1.prems"(2) c w1 show ?thesis by (subst (asm) drain_loop.simps) simp
  next
    case (Inr chunk)
    consider "chunk = [] \<or> length (pa_buffer acc) < pa_offset acc + length chunk"
      | "chunk \<noteq> []" "\<not> length (pa_buffer acc) < pa_offset acc + length chunk" by blast
    then show ?thesis
    proof cases
      case 1
      with "1.prems"(2) c Inr w1 show ?thesis by (subst (asm) drain_loop.simps) (auto split: if_splits)
    next
      case 2
      then have "drain_loop takeChunk yield (Suc k) (append_chunk chunk acc)
          (after_chunk yield (Suc k) w1) = (r, acc', w')"
        using "1.prems"(2) c Inr by (subst (asm) drain_loop.simps) simp
      from "1.IH" [OF c [symmetric] Inr 2 w2 this "1.prems"(3,4)] show ?thesis .
    qed
  qed
qed

lemma drain_parts_yields:
  assumes "yields takeChunk yield k w cs w'"
  shows "drain_parts takeChunk yield k parts w = Some (Inr (), parts @ cs, w')"
  using assms
proof (induction arbitrary: parts rule: yields.induct)
  case (finished w w' k)
  then show ?case by (subst drain_parts.simps) (simp add: copyChunk_def)
next
  case (another w c w' k cs w'')
  from another.IH [of "parts @ [c]"] show ?case
    using another.hyps by (subst drain_parts.simps) (simp add: copyChunk_def)
qed

lemma total_length_concat: "total_length parts = int (length (concat parts))"
proof -
  have "foldl (\<lambda>sum part. sum + int (length part)) n parts = n + int (length (concat parts))" for n
    by (induction parts arbitrary: n) simp_all
  then show ?thesis by (simp add: total_length_def)
qed

section \<open>Properties\<close>

text \<open>C22. Both ways of taking the decrypted file agree: for a session that, once complete, yields the
  chunks \<open>cs\<close> and announces the length \<open>n\<close>, draining into a fresh buffer of \<open>n\<close> bytes and
  collecting parts both end; both give the concatenation of the chunks if it has \<open>n\<close> bytes, and both
  throw otherwise, too many and too few bytes alike.\<close>

theorem blob_sinks_agree:
  assumes "rs_completeFinalize session = Some completeFinalize" "completeFinalize w = (Inr (), w0)"
    and "rs_takePlaintextChunk session = Some takeChunk" "yields takeChunk yield 0 w0 cs w1"
    and "announced_length session w1 = (Inr (Some n), w2)"
    and "createReceivePlaintextAccumulator toNumber alloc n = Inr acc"
  shows "\<exists>r1 acc1 w1' r2.
    finalizeReceiveDecryptToBlob toNumber yield session (IntoBuffer acc) w = Some (r1, IntoBuffer acc1, w1') \<and>
    finalizeReceiveDecryptToBlob toNumber yield session (IntoParts []) w = Some (r2, IntoParts cs, w2) \<and>
    (if int (length (concat cs)) = n then r1 = Inr (concat cs) \<and> r2 = Inr (concat cs)
     else \<not> is_ok r1 \<and> \<not> is_ok r2)"
proof -
  note acc = create_accumulator_ok [OF assms(6)]
  then have cap: "int (length (pa_buffer acc)) = n" "pa_offset acc = 0" "n \<le> max_safe_integer"
    using assms(6) by (auto simp: accumulator_ok_def createReceivePlaintextAccumulator_def rbind_Inr_iff
        split: option.splits)
  have parts: "finalizeReceiveDecryptToBlob toNumber yield session (IntoParts []) w =
      Some (parts_to_blob toNumber cs (Some n), IntoParts cs, w2)"
    using assms(1-5) drain_parts_yields [OF assms(4), of "[]"]
    by (simp add: finalizeReceiveDecryptToBlob_def finalize_parts_def finish_session_def
        drainReadyPlaintextParts_def)
  have blob: "if int (length (concat cs)) = n then parts_to_blob toNumber cs (Some n) = Inr (concat cs)
      else \<not> is_ok (parts_to_blob toNumber cs (Some n))"
    using acc cap(3) lengths_equal_sound [of toNumber "total_length cs" n]
    by (cases "lengths_equal toNumber (total_length cs) n")
      (auto simp: parts_to_blob_def total_length_concat)
  show ?thesis
  proof (cases "length (concat cs) \<le> length (pa_buffer acc)")
    case True
    with drain_loop_fits [OF assms(4), of acc] acc cap obtain acc1 where acc1:
      "drain_loop takeChunk yield 0 acc w0 = (Inr (), acc1, w1)" "accumulator_ok acc1"
      "written acc1 = concat cs" "pa_offset acc1 = length (concat cs)" "pa_expectedLength acc1 = n"
      "length (pa_buffer acc1) = length (pa_buffer acc)"
      by auto
    then have "finalizeReceiveDecryptToBlob toNumber yield session (IntoBuffer acc) w =
        Some (toBlob toNumber acc1, IntoBuffer acc1, w1)"
      using assms(1-3) by (simp add: finalizeReceiveDecryptToBlob_def finalize_buffer_def finish_session_def
          drainSession_def)
    with parts blob cap acc1 toBlob_ok [OF acc1(2), of toNumber] show ?thesis
      by (intro exI [of _ "toBlob toNumber acc1"] exI [of _ acc1] exI [of _ w1]
          exI [of _ "parts_to_blob toNumber cs (Some n)"]) auto
  next
    case False
    with drain_loop_overflows [OF assms(4), of acc] acc cap obtain k acc1 w1' where
      "drain_loop takeChunk yield 0 acc w0 = (Inl (overflow_error k (length (pa_buffer acc))), acc1, w1')"
      by auto
    then have "finalizeReceiveDecryptToBlob toNumber yield session (IntoBuffer acc) w =
        Some (Inl (overflow_error k (length (pa_buffer acc))), IntoBuffer acc1, w1')"
      using assms(1-3) by (simp add: finalizeReceiveDecryptToBlob_def finalize_buffer_def finish_session_def
          drainSession_def)
    with parts blob cap False show ?thesis
      by (intro exI [of _ "Inl (overflow_error k (length (pa_buffer acc)))"] exI [of _ acc1]
          exI [of _ w1'] exI [of _ "parts_to_blob toNumber cs (Some n)"]) auto
  qed
qed

text \<open>A session over the list of chunks it still has to give.\<close>

definition list_session :: "int option \<Rightarrow> bytes list receive_session" where
  "list_session n = \<lparr> rs_addWireToken = (\<lambda>_ _. areturn ()), rs_finalize = (\<lambda>s. (Inr (concat s), [])),
     rs_completeFinalize = Some (areturn ()),
     rs_takePlaintextChunk = Some (\<lambda>_ s. case s of [] \<Rightarrow> (Inr [], []) | c # cs \<Rightarrow> (Inr c, cs)),
     rs_paddedPlaintextLength = None, rs_originalFileLength = Some (areturn n) \<rparr>"

lemma blob_sinks_agree_witness:
  "\<exists>acc1 w1 w2. finalizeReceiveDecryptToBlob (\<lambda>_. NaN) id (list_session (Some 3))
       (IntoBuffer \<lparr>pa_buffer = [0, 0, 0], pa_offset = 0, pa_expectedLength = 3\<rparr>) [[1, 2], [3]] =
       Some (Inr [1, 2, 3], IntoBuffer acc1, w1) \<and>
     finalizeReceiveDecryptToBlob (\<lambda>_. NaN) id (list_session (Some 3)) (IntoParts []) [[1, 2], [3]] =
       Some (Inr [1, 2, 3], IntoParts [[1, 2], [3]], w2)"
proof -
  let ?take = "the (rs_takePlaintextChunk (list_session (Some 3)))"
  have y: "yields ?take id 0 [[1, 2], [3]] [[1, 2], [3]] []"
    by (rule yields.another [of _ _ _ "[[3]]"], simp add: list_session_def, simp,
        rule yields.another [of _ _ _ "[]"], simp add: list_session_def after_chunk_def, simp,
        rule yields.finished, simp add: list_session_def after_chunk_def)
  have "createReceivePlaintextAccumulator (\<lambda>_. NaN) (\<lambda>_. None) 3 =
      Inr \<lparr>pa_buffer = [0, 0, 0], pa_offset = 0, pa_expectedLength = 3\<rparr>"
    using toSafeByteLength_number_ok [of "Fin 3" _ 3]
    by (simp add: createReceivePlaintextAccumulator_def toSafeByteLength_def max_safe_integer_def
        eval_nat_numeral del: toSafeByteLength_number.simps)
  from blob_sinks_agree [OF _ _ _ y _ this, of "list_session (Some 3)" "areturn ()" "[[1, 2], [3]]" "[]"]
  show ?thesis by (force simp: list_session_def announced_length_def)
qed

end
