(* ===== verification/Download.thy ===== *)
theory Download
  imports Decrypt Receive Prefetch
begin

text \<open>
  \<open>session/download-session.ts\<close>, \<open>download-status.ts\<close> and \<open>client/app/src/download/receive-file.ts\<close>:
  the adaptive download over any transport. A transport is a \<open>receive_port\<close>: its operations act on
  its own state, whatever else it does meanwhile included, and its log of activities is what its
  listener is called with. The world of a download is the memory of the WebAssembly module, the state
  of the transport and the \<open>tracker\<close>, which holds the locals that \<open>reportStatus\<close> and the listener
  update and the statuses reported so far. Activities are handed to the listener after the
  operation that emitted them; they carry the counts read at their emission, so only their order
  matters. A callback that throws is not modelled.
\<close>

section \<open>Status updates\<close>

datatype download_status =
    ResolvingInitial int int int
  | ResolvingWindow int int int
  | AwaitingMetadataBlock "int option" "int option" "int option"
  | WaitingMetadataBlock wait_reason int
  | ParsingMetadata
  | Downloading int int "int option" "int option" "int option"
  | Decrypting int

section \<open>The transport\<close>

text \<open>
  \<open>ReceiveTransport\<close>; \<open>po_fetch\<close> are the further methods of a \<open>FetchReceiveTransport\<close>, and \<open>po_idle\<close>
  is what happens in the transport while the download awaits something else.
\<close>

record 'p fetch_methods =
  fx_received :: "'p \<Rightarrow> int"
  fx_setExpected :: "int \<Rightarrow> 'p \<Rightarrow> 'p"
  fx_setListener :: "bool \<Rightarrow> 'p \<Rightarrow> 'p"
  fx_log :: "'p \<Rightarrow> (activity \<times> int \<times> int) list"

record 'p receive_port =
  po_startConcurrentGet :: "string list \<Rightarrow> ('p, unit) act"
  po_cancelPending :: "string list \<Rightarrow> 'p \<Rightarrow> 'p"
  po_get :: "string \<Rightarrow> ('p, bytes) act"
  po_inFlightCount :: "('p \<Rightarrow> int) option"
  po_fetch :: "'p fetch_methods option"
  po_idle :: "'p \<Rightarrow> 'p"

definition transportInFlight :: "'p receive_port \<Rightarrow> 'p \<Rightarrow> int" where
  "transportInFlight port p = (case po_inFlightCount port of None \<Rightarrow> 0 | Some count1 \<Rightarrow> count1 p)"

definition transportReceivedNotConsumedBytes :: "'p receive_port \<Rightarrow> 'p \<Rightarrow> int" where
  "transportReceivedNotConsumedBytes port p = (case po_fetch port of
     None \<Rightarrow> 0 | Some fx \<Rightarrow> fx_received fx p)"

definition downloadingStatus :: "'p receive_port \<Rightarrow> 'p \<Rightarrow> int \<Rightarrow> int \<Rightarrow> int \<Rightarrow> download_status" where
  "downloadingStatus port p completed totalCount blockSize =
     (let bytesTotal = (if 0 < blockSize \<and> 0 < totalCount then Some (blockSize * totalCount) else None);
          transferred = (case bytesTotal of
              None \<Rightarrow> None
            | Some n \<Rightarrow> Some (min n (completed * blockSize + transportReceivedNotConsumedBytes port p)))
      in Downloading completed totalCount (Some (transportInFlight port p)) transferred bytesTotal)"

section \<open>Activities and reports\<close>

text \<open>\<open>DownloadActivityContext\<close>\<close>

record download_context =
  dc_smbParsed :: bool
  dc_totalTokens :: int
  dc_completed :: int
  dc_wireBlockSize :: int
  dc_prefetchCount :: int
  dc_prefetchBytesCeiling :: int

definition downloadTransferBytes :: "download_context \<Rightarrow> int \<Rightarrow> int option \<times> int option" where
  "downloadTransferBytes context received =
     (if \<not> dc_smbParsed context \<or> dc_totalTokens context \<le> 0 \<or> dc_wireBlockSize context \<le> 0
      then (None, None)
      else let bytesTotal = dc_wireBlockSize context * dc_totalTokens context
           in (Some (min bytesTotal (dc_completed context * dc_wireBlockSize context + received)),
               Some bytesTotal))"

definition prefetchAwaitingStatus :: "download_context \<Rightarrow> int \<Rightarrow> int \<Rightarrow> download_status" where
  "prefetchAwaitingStatus context inFlight received =
     AwaitingMetadataBlock (Some (max (max (dc_prefetchCount context) inFlight) 1)) (Some received)
       (Some (dc_prefetchBytesCeiling context))"

definition activity_downloading :: "download_context \<Rightarrow> int \<Rightarrow> int \<Rightarrow> download_status option" where
  "activity_downloading context inFlight received =
     (if \<not> dc_smbParsed context then Some (prefetchAwaitingStatus context inFlight received)
      else if dc_totalTokens context \<le> 0 then None
      else let (transferred, bytesTotal) = downloadTransferBytes context received
           in Some (Downloading (dc_completed context) (dc_totalTokens context) (Some inFlight)
                transferred bytesTotal))"

definition mapTransportActivityToStatus ::
    "activity \<Rightarrow> string \<Rightarrow> download_context \<Rightarrow> int \<Rightarrow> int \<Rightarrow> download_status option" where
  "mapTransportActivityToStatus activity token0 context inFlight received = (case activity of
     Resolving tokenCount \<Rightarrow>
       if \<not> dc_smbParsed context \<or> 0 < dc_completed context then None
       else Some (ResolvingWindow 0 tokenCount (dc_totalTokens context))
   | DownloadStarted _ \<Rightarrow> activity_downloading context inFlight received
   | DownloadByteProgress _ _ receivedBytes \<Rightarrow> activity_downloading context inFlight receivedBytes
   | Waiting token reason attempt \<Rightarrow>
       if token \<noteq> token0 then None else Some (WaitingMetadataBlock reason attempt))"

text \<open>
  \<open>tk_seen\<close> counts the activities of the transport's log that are dealt with.
\<close>

record tracker =
  tk_context :: download_context
  tk_transferHigh :: int
  tk_prefetchHigh :: int
  tk_onStatus :: bool
  tk_listening :: bool
  tk_seen :: nat
  tk_reports :: "download_status list"

definition emit_status1 :: "download_status \<Rightarrow> tracker \<Rightarrow> tracker" where
  "emit_status1 status t =
     (if tk_onStatus t then t\<lparr>tk_reports := tk_reports t @ [status]\<rparr> else t)"

definition reportStatus :: "download_status \<Rightarrow> tracker \<Rightarrow> tracker" where
  "reportStatus status t = (case status of
     AwaitingMetadataBlock count1 received ceiling1 \<Rightarrow>
       let t1 = t\<lparr>tk_prefetchHigh := max (tk_prefetchHigh t) (default_to received 0)\<rparr>
       in emit_status1 (AwaitingMetadataBlock
            (Some (max (default_to count1 0) (dc_prefetchCount (tk_context t))))
            (Some (tk_prefetchHigh t1))
            (Some (default_to ceiling1 (dc_prefetchBytesCeiling (tk_context t))))) t1
   | Downloading completed totalCount inFlight transferred bytesTotal \<Rightarrow>
       let t1 = t\<lparr>tk_context := (tk_context t)\<lparr>dc_completed := completed\<rparr>\<rparr>
       in (case (transferred, bytesTotal) of
             (Some n, Some whole) \<Rightarrow>
               let t2 = t1\<lparr>tk_transferHigh := max (tk_transferHigh t1) n\<rparr>
               in emit_status1 (Downloading completed totalCount inFlight
                    (Some (min whole (tk_transferHigh t2))) bytesTotal) t2
           | _ \<Rightarrow> emit_status1 status t1)
   | _ \<Rightarrow> emit_status1 status t)"

definition on_activity :: "string \<Rightarrow> activity \<times> int \<times> int \<Rightarrow> tracker \<Rightarrow> tracker" where
  "on_activity token0 ev t = (case ev of (activity, inFlight, received) \<Rightarrow>
     (case mapTransportActivityToStatus activity token0 (tk_context t) inFlight received of
        None \<Rightarrow> t
      | Some status \<Rightarrow> reportStatus status t))"

text \<open>The listener handles the activities that the transport emitted since it last did.\<close>

definition deliver :: "'p receive_port \<Rightarrow> string \<Rightarrow> 'p \<Rightarrow> tracker \<Rightarrow> tracker" where
  "deliver port token0 p t = (case po_fetch port of
     None \<Rightarrow> t
   | Some fx \<Rightarrow>
       (if tk_listening t then fold (on_activity token0) (drop (tk_seen t) (fx_log fx p)) t else t)
         \<lparr>tk_seen := length (fx_log fx p)\<rparr>)"

definition attachDownloadActivityListener :: "'p receive_port \<Rightarrow> 'p \<times> tracker \<Rightarrow> 'p \<times> tracker" where
  "attachDownloadActivityListener port w = (case w of (p, t) \<Rightarrow> (case po_fetch port of
     None \<Rightarrow> (p, t)
   | Some fx \<Rightarrow>
       if tk_onStatus t
       then (fx_setListener fx True p, t\<lparr>tk_listening := True, tk_seen := length (fx_log fx p)\<rparr>)
       else (p, t)))"

definition detach_listener :: "'p receive_port \<Rightarrow> 'p \<times> tracker \<Rightarrow> 'p \<times> tracker" where
  "detach_listener port w = (case w of (p, t) \<Rightarrow> (case po_fetch port of
     None \<Rightarrow> (p, t)
   | Some fx \<Rightarrow>
       if tk_listening t then (fx_setListener fx False p, t\<lparr>tk_listening := False\<rparr>) else (p, t)))"

section \<open>Steps of a download\<close>

type_synonym ('m, 'p) download_world = "'m \<times> 'p \<times> tracker"

text \<open>\<open>dd_alloc\<close> is the failure of an allocation, as in the accumulator.\<close>

record ('m, 'p) download_deps =
  dd_env :: runtime_env
  dd_toNumber :: "string \<Rightarrow> jsnum"
  dd_alloc :: "int \<Rightarrow> thrown option"
  dd_twelveC :: "'m twelve_c"
  dd_port :: "'p receive_port"

definition on_port ::
    "'p receive_port \<Rightarrow> string \<Rightarrow> ('p, 'a) act \<Rightarrow> (('m, 'p) download_world, 'a) act" where
  "on_port port token0 f w = (case w of (m, p, t) \<Rightarrow> (case f p of
     (r, p') \<Rightarrow> (r, (m, p', deliver port token0 p' t))))"

definition report :: "download_status \<Rightarrow> (('m, 'p) download_world, unit) act" where
  "report status = amodify (\<lambda>(m, p, t). (m, p, reportStatus status t))"

definition report_downloading ::
    "'p receive_port \<Rightarrow> int \<Rightarrow> int \<Rightarrow> int \<Rightarrow> (('m, 'p) download_world, unit) act" where
  "report_downloading port completed totalCount blockSize =
     amodify (\<lambda>(m, p, t). (m, p, reportStatus (downloadingStatus port p completed totalCount blockSize) t))"

definition idle_world :: "'p receive_port \<Rightarrow> string \<Rightarrow> ('m, 'p) download_world \<Rightarrow> ('m, 'p) download_world" where
  "idle_world port token0 w = (case w of (m, p, t) \<Rightarrow>
     (m, po_idle port p, deliver port token0 (po_idle port p) t))"

definition yieldToBrowser :: "'p receive_port \<Rightarrow> string \<Rightarrow> (('m, 'p) download_world, unit) act" where
  "yieldToBrowser port token0 = amodify (idle_world port token0)"

definition set_expected :: "'p receive_port \<Rightarrow> string \<Rightarrow> int \<Rightarrow> (('m, 'p) download_world, unit) act" where
  "set_expected port token0 n = (case po_fetch port of
     None \<Rightarrow> areturn ()
   | Some fx \<Rightarrow> on_port port token0 (amodify (fx_setExpected fx n)))"

definition assertWireBlockSize :: "string \<Rightarrow> bytes \<Rightarrow> int \<Rightarrow> bytes res" where
  "assertWireBlockSize token data expectedSize =
     throw_if (int (length data) \<noteq> expectedSize)
       (ErrorObj (''download block size mismatch for token '' @ token @ '': got '' @
          dec (length data) @ '' bytes, expected '' @ dec_int expectedSize)) (Inr data)"

definition prefetchIndexRange ::
    "('m, 'p) download_deps \<Rightarrow> string \<Rightarrow> string \<Rightarrow> int \<Rightarrow> int \<Rightarrow> (('m, 'p) download_world, unit) act" where
  "prefetchIndexRange dd token0 search fromInclusive toExclusive =
     (if toExclusive \<le> fromInclusive then areturn ()
      else abind (alift (deriveIndexTokens (tc_deriveUploadToken (dd_twelveC dd)) search
                    fromInclusive toExclusive))
             (\<lambda>tokens. on_port (dd_port dd) token0 (po_startConcurrentGet (dd_port dd) tokens)))"

definition cancelIndexRange ::
    "('m, 'p) download_deps \<Rightarrow> string \<Rightarrow> string \<Rightarrow> int \<Rightarrow> int \<Rightarrow> (('m, 'p) download_world, unit) act" where
  "cancelIndexRange dd token0 search fromInclusive toExclusive =
     (if toExclusive \<le> fromInclusive then areturn ()
      else abind (alift (deriveIndexTokens (tc_deriveUploadToken (dd_twelveC dd)) search
                    fromInclusive toExclusive))
             (\<lambda>tokens. on_port (dd_port dd) token0 (amodify (po_cancelPending (dd_port dd) tokens))))"

definition cloneWireBlock :: "bytes \<Rightarrow> bytes" where
  "cloneWireBlock data = data"

section \<open>Large files\<close>

text \<open>A session of the module as the download drives it: it only touches the module's memory.\<close>

definition lift_session :: "'m receive_session \<Rightarrow> ('m \<times> 'd) receive_session" where
  "lift_session s =
     \<lparr> rs_addWireToken = (\<lambda>i data. on_memory (rs_addWireToken s i data)),
       rs_finalize = on_memory (rs_finalize s),
       rs_completeFinalize = map_option on_memory (rs_completeFinalize s),
       rs_takePlaintextChunk = map_option (\<lambda>takeChunk n. on_memory (takeChunk n)) (rs_takePlaintextChunk s),
       rs_paddedPlaintextLength = map_option on_memory (rs_paddedPlaintextLength s),
       rs_originalFileLength = map_option on_memory (rs_originalFileLength s) \<rparr>"

text \<open>The hint appended to the message is Chinese in the source.\<close>

definition outdated_session :: "thrown \<Rightarrow> ('w, 'a) act" where
  "outdated_session error =
     (if \<not> str_includes (thrown_text error) ''ReceiveDecryptSession'' then athrow error
      else athrow (ErrorObj (thrown_text error @
             '' Run client/build.ps1 -ForceWasm, reload the page and try again.'')))"

text \<open>\<open>await plaintext.drainSession(session)\<close> and the final blob, with the accumulator as a local.\<close>

definition drain_into ::
    "('w \<Rightarrow> 'w) \<Rightarrow> 'w receive_session \<Rightarrow> accumulator \<Rightarrow> ('w, accumulator) act" where
  "drain_into yield session acc w = (case drainSession yield session acc w of
     (Inl e, _, w') \<Rightarrow> (Inl e, w') | (Inr _, acc', w') \<Rightarrow> (Inr acc', w'))"

definition blob_from ::
    "(string \<Rightarrow> jsnum) \<Rightarrow> ('w \<Rightarrow> 'w) \<Rightarrow> 'w receive_session \<Rightarrow> accumulator \<Rightarrow> ('w, bytes) act" where
  "blob_from toNumber yield session acc w = (case finalize_buffer toNumber yield session acc w of
     (r, _, w') \<Rightarrow> (r, w'))"

text \<open>The body of the loop over the blocks after the first.\<close>

definition large_block ::
    "('m, 'p) download_deps \<Rightarrow> string \<Rightarrow> string \<Rightarrow> int \<Rightarrow> int \<Rightarrow> int \<Rightarrow>
     ('m, 'p) download_world receive_session \<Rightarrow> int \<Rightarrow> accumulator \<Rightarrow>
     (('m, 'p) download_world, accumulator) act" where
  "large_block dd token0 search blockSize totalTokens concurrentM session tokenIndex acc =
     (let port = dd_port dd;
          windowEnd = min totalTokens (tokenIndex + concurrentM);
          token = tc_deriveUploadToken (dd_twelveC dd) search tokenIndex in
      aseq (report (ResolvingWindow (tokenIndex + 1) windowEnd totalTokens))
     (aseq (yieldToBrowser port token0)
     (aseq (prefetchIndexRange dd token0 search (tokenIndex + 1) windowEnd)
     (aseq (report_downloading port tokenIndex totalTokens blockSize)
     (abind (on_port port token0 (po_get port token)) (\<lambda>data.
      abind (alift (assertWireBlockSize token (cloneWireBlock data) blockSize)) (\<lambda>wire.
      aseq (rs_addWireToken session tokenIndex wire)
     (abind (drain_into (idle_world port token0) session acc) (\<lambda>acc'.
      aseq (report_downloading port (tokenIndex + 1) totalTokens blockSize)
     (aseq (if tokenIndex mod 4 = 0 then yieldToBrowser port token0 else areturn ())
      (areturn acc')))))))))))"

definition decryptDownloadedLargeFile ::
    "('m, 'p) download_deps \<Rightarrow> string \<Rightarrow> string \<Rightarrow> string \<Rightarrow> bytes \<Rightarrow> int \<Rightarrow> int \<Rightarrow> int \<Rightarrow> int \<Rightarrow>
     (('m, 'p) download_world, bytes) act" where
  "decryptDownloadedLargeFile dd token0 credential search token0Wire blockSize totalTokens
      originalLength concurrentM =
     abind (acatch (on_memory (tc_createReceiveDecryptSession (dd_twelveC dd) credential token0Wire))
              outdated_session) (\<lambda>s.
     let session = lift_session s in
     abind (announced_length session) (\<lambda>announced.
     abind (alift (toSafeByteLength (dd_toNumber dd)
              (NumberV (Fin (of_int (default_to announced originalLength)))) ''originalFileLength''))
       (\<lambda>expectedLength.
     abind (alift (createReceivePlaintextAccumulator (dd_toNumber dd) (dd_alloc dd) expectedLength))
       (\<lambda>plaintext.
     abind (afold (large_block dd token0 search blockSize totalTokens concurrentM session)
              [1..totalTokens - 1] plaintext) (\<lambda>plaintext'.
     aseq (report (Decrypting totalTokens))
       (blob_from (dd_toNumber dd) (idle_world (dd_port dd) token0) session plaintext'))))))"

section \<open>The whole download\<close>

record download_options =
  do_initialTokens :: "int option"
  do_relayMaxBodyBytes :: "int option"
  do_onStatus :: bool

record download_result =
  dl_data :: bytes
  dl_fileName :: string

definition prefetch_width :: "('m, 'p) download_deps \<Rightarrow> download_options \<Rightarrow> int \<Rightarrow> int" where
  "prefetch_width dd options wireBlockBytes = resolveReceivePrefetchCount (dd_env dd) wireBlockBytes
     (no_prefetch_options\<lparr>pf_explicit := do_initialTokens options,
        pf_relayMaxBodyBytes := Some (default_to (do_relayMaxBodyBytes options) DEFAULT_RELAY_MAX_BODY_BYTES)\<rparr>)"

definition token0_mismatch :: "nat \<Rightarrow> int \<Rightarrow> thrown" where
  "token0_mismatch got expected = ErrorObj (''token0 wire size mismatch: got '' @ dec got @
     '', expected '' @ dec_int expected)"

text \<open>From the first prefetch to the parsed metadata of the first block.\<close>

definition fetch_metadata ::
    "('m, 'p) download_deps \<Rightarrow> string \<Rightarrow> string \<Rightarrow> string \<Rightarrow> int \<Rightarrow> int \<Rightarrow>
     (('m, 'p) download_world, bytes \<times> SmbMetadata) act" where
  "fetch_metadata dd token0 credential search estimatedM relayMax =
     (let port = dd_port dd in
      aseq (report (ResolvingInitial 0 estimatedM estimatedM))
     (aseq (yieldToBrowser port token0)
     (aseq (set_expected port token0 relayMax)
     (aseq (prefetchIndexRange dd token0 search 0 estimatedM)
     (aseq (amodify (\<lambda>(m, p, t). (m, p, reportStatus (AwaitingMetadataBlock
              (Some (max estimatedM (transportInFlight port p)))
              (Some (transportReceivedNotConsumedBytes port p)) (Some (estimatedM * relayMax))) t)))
     (abind (on_port port token0 (po_get port token0)) (\<lambda>data.
      let token0Wire = cloneWireBlock data in
      aseq (report ParsingMetadata)
     (abind (on_memory (tc_parseSmbEncrypted (dd_twelveC dd) credential token0Wire)) (\<lambda>metadata.
      aseq (set_expected port token0 (wireBlockSize metadata))
     (if int (length token0Wire) \<noteq> wireBlockSize metadata
      then athrow (token0_mismatch (length token0Wire) (wireBlockSize metadata))
      else areturn (token0Wire, metadata)))))))))))"

definition start_counting :: "SmbMetadata \<Rightarrow> tracker \<Rightarrow> tracker" where
  "start_counting metadata t = t\<lparr>tk_context := (tk_context t)\<lparr>dc_smbParsed := True,
     dc_totalTokens := numTokens metadata, dc_completed := 1,
     dc_wireBlockSize := wireBlockSize metadata\<rparr>\<rparr>"

text \<open>The blocks after the first of a file that is decrypted at once.\<close>

definition small_block ::
    "('m, 'p) download_deps \<Rightarrow> string \<Rightarrow> string \<Rightarrow> int \<Rightarrow> int \<Rightarrow> int \<Rightarrow> upload_map \<Rightarrow>
     (('m, 'p) download_world, upload_map) act" where
  "small_block dd token0 search blockSize totalTokens tokenIndex uploads =
     (let port = dd_port dd;
          token = tc_deriveUploadToken (dd_twelveC dd) search tokenIndex in
      abind (on_port port token0 (po_get port token)) (\<lambda>data.
      abind (alift (assertWireBlockSize token data blockSize)) (\<lambda>wire.
      aseq (report_downloading port (tokenIndex + 1) totalTokens blockSize)
        (areturn (jm_set token wire uploads)))))"

definition download_small ::
    "('m, 'p) download_deps \<Rightarrow> string \<Rightarrow> string \<Rightarrow> string \<Rightarrow> bytes \<Rightarrow> SmbMetadata \<Rightarrow> int \<Rightarrow>
     string list \<Rightarrow> (('m, 'p) download_world, bytes) act" where
  "download_small dd token0 credential search token0Wire metadata concurrentM fetchAfterSmb =
     (let port = dd_port dd; totalTokens = numTokens metadata; blockSize = wireBlockSize metadata in
      aseq (if fetchAfterSmb \<noteq> []
            then aseq (report (ResolvingWindow (min concurrentM totalTokens) totalTokens totalTokens))
                (aseq (yieldToBrowser port token0)
                (aseq (on_port port token0 (po_startConcurrentGet port fetchAfterSmb))
                   (report_downloading port 1 totalTokens blockSize)))
            else areturn ())
     (abind (afold (small_block dd token0 search blockSize totalTokens) [1..totalTokens - 1]
               (jm_set token0 token0Wire [])) (\<lambda>uploads.
      aseq (report (Decrypting totalTokens))
        (on_memory (tc_receiveFromUploadMap (dd_twelveC dd) credential uploads)))))"

definition download_file ::
    "('m, 'p) download_deps \<Rightarrow> download_options \<Rightarrow> string \<Rightarrow> string \<Rightarrow> string \<Rightarrow> int \<Rightarrow>
     bytes \<times> SmbMetadata \<Rightarrow> (('m, 'p) download_world, download_result) act" where
  "download_file dd options token0 credential search estimatedM block = (case block of
     (token0Wire, metadata) \<Rightarrow>
      let port = dd_port dd;
          fileName = resolveReceivedFileName (originalFileName metadata) credential;
          totalTokens = numTokens metadata;
          concurrentM = prefetch_width dd options (wireBlockSize metadata) in
      aseq (amodify (\<lambda>(m, p, t). (m, p, start_counting metadata t)))
     (abind (alift (computeReceiveDownloadPlan (tc_deriveUploadToken (dd_twelveC dd)) search
               concurrentM totalTokens)) (\<lambda>plan.
      aseq (if concurrentM < estimatedM then cancelIndexRange dd token0 search concurrentM estimatedM
            else areturn ())
     (aseq (if rp_cancelAfterSmb plan \<noteq> []
            then on_port port token0 (amodify (po_cancelPending port (rp_cancelAfterSmb plan)))
            else areturn ())
     (aseq (report_downloading port 1 totalTokens (wireBlockSize metadata))
     (if V21_WHOLE_FILE_THRESHOLD_BYTES < originalFileLength metadata
      then abind (decryptDownloadedLargeFile dd token0 credential search token0Wire
                    (wireBlockSize metadata) totalTokens (originalFileLength metadata) concurrentM)
             (\<lambda>data. abind (alift (lengths_equal (dd_toNumber dd) (int (length data))
                                (originalFileLength metadata))) (\<lambda>same.
               if \<not> same
               then athrow (size_mismatch (int (length data)) (originalFileLength metadata))
               else areturn \<lparr>dl_data = data, dl_fileName = fileName\<rparr>))
      else abind (download_small dd token0 credential search token0Wire metadata concurrentM
                    (rp_fetchAfterSmb plan))
             (\<lambda>data. areturn \<lparr>dl_data = data, dl_fileName = fileName\<rparr>)))))))"

definition tracker_new :: "bool \<Rightarrow> int \<Rightarrow> int \<Rightarrow> tracker" where
  "tracker_new onStatus prefetchCount ceiling1 =
     \<lparr>tk_context = \<lparr>dc_smbParsed = False, dc_totalTokens = 0, dc_completed = 0, dc_wireBlockSize = 0,
        dc_prefetchCount = prefetchCount, dc_prefetchBytesCeiling = ceiling1\<rparr>,
      tk_transferHigh = 0, tk_prefetchHigh = 0, tk_onStatus = onStatus, tk_listening = False,
      tk_seen = 0, tk_reports = []\<rparr>"

text \<open>The \<open>try\<close> block, with the listener attached before and detached after it.\<close>

definition download_run ::
    "('m, 'p) download_deps \<Rightarrow> download_options \<Rightarrow> string \<Rightarrow> string \<Rightarrow>
     (('m, 'p) download_world, download_result) act" where
  "download_run dd options credential search =
     (let estimatedM = prefetch_width dd options 0;
          relayMax = default_to (do_relayMaxBodyBytes options) DEFAULT_RELAY_MAX_BODY_BYTES;
          token0 = tc_deriveUploadToken (dd_twelveC dd) search 0 in
      aseq (amodify (\<lambda>(m, w). (m, attachDownloadActivityListener (dd_port dd) w)))
        (afinally (abind (fetch_metadata dd token0 credential search estimatedM relayMax)
                     (download_file dd options token0 credential search estimatedM))
           (\<lambda>(m, w). (m, detach_listener (dd_port dd) w))))"

text \<open>The result, the statuses that \<open>onStatus\<close> was called with, and the two outer states.\<close>

definition downloadAdaptive ::
    "('m, 'p) download_deps \<Rightarrow> download_options \<Rightarrow> string \<Rightarrow> 'm \<times> 'p \<Rightarrow>
     download_result res \<times> download_status list \<times> 'm \<times> 'p" where
  "downloadAdaptive dd options credential w = (case w of (m, p) \<Rightarrow>
     let estimatedM = prefetch_width dd options 0;
         relayMax = default_to (do_relayMaxBodyBytes options) DEFAULT_RELAY_MAX_BODY_BYTES in
     if estimatedM \<le> 0 then (Inl (ErrorObj ''initial token count must be greater than zero''), [], m, p)
     else (case splitCredential credential of
         Inl e \<Rightarrow> (Inl e, [], m, p)
       | Inr parts \<Rightarrow>
           (case download_run dd options credential (searchCode parts)
                   (m, p, tracker_new (do_onStatus options) estimatedM (estimatedM * relayMax)) of
              (r, m', p', t) \<Rightarrow> (r, tk_reports t, m', p'))))"

definition receiveFromUploadMap :: "string \<Rightarrow> upload_map \<Rightarrow> 'm twelve_c \<Rightarrow> ('m, bytes) act" where
  "receiveFromUploadMap credential uploads twelveC = tc_receiveFromUploadMap twelveC credential uploads"

text \<open>\<open>receiveFile\<close> of the application layer.\<close>

definition receiveFile ::
    "('m, 'p) download_deps \<Rightarrow> download_options \<Rightarrow> string \<Rightarrow> 'm \<times> 'p \<Rightarrow>
     download_result res \<times> download_status list \<times> 'm \<times> 'p" where
  "receiveFile dd options credential w =
     (if length credential \<noteq> CREDENTIAL_LENGTH
      then (Inl (ErrorObj (''credential must be exactly '' @ dec CREDENTIAL_LENGTH @ '' characters'')),
            [], fst w, snd w)
      else downloadAdaptive dd options credential w)"

section \<open>Monotone progress\<close>

text \<open>What a progress bar reads off the statuses.\<close>

definition completed_of :: "download_status list \<Rightarrow> int list" where
  "completed_of = List.map_filter (\<lambda>s. case s of Downloading c _ _ _ _ \<Rightarrow> Some c | _ \<Rightarrow> None)"

definition transferred_of :: "download_status list \<Rightarrow> int list" where
  "transferred_of =
     List.map_filter (\<lambda>s. case s of Downloading _ _ _ (Some n) (Some _) \<Rightarrow> Some n | _ \<Rightarrow> None)"

definition prefetched_of :: "download_status list \<Rightarrow> int list" where
  "prefetched_of = List.map_filter (\<lambda>s. case s of AwaitingMetadataBlock _ n _ \<Rightarrow> n | _ \<Rightarrow> None)"

definition within_total :: "download_status \<Rightarrow> bool" where
  "within_total s \<longleftrightarrow> (case s of
     Downloading _ _ _ (Some n) (Some whole) \<Rightarrow> 0 \<le> n \<and> n \<le> whole | _ \<Rightarrow> True)"

text \<open>Two statuses with the same denominators, both with bytes or both without.\<close>

fun same_totals :: "download_status \<Rightarrow> download_status \<Rightarrow> bool" where
  "same_totals (Downloading _ k _ n whole) (Downloading _ k' _ n' whole') =
     (k = k' \<and> whole = whole' \<and> (n = None) = (n' = None) \<and> (n = None) = (whole = None))"
| "same_totals _ _ = True"

definition progress_ok :: "download_status list \<Rightarrow> bool" where
  "progress_ok rs \<longleftrightarrow> sorted (completed_of rs) \<and> sorted (transferred_of rs) \<and>
     sorted (prefetched_of rs) \<and> list_all within_total rs \<and>
     list_all (\<lambda>s. list_all (same_totals s) rs) rs"

definition whole_bytes :: "int \<Rightarrow> int \<Rightarrow> int option" where
  "whole_bytes n blockSize = (if 0 < blockSize \<and> 0 < n then Some (blockSize * n) else None)"

definition has_totals :: "int \<Rightarrow> int \<Rightarrow> download_status \<Rightarrow> bool" where
  "has_totals n blockSize s \<longleftrightarrow> (case s of
     Downloading _ k _ x whole \<Rightarrow>
       k = n \<and> whole = whole_bytes n blockSize \<and> (x = None) = (whole = None)
   | _ \<Rightarrow> True)"

lemma has_totals_same: "has_totals n b s \<Longrightarrow> has_totals n b s' \<Longrightarrow> same_totals s s'"
  by (cases s; cases s') (auto simp: has_totals_def)

lemma completed_none: "completed_of rs = [] \<Longrightarrow> s \<in> set rs \<Longrightarrow> has_totals n b s"
  by (induction rs) (auto simp: completed_of_def map_filter_def has_totals_def
      split: if_splits download_status.splits option.splits)

text \<open>The tracker before the metadata is known, and after, with \<open>c\<close> blocks completed.\<close>

definition prefetch_inv :: "tracker \<Rightarrow> bool" where
  "prefetch_inv t \<longleftrightarrow> sorted (prefetched_of (tk_reports t)) \<and>
     (\<forall>x\<in>set (prefetched_of (tk_reports t)). x \<le> tk_prefetchHigh t)"

definition early :: "tracker \<Rightarrow> bool" where
  "early t \<longleftrightarrow> \<not> dc_smbParsed (tk_context t) \<and> completed_of (tk_reports t) = [] \<and>
     transferred_of (tk_reports t) = [] \<and> list_all within_total (tk_reports t) \<and>
     prefetch_inv t \<and> 0 \<le> tk_transferHigh t"

definition late :: "int \<Rightarrow> int \<Rightarrow> int \<Rightarrow> tracker \<Rightarrow> bool" where
  "late n blockSize c t \<longleftrightarrow> dc_smbParsed (tk_context t) \<and> dc_totalTokens (tk_context t) = n \<and>
     dc_wireBlockSize (tk_context t) = blockSize \<and> dc_completed (tk_context t) = c \<and>
     sorted (completed_of (tk_reports t)) \<and> (\<forall>x\<in>set (completed_of (tk_reports t)). x \<le> c) \<and>
     sorted (transferred_of (tk_reports t)) \<and>
     (\<forall>x\<in>set (transferred_of (tk_reports t)). x \<le> min (blockSize * n) (tk_transferHigh t)) \<and>
     list_all within_total (tk_reports t) \<and> prefetch_inv t \<and> 0 \<le> tk_transferHigh t \<and>
     (\<forall>s\<in>set (tk_reports t). has_totals n blockSize s)"

lemma of_append [simp]:
  "completed_of (xs @ ys) = completed_of xs @ completed_of ys"
  "transferred_of (xs @ ys) = transferred_of xs @ transferred_of ys"
  "prefetched_of (xs @ ys) = prefetched_of xs @ prefetched_of ys"
  by (simp_all add: completed_of_def transferred_of_def prefetched_of_def map_filter_def)

lemma of_Nil [simp]: "completed_of [] = []" "transferred_of [] = []" "prefetched_of [] = []"
  by (simp_all add: completed_of_def transferred_of_def prefetched_of_def map_filter_def)

lemma of_single [simp]:
  "completed_of [s] = (case s of Downloading c _ _ _ _ \<Rightarrow> [c] | _ \<Rightarrow> [])"
  "transferred_of [s] = (case s of Downloading _ _ _ (Some n) (Some _) \<Rightarrow> [n] | _ \<Rightarrow> [])"
  "prefetched_of [s] = (case s of AwaitingMetadataBlock _ (Some n) _ \<Rightarrow> [n] | _ \<Rightarrow> [])"
  by (auto simp: completed_of_def transferred_of_def prefetched_of_def map_filter_def
      split: download_status.splits option.splits)

lemma emit_status_fields [simp]:
  "tk_context (emit_status1 s t) = tk_context t"
  "tk_transferHigh (emit_status1 s t) = tk_transferHigh t"
  "tk_prefetchHigh (emit_status1 s t) = tk_prefetchHigh t"
  "tk_reports (emit_status1 s t) = tk_reports t @ (if tk_onStatus t then [s] else [])"
  by (simp_all add: emit_status1_def)

definition is_downloading :: "download_status \<Rightarrow> bool" where
  "is_downloading s \<longleftrightarrow> (case s of Downloading _ _ _ _ _ \<Rightarrow> True | _ \<Rightarrow> False)"

lemma report_early: "early t \<Longrightarrow> \<not> is_downloading s \<Longrightarrow> early (reportStatus s t)"
  by (cases s)
    (auto simp: early_def reportStatus_def Let_def prefetch_inv_def within_total_def is_downloading_def
      sorted_append le_max_iff_disj split: if_splits)

lemma report_late_other: "late n b c t \<Longrightarrow> \<not> is_downloading s \<Longrightarrow> late n b c (reportStatus s t)"
  by (cases s)
    (auto simp: late_def reportStatus_def Let_def prefetch_inv_def within_total_def is_downloading_def
      has_totals_def sorted_append le_max_iff_disj split: if_splits)

lemma report_late:
  assumes "late n b c t" "c \<le> c'" "bytesTotal = whole_bytes n b" "(transferred = None) = (bytesTotal = None)"
  shows "late n b c' (reportStatus (Downloading c' n f transferred bytesTotal) t)"
proof (cases "bytesTotal")
  case (Some whole)
  then obtain x where "transferred = Some x" "bytesTotal = Some (b * n)" "0 \<le> b * n" "whole_bytes n b = Some (b * n)"
    using assms(3,4) by (auto simp: whole_bytes_def split: if_splits)
  with assms(1,2) show ?thesis
    by (auto simp: late_def reportStatus_def Let_def prefetch_inv_def within_total_def sorted_append
        has_totals_def le_max_iff_disj intro: order_trans)
next
  case None
  have None': "transferred = None" using None assms(4) by simp
  then have "reportStatus (Downloading c' n f transferred bytesTotal) t =
      emit_status1 (Downloading c' n f transferred bytesTotal)
        (t\<lparr>tk_context := (tk_context t)\<lparr>dc_completed := c'\<rparr>\<rparr>)"
    by (simp add: reportStatus_def Let_def)
  with assms(1,2) None None' assms(3) show ?thesis
    by (auto simp: late_def prefetch_inv_def sorted_append within_total_def has_totals_def
        intro: order_trans)
qed

lemma report_downloading_late:
  "late n b c t \<Longrightarrow> c \<le> c' \<Longrightarrow> late n b c' (reportStatus (downloadingStatus port p c' n b) t)"
  unfolding downloadingStatus_def Let_def by (rule report_late) (auto simp: whole_bytes_def)

lemma mapped_early:
  "early t \<Longrightarrow> mapTransportActivityToStatus a token0 (tk_context t) i r = Some s \<Longrightarrow> \<not> is_downloading s"
  by (auto simp: early_def mapTransportActivityToStatus_def activity_downloading_def
      prefetchAwaitingStatus_def is_downloading_def split: activity.splits if_splits)

lemma activity_early: "early t \<Longrightarrow> early (on_activity token0 ev t)"
  by (auto simp: on_activity_def report_early mapped_early split: prod.split option.split)

lemma mapped_late:
  assumes "late n b c t" "mapTransportActivityToStatus a token0 (tk_context t) i r = Some s"
  shows "\<not> is_downloading s \<or>
    (\<exists>f x w. s = Downloading c n f x w \<and> w = whole_bytes n b \<and> (x = None) = (w = None))"
  using assms
  by (auto simp: whole_bytes_def late_def mapTransportActivityToStatus_def activity_downloading_def downloadTransferBytes_def
      prefetchAwaitingStatus_def is_downloading_def Let_def split: activity.splits if_splits)

lemma activity_late: "late n b c t \<Longrightarrow> late n b c (on_activity token0 ev t)"
proof -
  assume late: "late n b c t"
  obtain a i r where ev: "ev = (a, i, r)" by (cases ev)
  show ?thesis
  proof (cases "mapTransportActivityToStatus a token0 (tk_context t) i r")
    case None
    with late ev show ?thesis by (simp add: on_activity_def)
  next
    case (Some s)
    then have eq: "on_activity token0 ev t = reportStatus s t" using ev by (simp add: on_activity_def)
    from mapped_late [OF late Some] show ?thesis
    proof
      assume "\<not> is_downloading s"
      with late eq show ?thesis by (simp add: report_late_other)
    next
      assume "\<exists>f x w. s = Downloading c n f x w \<and> w = whole_bytes n b \<and> (x = None) = (w = None)"
      then obtain f x w where "s = Downloading c n f x w" "w = whole_bytes n b" "(x = None) = (w = None)"
        by (elim exE conjE)
      with report_late [OF late order_refl, of w x f] eq show ?thesis by simp
    qed
  qed
qed

text \<open>An assertion about the tracker that deliveries of activities keep.\<close>

definition on_tracker :: "(tracker \<Rightarrow> bool) \<Rightarrow> ('m, 'p) download_world \<Rightarrow> bool" where
  "on_tracker K w \<longleftrightarrow> K (snd (snd w))"

definition robust :: "(tracker \<Rightarrow> bool) \<Rightarrow> bool" where
  "robust K \<longleftrightarrow> (\<forall>token0 ev t. K t \<longrightarrow> K (on_activity token0 ev t)) \<and>
     (\<forall>t k. K t \<longrightarrow> K (t\<lparr>tk_seen := k\<rparr>)) \<and> (\<forall>t. K t \<longrightarrow> progress_ok (tk_reports t))"

abbreviation reports_ok :: "('m, 'p) download_world \<Rightarrow> bool" where
  "reports_ok \<equiv> on_tracker (\<lambda>t. progress_ok (tk_reports t))"

definition keeps :: "(tracker \<Rightarrow> bool) \<Rightarrow> (('m, 'p) download_world, 'a) act \<Rightarrow> bool" where
  "keeps K f \<longleftrightarrow> triple (on_tracker K) f (\<lambda>_. on_tracker K) reports_ok"

lemma has_totals_ok: "\<forall>s\<in>set rs. has_totals n b s \<Longrightarrow> list_all (\<lambda>s. list_all (same_totals s) rs) rs"
  by (auto simp: list_all_iff intro: has_totals_same)

lemma early_ok: "early t \<Longrightarrow> progress_ok (tk_reports t)"
  using has_totals_ok [of "tk_reports t" 0 0] completed_none [of "tk_reports t" _ 0 0]
  by (simp add: early_def prefetch_inv_def progress_ok_def)

lemma late_ok: "late n b c t \<Longrightarrow> progress_ok (tk_reports t)"
  using has_totals_ok [of "tk_reports t" n b] by (simp add: late_def prefetch_inv_def progress_ok_def)

lemma robust_early: "robust early"
  by (auto simp: robust_def activity_early early_ok) (auto simp: early_def prefetch_inv_def)

lemma robust_late: "robust (late n b c)"
  by (auto simp: robust_def activity_late late_ok) (auto simp: late_def prefetch_inv_def)

lemma robust_ok: "robust K \<Longrightarrow> K t \<Longrightarrow> progress_ok (tk_reports t)"
  by (simp add: robust_def)

lemma deliver_keeps: "robust K \<Longrightarrow> K t \<Longrightarrow> K (deliver port token0 p t)"
proof -
  assume K: "robust K" "K t"
  have "K (fold (on_activity token0) evs t)" for evs
    using K by (induction evs arbitrary: t) (auto simp: robust_def)
  with K show ?thesis by (auto simp: deliver_def robust_def split: option.split)
qed

lemma keepsI:
  assumes "robust K"
    and "\<And>m p t r w'. K t \<Longrightarrow> f (m, p, t) = (r, w') \<Longrightarrow> K (snd (snd w'))"
  shows "keeps K f"
  unfolding keeps_def
proof (rule tripleI)
  fix w r w' assume "on_tracker K w" "f w = (r, w')"
  then have "K (snd (snd w'))"
    using assms(2) [of "snd (snd w)" "fst w" "fst (snd w)" r w'] by (simp add: on_tracker_def)
  then show "case r of Inl e \<Rightarrow> reports_ok w' | Inr x \<Rightarrow> on_tracker K w'"
    using robust_ok [OF assms(1)] by (simp add: on_tracker_def split: sum.split)
qed

lemma keeps_port: "robust K \<Longrightarrow> keeps K (on_port port token0 f)"
  by (rule keepsI) (auto simp: on_port_def deliver_keeps split: prod.splits)

lemma keeps_memory: "robust K \<Longrightarrow> keeps K (on_memory f)"
  by (rule keepsI) (auto simp: on_memory_def split: prod.splits)

lemma keeps_return: "robust K \<Longrightarrow> keeps K (areturn x)" "robust K \<Longrightarrow> keeps K (alift r)"
    "robust K \<Longrightarrow> keeps K (athrow e)"
  by (rule keepsI; auto)+

lemma keeps_bind: "keeps K f \<Longrightarrow> (\<And>x. keeps K (g x)) \<Longrightarrow> keeps K (abind f g)"
  unfolding keeps_def by (rule triple_bind)

lemma keeps_seq: "keeps K f \<Longrightarrow> keeps K g \<Longrightarrow> keeps K (aseq f g)"
  unfolding keeps_def by (rule triple_seq)

lemma keeps_if: "keeps K f \<Longrightarrow> keeps K g \<Longrightarrow> keeps K (if c then f else g)"
  by simp

lemma keeps_yield: "robust K \<Longrightarrow> keeps K (yieldToBrowser port token0)"
  by (rule keepsI) (auto simp: yieldToBrowser_def idle_world_def deliver_keeps)

lemma keeps_expected: "robust K \<Longrightarrow> keeps K (set_expected port token0 n)"
  by (auto simp: set_expected_def keeps_port keeps_return simp del: act_run split: option.split)

lemma keeps_prefetch: "robust K \<Longrightarrow> keeps K (prefetchIndexRange dd token0 search i j)"
  unfolding prefetchIndexRange_def by (intro keeps_if keeps_bind keeps_return keeps_port)

lemma keeps_cancel: "robust K \<Longrightarrow> keeps K (cancelIndexRange dd token0 search i j)"
  unfolding cancelIndexRange_def by (intro keeps_if keeps_bind keeps_return keeps_port)

lemma memory_tracker: "on_memory f w = (r, w') \<Longrightarrow> snd w' = snd w"
  by (auto simp: on_memory_def split: prod.splits)

lemma keeps_catch:
  assumes "\<And>e. keeps K (h e)"
  shows "keeps K (acatch (on_memory f) h)"
  unfolding keeps_def
proof (rule tripleI)
  fix w r w' assume K: "on_tracker K w" and run: "acatch (on_memory f) h w = (r, w')"
  obtain a w1 where f: "on_memory f w = (a, w1)" by (metis surj_pair)
  then have K1: "on_tracker K w1" using K memory_tracker [OF f] by (simp add: on_tracker_def)
  show "case r of Inl e \<Rightarrow> reports_ok w' | Inr x \<Rightarrow> on_tracker K w'"
  proof (cases a)
    case (Inl e)
    then have "h e w1 = (r, w')" using run f by simp
    then show ?thesis by (rule tripleD [OF assms [unfolded keeps_def] K1])
  next
    case (Inr x)
    with run f K1 show ?thesis by auto
  qed
qed

lemma keeps_outdated: "robust K \<Longrightarrow> keeps K (outdated_session e)"
  unfolding outdated_session_def by (intro keeps_if keeps_return)

lemma drain_tracker:
  assumes "robust K" "on_tracker K w"
    and "drain_loop (\<lambda>n. on_memory (f n)) (idle_world port token0) k acc w = (r, acc', w')"
  shows "on_tracker K w'"
proof (rule drain_loop_keeps [where P = "on_tracker K", OF _ _ assms(2,3)])
  show "on_tracker K (idle_world port token0 w)" if "on_tracker K w" for w
    using that deliver_keeps [OF assms(1)] by (cases w) (simp add: on_tracker_def idle_world_def)
qed (simp add: on_tracker_def memory_tracker)

lemma drainSession_tracker:
  assumes "robust K" "on_tracker K w"
    and "drainSession (idle_world port token0) (lift_session s) acc w = (r, acc', w')"
  shows "on_tracker K w'"
  using assms
  by (auto simp: drainSession_def lift_session_def drain_tracker [OF assms(1,2)]
      split: option.splits)

lemma keeps_drain: "robust K \<Longrightarrow> keeps K (drain_into (idle_world port token0) (lift_session s) acc)"
proof (rule keepsI)
  fix m p t r w'
  assume K: "robust K" "K t"
    and run: "drain_into (idle_world port token0) (lift_session s) acc (m, p, t) = (r, w')"
  obtain a acc' w1 where d: "drainSession (idle_world port token0) (lift_session s) acc (m, p, t) = (a, acc', w1)"
    by (metis prod_cases3)
  have "on_tracker K w1" by (rule drainSession_tracker [OF K(1) _ d]) (simp add: on_tracker_def K(2))
  with run d show "K (snd (snd w'))" by (auto simp: drain_into_def on_tracker_def split: sum.splits)
qed

lemma finish_tracker: "finish_session (lift_session s) w = (r, w') \<Longrightarrow> snd w' = snd w"
  by (auto simp: finish_session_def lift_session_def abind_def aseq_def split: option.splits prod.splits
      sum.splits dest!: memory_tracker)

lemma keeps_blob: "robust K \<Longrightarrow> keeps K (blob_from num (idle_world port token0) (lift_session s) acc)"
proof (rule keepsI)
  fix m p t r w'
  assume K: "robust K" "K t"
    and run: "blob_from num (idle_world port token0) (lift_session s) acc (m, p, t) = (r, w')"
  obtain a w1 where f: "finish_session (lift_session s) (m, p, t) = (a, w1)" by (metis surj_pair)
  then have K1: "on_tracker K w1" using K(2) finish_tracker [OF f] by (simp add: on_tracker_def)
  obtain b acc' w2 where d: "drainSession (idle_world port token0) (lift_session s) acc w1 = (b, acc', w2)"
    by (metis prod_cases3)
  have "on_tracker K w2" by (rule drainSession_tracker [OF K(1) K1 d])
  with run f d K1 show "K (snd (snd w'))"
    by (auto simp: blob_from_def finalize_buffer_def on_tracker_def split: sum.splits option.splits)
qed

lemma keeps_report:
  "\<not> is_downloading s \<Longrightarrow> keeps early (report s)"
  "\<not> is_downloading s \<Longrightarrow> keeps (late n b c) (report s)"
  by (rule keepsI [OF robust_early], auto simp: report_def report_early,
      rule keepsI [OF robust_late], auto simp: report_def report_late_other)

lemma triple_downloading:
  "c \<le> c' \<Longrightarrow> triple (on_tracker (late n b c)) (report_downloading port c' n b)
     (\<lambda>_. on_tracker (late n b c')) reports_ok"
  unfolding report_downloading_def
  by (rule triple_modify) (auto simp: on_tracker_def report_downloading_late)

lemma triple_keep_seq:
  "keeps K f \<Longrightarrow> triple (on_tracker K) g Q reports_ok \<Longrightarrow> triple (on_tracker K) (aseq f g) Q reports_ok"
  unfolding keeps_def by (rule triple_seq)

lemma triple_keep_bind:
  "keeps K f \<Longrightarrow> (\<And>x. triple (on_tracker K) (g x) Q reports_ok) \<Longrightarrow>
     triple (on_tracker K) (abind f g) Q reports_ok"
  unfolding keeps_def by (rule triple_bind)

lemma triple_return: "triple (on_tracker K) (areturn x) (\<lambda>_. on_tracker K) reports_ok"
  by (rule triple_basic(1))

lemma keeps_add: "robust K \<Longrightarrow> keeps K (rs_addWireToken (lift_session s) i data)"
  by (simp add: lift_session_def keeps_memory)

lemma keeps_announced: "robust K \<Longrightarrow> keeps K (announced_length (lift_session s))"
  by (cases "rs_originalFileLength s")
    (auto simp: announced_length_def lift_session_def keeps_memory keeps_return simp del: act_run)

lemma not_downloading [simp]:
  "\<not> is_downloading (ResolvingInitial i j k)" "\<not> is_downloading (ResolvingWindow i j k)"
  "\<not> is_downloading (AwaitingMetadataBlock x y z)" "\<not> is_downloading ParsingMetadata"
  "\<not> is_downloading (Decrypting n)"
  by (simp_all add: is_downloading_def)

lemma keeps_downloading: "keeps (late n b c) (report_downloading port c n b)"
  unfolding keeps_def by (rule triple_downloading) simp

lemma keeps_awaiting:
  "keeps early (amodify (\<lambda>(m, p, t). (m, p, reportStatus (AwaitingMetadataBlock (f p) (g p) (h p)) t)))"
  by (rule keepsI [OF robust_early]) (auto simp: report_early)

lemmas keep_rules = keeps_return keeps_port keeps_memory keeps_yield keeps_expected keeps_prefetch
  keeps_cancel keeps_drain keeps_blob keeps_add keeps_announced keeps_catch keeps_outdated keeps_if
  keeps_report keeps_downloading keeps_awaiting robust_early robust_late not_downloading

lemmas keep_steps = triple_keep_seq triple_keep_bind

lemma large_block_progress:
  "triple (on_tracker (late n b i)) (large_block dd token0 search b n m (lift_session s) i acc)
     (\<lambda>_. on_tracker (late n b (i + 1))) reports_ok"
  unfolding large_block_def Let_def
  by ((rule keep_steps, intro keep_rules)+, rule triple_seq, rule triple_downloading, simp,
      (rule keep_steps, intro keep_rules)+, rule triple_return)

lemma small_block_progress:
  "triple (on_tracker (late n b i)) (small_block dd token0 search b n i uploads)
     (\<lambda>_. on_tracker (late n b (i + 1))) reports_ok"
  unfolding small_block_def Let_def
  by ((rule keep_steps, intro keep_rules)+, rule triple_seq, rule triple_downloading, simp,
      rule triple_return)

text \<open>The loops start with one block completed and end with all of them.\<close>

lemma blocks_progress:
  assumes "\<And>i a. triple (on_tracker (late n b i)) (body i a) (\<lambda>_. on_tracker (late n b (i + 1))) reports_ok"
  shows "triple (on_tracker (late n b 1)) (afold body [1..n - 1] a)
    (\<lambda>_. on_tracker (late n b (max 1 n))) reports_ok"
  by (rule triple_afold [where I = "\<lambda>i _. on_tracker (late n b i)"]) (rule assms)

lemma ends_progress:
  "keeps (late n b c) f \<Longrightarrow> triple (on_tracker (late n b c)) f (\<lambda>_. reports_ok) reports_ok"
  unfolding keeps_def
  by (erule triple_weaken) (auto simp: on_tracker_def intro: robust_ok [OF robust_late])

lemma large_file_progress:
  "triple (on_tracker (late n b 1)) (decryptDownloadedLargeFile dd token0 credential search wire b n len m)
     (\<lambda>_. reports_ok) reports_ok"
  unfolding decryptDownloadedLargeFile_def Let_def
  by (rule keep_steps, intro keep_rules)+
    (rule triple_bind [OF blocks_progress], rule large_block_progress,
      (rule keep_steps, intro keep_rules)+, rule ends_progress, intro keep_rules)

lemma small_file_progress:
  "triple (on_tracker (late (numTokens md) (wireBlockSize md) 1))
     (download_small dd token0 credential search wire md m tokens) (\<lambda>_. reports_ok) reports_ok"
  unfolding download_small_def Let_def
  by (rule keep_steps, intro keep_rules keeps_seq,
      rule triple_bind [OF blocks_progress], rule small_block_progress,
      (rule keep_steps, intro keep_rules)+, rule ends_progress, intro keep_rules)

lemma start_counting_late:
  "early t \<Longrightarrow> late (numTokens md) (wireBlockSize md) 1 (start_counting md t)"
  by (auto simp: early_def late_def start_counting_def prefetch_inv_def intro: completed_none)

lemma triple_ok_step:
  "triple P f (\<lambda>_. reports_ok) reports_ok \<Longrightarrow> (\<And>x. triple reports_ok (g x) (\<lambda>_. reports_ok) reports_ok) \<Longrightarrow>
     triple P (abind f g) (\<lambda>_. reports_ok) reports_ok"
  by (rule triple_bind)

lemma download_file_progress:
  "triple (on_tracker early) (download_file dd options token0 credential search m block)
     (\<lambda>_. reports_ok) reports_ok"
proof (cases block)
  case (Pair wire md)
  let ?K = "late (numTokens md) (wireBlockSize md) 1"
  have check: "triple reports_ok (if c then athrow e else areturn x) (\<lambda>_. reports_ok) reports_ok"
    for c e and x :: download_result
    by (intro triple_if triple_basic)
  show ?thesis
    unfolding Pair download_file_def prod.case Let_def
    by (rule triple_seq [where R = "on_tracker ?K"], rule triple_modify,
        (auto simp: on_tracker_def start_counting_late)[1],
        (rule keep_steps, intro keep_rules)+,
        intro triple_if, rule triple_ok_step [OF large_file_progress],
        rule triple_bind [where R = "\<lambda>_. reports_ok"], rule triple_basic(3), simp split: sum.split,
        rule check, rule triple_ok_step [OF small_file_progress], rule triple_basic(1), assumption)
qed

lemma fetch_metadata_progress:
  "triple (on_tracker early) (fetch_metadata dd token0 credential search m limit)
     (\<lambda>_. on_tracker early) reports_ok"
  unfolding fetch_metadata_def Let_def
  by ((rule keep_steps, intro keep_rules)+, fold keeps_def, intro keep_rules)

lemma triple_finally:
  assumes "triple P f Q E" "\<And>x w. Q x w \<Longrightarrow> Q' x (g w)" "\<And>w. E w \<Longrightarrow> E' (g w)"
  shows "triple P (afinally f g) Q' E'"
proof (rule tripleI)
  fix w r w' assume P: "P w" and run: "afinally f g w = (r, w')"
  obtain a w1 where a: "f w = (a, w1)" by fastforce
  with run have "r = a" "w' = g w1" by simp_all
  with tripleD [OF assms(1) P a] assms(2,3) show "case r of Inl e \<Rightarrow> E' w' | Inr x \<Rightarrow> Q' x w'"
    by (auto split: sum.splits)
qed

lemma attach_fields:
  "tk_context (snd (attachDownloadActivityListener port (p, t))) = tk_context t"
  "tk_reports (snd (attachDownloadActivityListener port (p, t))) = tk_reports t"
  "tk_transferHigh (snd (attachDownloadActivityListener port (p, t))) = tk_transferHigh t"
  "tk_prefetchHigh (snd (attachDownloadActivityListener port (p, t))) = tk_prefetchHigh t"
  by (simp_all add: attachDownloadActivityListener_def split: option.split)

lemma download_run_progress:
  "triple (on_tracker early) (download_run dd options credential search) (\<lambda>_. reports_ok) reports_ok"
  unfolding download_run_def Let_def
proof (rule triple_seq [where R = "on_tracker early"])
  show "triple (on_tracker early) (amodify (\<lambda>(m, w). (m, attachDownloadActivityListener (dd_port dd) w)))
      (\<lambda>_. on_tracker early) reports_ok"
    by (rule triple_modify) (auto simp: on_tracker_def early_def prefetch_inv_def attach_fields)
  have "reports_ok (case w of (m, w) \<Rightarrow> (m, detach_listener (dd_port dd) w))" if "reports_ok w" for w :: "('a, 'b) download_world"
    using that by (auto simp: on_tracker_def detach_listener_def split: prod.splits option.split)
  then show "triple (on_tracker early) (afinally (abind
      (fetch_metadata dd (tc_deriveUploadToken (dd_twelveC dd) search 0) credential search (prefetch_width dd options 0)
        (default_to (do_relayMaxBodyBytes options) DEFAULT_RELAY_MAX_BODY_BYTES))
      (download_file dd options (tc_deriveUploadToken (dd_twelveC dd) search 0) credential search
        (prefetch_width dd options 0)))
      (\<lambda>(m, w). (m, detach_listener (dd_port dd) w))) (\<lambda>_. reports_ok) reports_ok"
    by (intro triple_finally [OF triple_bind [OF fetch_metadata_progress download_file_progress]])
qed

lemma downloadAdaptive_reports: "progress_ok (fst (snd (downloadAdaptive dd options credential w)))"
proof -
  obtain m p where w: "w = (m, p)" by fastforce
  show ?thesis
  proof (cases "prefetch_width dd options 0 \<le> 0 \<or> (\<exists>e. splitCredential credential = Inl e)")
    case True
    then show ?thesis
      by (auto simp: w downloadAdaptive_def progress_ok_def Let_def split: sum.split)
  next
    case False
    then obtain parts where parts: "splitCredential credential = Inr parts"
      by (cases "splitCredential credential") auto
    let ?t = "tracker_new (do_onStatus options) (prefetch_width dd options 0) (prefetch_width dd options 0 *
        default_to (do_relayMaxBodyBytes options) DEFAULT_RELAY_MAX_BODY_BYTES)"
    obtain r m' p' t' where run: "download_run dd options credential (searchCode parts) (m, p, ?t) = (r, m', p', t')"
      by (metis prod_cases4)
    have "on_tracker early (m, p, ?t)"
      by (simp add: on_tracker_def early_def tracker_new_def prefetch_inv_def)
    from tripleD [OF download_run_progress this run] have "progress_ok (tk_reports t')"
      by (cases r) (simp_all add: on_tracker_def)
    with False parts run show ?thesis by (auto simp: w downloadAdaptive_def Let_def)
  qed
qed

section \<open>Properties\<close>

text \<open>C17. The progress a download reports never runs backwards, whatever the transport, the
  module and the relays do, errors included: the completed blocks, the transferred bytes and,
  before the metadata is known, the prefetched bytes of successive statuses are monotone, the
  transferred bytes stay between zero and the announced total, and both denominators stay the same
  throughout.\<close>

theorem download_progress_monotone:
  "progress_ok (fst (snd (downloadAdaptive dd options credential w)))"
  by (rule downloadAdaptive_reports)

end
