(* ===== verification/Delivery.thy ===== *)
theory Delivery
  imports Download
begin

text \<open>
  What a download delivers. \<open>local_receive\<close> is the specification: parse the first block, check the
  sizes and decrypt the blocks, without any transport. The locale \<open>serving_port\<close> says what a
  download needs from a transport: that \<open>get\<close> returns the right block of every token it serves and
  that the other operations keep it so. Inside it, the adaptive download refines the specification.
  The locale is interpreted on the receive transport of \<open>Receive.thy\<close> over an honest registry and
  honest relays, with GETs that settle in any order.
\<close>

section \<open>Specification\<close>

definition local_large_block ::
    "('m, 'p) download_deps \<Rightarrow> string \<Rightarrow> int \<Rightarrow> (string \<Rightarrow> bytes) \<Rightarrow> 'm receive_session \<Rightarrow> int \<Rightarrow>
     accumulator \<Rightarrow> ('m, accumulator) act" where
  "local_large_block dd search blockSize blk session i acc =
     (let token = tc_deriveUploadToken (dd_twelveC dd) search i in
      abind (alift (assertWireBlockSize token (blk token) blockSize)) (\<lambda>wire.
      aseq (rs_addWireToken session i wire) (drain_into id session acc)))"

definition local_large ::
    "('m, 'p) download_deps \<Rightarrow> string \<Rightarrow> string \<Rightarrow> (string \<Rightarrow> bytes) \<Rightarrow> bytes \<Rightarrow> SmbMetadata \<Rightarrow>
     ('m, bytes) act" where
  "local_large dd credential search blk wire md =
     abind (acatch (tc_createReceiveDecryptSession (dd_twelveC dd) credential wire) outdated_session)
       (\<lambda>session.
     abind (announced_length session) (\<lambda>announced.
     abind (alift (toSafeByteLength (dd_toNumber dd)
        (NumberV (Fin (of_int (default_to announced (originalFileLength md))))) ''originalFileLength''))
       (\<lambda>expectedLength.
     abind (alift (createReceivePlaintextAccumulator (dd_toNumber dd) (dd_alloc dd) expectedLength))
       (\<lambda>plaintext.
     abind (afold (local_large_block dd search (wireBlockSize md) blk session) [1..numTokens md - 1]
              plaintext)
       (blob_from (dd_toNumber dd) id session)))))"

definition local_small_block ::
    "('m, 'p) download_deps \<Rightarrow> string \<Rightarrow> int \<Rightarrow> (string \<Rightarrow> bytes) \<Rightarrow> int \<Rightarrow> upload_map \<Rightarrow>
     ('m, upload_map) act" where
  "local_small_block dd search blockSize blk i uploads =
     (let token = tc_deriveUploadToken (dd_twelveC dd) search i in
      abind (alift (assertWireBlockSize token (blk token) blockSize)) (\<lambda>wire.
      areturn (jm_set token wire uploads)))"

definition local_small ::
    "('m, 'p) download_deps \<Rightarrow> string \<Rightarrow> string \<Rightarrow> (string \<Rightarrow> bytes) \<Rightarrow> string \<Rightarrow> bytes \<Rightarrow> SmbMetadata \<Rightarrow>
     ('m, bytes) act" where
  "local_small dd credential search blk token0 wire md =
     abind (afold (local_small_block dd search (wireBlockSize md) blk) [1..numTokens md - 1]
              (jm_set token0 wire []))
       (tc_receiveFromUploadMap (dd_twelveC dd) credential)"

definition local_file ::
    "('m, 'p) download_deps \<Rightarrow> string \<Rightarrow> string \<Rightarrow> (string \<Rightarrow> bytes) \<Rightarrow> bytes \<times> SmbMetadata \<Rightarrow>
     ('m, download_result) act" where
  "local_file dd credential search blk block = (case block of (wire, md) \<Rightarrow>
     let fileName = resolveReceivedFileName (originalFileName md) credential in
     if V21_WHOLE_FILE_THRESHOLD_BYTES < originalFileLength md
     then abind (local_large dd credential search blk wire md)
       (\<lambda>data. abind (alift (lengths_equal (dd_toNumber dd) (int (length data)) (originalFileLength md)))
         (\<lambda>same. if \<not> same then athrow (size_mismatch (int (length data)) (originalFileLength md))
                 else areturn \<lparr>dl_data = data, dl_fileName = fileName\<rparr>))
     else abind (local_small dd credential search blk (tc_deriveUploadToken (dd_twelveC dd) search 0) wire md)
       (\<lambda>data. areturn \<lparr>dl_data = data, dl_fileName = fileName\<rparr>))"

definition local_metadata ::
    "('m, 'p) download_deps \<Rightarrow> string \<Rightarrow> bytes \<Rightarrow> ('m, bytes \<times> SmbMetadata) act" where
  "local_metadata dd credential wire =
     abind (tc_parseSmbEncrypted (dd_twelveC dd) credential wire) (\<lambda>md.
       if int (length wire) \<noteq> wireBlockSize md
       then athrow (token0_mismatch (length wire) (wireBlockSize md)) else areturn (wire, md))"

definition local_receive ::
    "('m, 'p) download_deps \<Rightarrow> string \<Rightarrow> string \<Rightarrow> (string \<Rightarrow> bytes) \<Rightarrow> ('m, download_result) act" where
  "local_receive dd credential search blk =
     abind (local_metadata dd credential (blk (tc_deriveUploadToken (dd_twelveC dd) search 0)))
       (local_file dd credential search blk)"

section \<open>Simulation\<close>

text \<open>
  \<open>sim R f g\<close>: while the transport has \<open>R\<close>, \<open>f\<close> does to the memory of the module what \<open>g\<close> does, with
  the same result, and the transport keeps \<open>R\<close>.
\<close>

definition sim ::
    "('p \<Rightarrow> bool) \<Rightarrow> (('m, 'p) download_world, 'a) act \<Rightarrow> ('m, 'a) act \<Rightarrow> bool" where
  "sim R f g \<longleftrightarrow> (\<forall>m p t. R p \<longrightarrow>
     (\<exists>p' t'. f (m, p, t) = (fst (g m), snd (g m), p', t') \<and> R p'))"

lemma simI:
  assumes "\<And>m p t. R p \<Longrightarrow> \<exists>p' t'. f (m, p, t) = (fst (g m), snd (g m), p', t') \<and> R p'"
  shows "sim R f g"
  using assms by (simp add: sim_def)

lemma simD:
  assumes "sim R f g" "R p" "g m = (r, m')"
  obtains p' t' where "f (m, p, t) = (r, m', p', t')" "R p'"
proof -
  from assms(1,2) obtain p' t' where "f (m, p, t) = (fst (g m), snd (g m), p', t')" "R p'"
    unfolding sim_def by blast
  with assms(3) show thesis by (intro that) simp_all
qed

lemma sim_bind:
  assumes "sim R f g" "\<And>x. sim R (h x) (k x)"
  shows "sim R (abind f h) (abind g k)"
proof (rule simI)
  fix m p t assume R: "R p"
  obtain r m1 where g: "g m = (r, m1)" by fastforce
  obtain p1 t1 where f: "f (m, p, t) = (r, m1, p1, t1)" "R p1" by (rule simD [OF assms(1) R g])
  show "\<exists>p' t'. abind f h (m, p, t) = (fst (abind g k m), snd (abind g k m), p', t') \<and> R p'"
  proof (cases r)
    case (Inl e)
    with f g show ?thesis by simp
  next
    case (Inr x)
    obtain r2 m2 where k: "k x m1 = (r2, m2)" by fastforce
    obtain p2 t2 where "h x (m1, p1, t1) = (r2, m2, p2, t2)" "R p2" by (rule simD [OF assms(2) f(2) k])
    with f g Inr k show ?thesis by simp
  qed
qed

text \<open>Steps that only concern the transport and the reports.\<close>

definition silent_step :: "('p \<Rightarrow> bool) \<Rightarrow> (('m, 'p) download_world, unit) act \<Rightarrow> bool" where
  "silent_step R f \<longleftrightarrow> sim R f (areturn ())"

lemma silentI:
  assumes "\<And>m p t. R p \<Longrightarrow> \<exists>p' t'. f (m, p, t) = (Inr (), m, p', t') \<and> R p'"
  shows "silent_step R f"
  unfolding silent_step_def using assms by (intro simI) simp

lemma sim_silent:
  assumes "silent_step R f" "sim R h k"
  shows "sim R (aseq f h) k"
proof (rule simI)
  fix m p t assume R: "R p"
  obtain p1 t1 where f: "f (m, p, t) = (Inr (), m, p1, t1)" "R p1"
    by (rule simD [OF assms(1) [unfolded silent_step_def] R, of m "Inr ()" m]) auto
  obtain r m' where k: "k m = (r, m')" by fastforce
  obtain p2 t2 where "h (m, p1, t1) = (r, m', p2, t2)" "R p2" by (rule simD [OF assms(2) f(2) k])
  with f k show "\<exists>p' t'. aseq f h (m, p, t) = (fst (k m), snd (k m), p', t') \<and> R p'" by simp
qed

lemma sim_seq: "sim R f g \<Longrightarrow> sim R h k \<Longrightarrow> sim R (aseq f h) (aseq g k)"
  unfolding aseq_def by (rule sim_bind)

lemma sim_basic:
  "sim R (areturn x) (areturn x)" "sim R (athrow e) (athrow e)" "sim R (alift r) (alift r)"
  "sim R (on_memory g) g"
  by (rule simI, force simp: on_memory_def split: prod.split)+

lemma sim_if: "(c \<Longrightarrow> sim R f g) \<Longrightarrow> (\<not> c \<Longrightarrow> sim R h k) \<Longrightarrow> sim R (if c then f else h) (if c then g else k)"
  by simp

lemma silent_if: "(c \<Longrightarrow> silent_step R f) \<Longrightarrow> (\<not> c \<Longrightarrow> silent_step R h) \<Longrightarrow> silent_step R (if c then f else h)"
  by simp

lemma silent_return: "silent_step R (areturn ())"
  by (rule silentI) simp

lemma silent_seq: "silent_step R f \<Longrightarrow> silent_step R h \<Longrightarrow> silent_step R (aseq f h)"
  using sim_silent unfolding silent_step_def .

lemma sim_afold:
  assumes "\<And>x a. x \<in> set xs \<Longrightarrow> sim R (body x a) (spec x a)"
  shows "sim R (afold body xs a) (afold spec xs a)"
  using assms by (induction xs arbitrary: a) (auto intro: sim_bind sim_basic(1) simp del: act_run)

lemma sim_catch:
  assumes "\<And>e. sim R (h e) (k e)"
  shows "sim R (acatch (on_memory g) h) (acatch g k)"
proof (rule simI)
  fix m p t assume R: "R p"
  obtain r m1 where g: "g m = (r, m1)" by fastforce
  show "\<exists>p' t'. acatch (on_memory g) h (m, p, t) = (fst (acatch g k m), snd (acatch g k m), p', t') \<and> R p'"
  proof (cases r)
    case (Inl e)
    obtain r2 m2 where k: "k e m1 = (r2, m2)" by fastforce
    obtain p2 t2 where "h e (m1, p, t) = (r2, m2, p2, t2)" "R p2" by (rule simD [OF assms R k])
    with g Inl k show ?thesis by (simp add: acatch_def on_memory_def)
  next
    case (Inr x)
    with g R show ?thesis by (simp add: acatch_def on_memory_def)
  qed
qed

section \<open>Sessions under the download\<close>

lemma after_chunk_id [simp]: "after_chunk id k w = w"
  by (simp add: after_chunk_def)

lemma drain_loop_sim:
  fixes f :: "int \<Rightarrow> ('m, bytes) act" and port :: "'p receive_port"
  assumes "\<And>p. R p \<Longrightarrow> R (po_idle port p)"
  shows "R p \<Longrightarrow> drain_loop f id k acc m = (r, acc', m') \<Longrightarrow>
    \<exists>p' t'. drain_loop (\<lambda>n. on_memory (f n)) (idle_world port token0) k acc (m, p, t) =
      (r, acc', m', p', t') \<and> R p'"
proof (induction f "id :: 'm \<Rightarrow> 'm" k acc m arbitrary: p t rule: drain_loop.induct)
  case (1 f k acc m)
  obtain c m1 where c: "f RECEIVE_PLAINTEXT_EXPORT_CHUNK_BYTES m = (c, m1)" by fastforce
  then have lc: "on_memory (f RECEIVE_PLAINTEXT_EXPORT_CHUNK_BYTES) (m, p, t) = (c, m1, p, t)"
    by (rule on_memory_run)
  show ?case
  proof (cases c)
    case (Inl e)
    with "1.prems" c lc show ?thesis by (simp add: drain_loop.simps [of f] drain_loop.simps)
  next
    case (Inr chunk)
    consider "chunk = [] \<or> length (pa_buffer acc) < pa_offset acc + length chunk"
      | "chunk \<noteq> []" "\<not> length (pa_buffer acc) < pa_offset acc + length chunk" by blast
    then show ?thesis
    proof cases
      case 1
      with "1.prems" c lc Inr show ?thesis
        by (subst drain_loop.simps, subst (asm) drain_loop.simps) (auto split: if_splits)
    next
      case 2
      obtain p1 t1 where w1: "after_chunk (idle_world port token0) (Suc k) (m1, p, t) = (m1, p1, t1)" "R p1"
        using "1.prems"(1) assms
        by (cases "Suc k mod 4 = 0") (auto simp: after_chunk_def idle_world_def)
      have "drain_loop f id (Suc k) (append_chunk chunk acc) m1 = (r, acc', m')"
        using "1.prems"(2) c Inr 2 by (subst (asm) drain_loop.simps) simp
      then obtain p' t' where "drain_loop (\<lambda>n. on_memory (f n)) (idle_world port token0) (Suc k)
          (append_chunk chunk acc) (m1, p1, t1) = (r, acc', m', p', t')" "R p'"
        using "1.hyps" [OF c [symmetric] Inr 2 w1(2), of t1] by auto
      with lc Inr 2 w1(1) show ?thesis by (subst drain_loop.simps) simp
    qed
  qed
qed

lemma drainSession_sim:
  assumes "\<And>p. R p \<Longrightarrow> R (po_idle port p)" "R p" "drainSession id s acc m = (r, acc', m')"
  shows "\<exists>p' t'. drainSession (idle_world port token0) (lift_session s) acc (m, p, t) =
    (r, acc', m', p', t') \<and> R p'"
proof (cases "rs_takePlaintextChunk s")
  case None
  with assms(2,3) show ?thesis by (simp add: drainSession_def lift_session_def)
next
  case (Some f)
  with assms(3) have "drain_loop f id 0 acc m = (r, acc', m')" by (simp add: drainSession_def)
  from drain_loop_sim [of R, OF assms(1,2) this] Some show ?thesis
    by (simp add: drainSession_def lift_session_def)
qed

lemma drain_sim:
  assumes "\<And>p. R p \<Longrightarrow> R (po_idle port p)"
  shows "sim R (drain_into (idle_world port token0) (lift_session s) acc) (drain_into id s acc)"
proof (rule simI)
  fix m p t assume R: "R p"
  obtain r acc' m' where d: "drainSession id s acc m = (r, acc', m')" by (metis prod_cases3)
  from drainSession_sim [of R, OF assms R d] obtain p' t' where
    "drainSession (idle_world port token0) (lift_session s) acc (m, p, t) = (r, acc', m', p', t')" "R p'"
    by blast
  with d show "\<exists>p' t'. drain_into (idle_world port token0) (lift_session s) acc (m, p, t) =
      (fst (drain_into id s acc m), snd (drain_into id s acc m), p', t') \<and> R p'"
    by (cases r) (simp_all add: drain_into_def)
qed

lemma finish_lifted:
  "finish_session (lift_session s) (m, p, t) =
     (fst (finish_session s m), snd (finish_session s m), p, t)"
  by (auto simp: finish_session_def lift_session_def abind_def aseq_def on_memory_def
      split: option.split prod.split sum.split)

lemma blob_sim:
  assumes "\<And>p. R p \<Longrightarrow> R (po_idle port p)"
  shows "sim R (blob_from num (idle_world port token0) (lift_session s) acc) (blob_from num id s acc)"
proof (rule simI)
  fix m p t assume R: "R p"
  obtain f m1 where f: "finish_session s m = (f, m1)" by fastforce
  obtain r acc' m' where d: "drainSession id s acc m1 = (r, acc', m')" by (metis prod_cases3)
  from drainSession_sim [of R, OF assms R d] obtain p' t' where
    "drainSession (idle_world port token0) (lift_session s) acc (m1, p, t) = (r, acc', m', p', t')" "R p'"
    by blast
  with d f R show "\<exists>p' t'. blob_from num (idle_world port token0) (lift_session s) acc (m, p, t) =
      (fst (blob_from num id s acc m), snd (blob_from num id s acc m), p', t') \<and> R p'"
    by (auto simp: blob_from_def finalize_buffer_def finish_lifted split: sum.split option.split)
qed

lemma announced_sim: "sim R (announced_length (lift_session s)) (announced_length s)"
  by (cases "rs_originalFileLength s")
    (simp_all add: announced_length_def lift_session_def sim_basic del: act_run)

lemma outdated_sim: "sim R (outdated_session e) (outdated_session e)"
  unfolding outdated_session_def by (intro sim_if sim_basic)

lemma report_silent: "silent_step R (report s)" "silent_step R (report_downloading port c n b)"
    "silent_step R (amodify (\<lambda>(m, p, t). (m, p, h p t)))"
  by (rule silentI, simp add: report_def report_downloading_def)+

section \<open>The contract of a transport\<close>

locale serving_port =
  fixes port :: "'p receive_port" and serving :: "string set \<Rightarrow> 'p \<Rightarrow> bool" and blk :: "string \<Rightarrow> bytes"
  assumes start: "serving S p \<Longrightarrow> \<exists>p'. po_startConcurrentGet port tokens p = (Inr (), p') \<and> serving S p'"
    and getting: "serving S p \<Longrightarrow> token \<in> S \<Longrightarrow> \<exists>p'. po_get port token p = (Inr (blk token), p') \<and> serving S p'"
    and cancelling: "serving S p \<Longrightarrow> set tokens \<inter> S = {} \<Longrightarrow> serving S (po_cancelPending port tokens p)"
    and idling: "serving S p \<Longrightarrow> serving S (po_idle port p)"
    and fewer: "serving S p \<Longrightarrow> S' \<subseteq> S \<Longrightarrow> serving S' p"
    and settings: "serving S p \<Longrightarrow> po_fetch port = Some fx \<Longrightarrow>
      serving S (fx_setExpected fx n p) \<and> serving S (fx_setListener fx b p)"
begin

lemma port_silent:
  "(\<And>p. serving S p \<Longrightarrow> \<exists>p'. f p = (Inr (), p') \<and> serving S p') \<Longrightarrow>
     silent_step (serving S) (on_port port token0 f)"
  by (rule silentI) (force simp: on_port_def)

lemma yield_silent: "silent_step (serving S) (yieldToBrowser port token0)"
  by (rule silentI) (simp add: yieldToBrowser_def idle_world_def idling)

lemma expected_silent: "silent_step (serving S) (set_expected port token0 n)"
proof (cases "po_fetch port")
  case None
  then show ?thesis by (simp add: set_expected_def silent_return del: act_run)
next
  case (Some fx)
  have "silent_step (serving S) (on_port port token0 (amodify (fx_setExpected fx n)))"
    by (rule port_silent) (simp add: settings [OF _ Some])
  with Some show ?thesis by (simp add: set_expected_def)
qed

lemma get_sim: "token \<in> S \<Longrightarrow> sim (serving S) (on_port port token0 (po_get port token)) (areturn (blk token))"
proof (rule simI)
  fix m p t assume "token \<in> S" "serving S p"
  then obtain p' where "po_get port token p = (Inr (blk token), p')" "serving S p'" using getting by blast
  then show "\<exists>p' t'. on_port port token0 (po_get port token) (m, p, t) =
      (fst (areturn (blk token) m), snd (areturn (blk token) m), p', t') \<and> serving S p'"
    by (simp add: on_port_def)
qed

lemma start_silent: "silent_step (serving S) (on_port port token0 (po_startConcurrentGet port tokens))"
  by (intro port_silent start)

lemma cancel_silent:
  "set tokens \<inter> S = {} \<Longrightarrow> silent_step (serving S) (on_port port token0 (amodify (po_cancelPending port tokens)))"
  by (rule port_silent) (simp add: cancelling)

end

text \<open>The prefetch width stays positive when the block size becomes known.\<close>

lemma prefetch_width_pos: "0 < prefetch_width dd options 0 \<Longrightarrow> 0 < prefetch_width dd options b"
  by (auto simp: prefetch_width_def resolveReceivePrefetchCount_def resolveBrowserReceivePrefetchCount_def
      no_prefetch_options_def Let_def max_def split: option.splits if_splits)

text \<open>The tokens of a file are served; those of other indices are others.\<close>

definition tokens_of :: "('m, 'p) download_deps \<Rightarrow> string \<Rightarrow> int \<Rightarrow> string set" where
  "tokens_of dd search n = tc_deriveUploadToken (dd_twelveC dd) search ` {0..<n}"

lemma tokens_of_mem: "0 \<le> i \<Longrightarrow> i < n \<Longrightarrow> tc_deriveUploadToken (dd_twelveC dd) search i \<in> tokens_of dd search n"
  by (simp add: tokens_of_def)

lemma tokens_of_disjoint:
  assumes "inj (tc_deriveUploadToken (dd_twelveC dd) search)" "n \<le> i"
  shows "set (index_tokens (tc_deriveUploadToken (dd_twelveC dd)) search i j) \<inter> tokens_of dd search n = {}"
  using assms by (auto simp: set_index_tokens tokens_of_def dest: injD)

context serving_port
begin

lemma prefetch_silent:
  "dd_port dd = port \<Longrightarrow> silent_step (serving S) (prefetchIndexRange dd token0 search i j)"
  by (auto simp: prefetchIndexRange_def abind_units start_silent silent_return simp del: act_run)

lemma cancel_range_silent:
  fixes dd :: "('m, 'p) download_deps"
  assumes "dd_port dd = port" "inj (tc_deriveUploadToken (dd_twelveC dd) search)" "n \<le> i"
  shows "silent_step (serving (tokens_of dd search n)) (cancelIndexRange dd token0 search i j)"
proof -
  have "silent_step (serving (tokens_of dd search n)) (on_port port token0
      (amodify (po_cancelPending port (index_tokens (tc_deriveUploadToken (dd_twelveC dd)) search i j)))
        :: (('m, 'p) download_world, unit) act)"
    by (intro cancel_silent tokens_of_disjoint assms(2,3))
  then show ?thesis
    by (simp add: cancelIndexRange_def assms(1) abind_units silent_return del: act_run)
qed

lemma large_block_sim:
  assumes "dd_port dd = port" "tc_deriveUploadToken (dd_twelveC dd) search i \<in> S"
  shows "sim (serving S) (large_block dd token0 search b n w (lift_session s) i acc)
    (local_large_block dd search b blk s i acc)"
proof -
  let ?token = "tc_deriveUploadToken (dd_twelveC dd) search i"
  have spec: "local_large_block dd search b blk s i acc = abind (areturn (blk ?token)) (\<lambda>data.
      abind (alift (assertWireBlockSize ?token (cloneWireBlock data) b)) (\<lambda>wire.
      aseq (rs_addWireToken s i wire) (abind (drain_into id s acc) areturn)))"
    by (simp only: local_large_block_def Let_def abind_units cloneWireBlock_def)
  have add: "sim (serving S) (rs_addWireToken (lift_session s) i wire) (rs_addWireToken s i wire)" for wire
    by (simp add: lift_session_def sim_basic)
  have drain: "sim (serving S) (drain_into (idle_world port token0) (lift_session s) acc) (drain_into id s acc)"
    by (rule drain_sim) (rule idling)
  show ?thesis
    unfolding spec large_block_def Let_def assms(1)
    by (intro sim_silent sim_bind sim_seq report_silent yield_silent prefetch_silent get_sim sim_basic
        add drain silent_if silent_return assms)
qed

lemma small_block_sim:
  assumes "dd_port dd = port" "tc_deriveUploadToken (dd_twelveC dd) search i \<in> S"
  shows "sim (serving S) (small_block dd token0 search b n i uploads)
    (local_small_block dd search b blk i uploads)"
proof -
  let ?token = "tc_deriveUploadToken (dd_twelveC dd) search i"
  have spec: "local_small_block dd search b blk i uploads = abind (areturn (blk ?token)) (\<lambda>data.
      abind (alift (assertWireBlockSize ?token data b)) (\<lambda>wire. areturn (jm_set ?token wire uploads)))"
    by (simp only: local_small_block_def Let_def abind_units)
  show ?thesis
    unfolding spec small_block_def Let_def assms(1)
    by (intro sim_silent sim_bind report_silent get_sim sim_basic assms)
qed

lemma large_file_sim:
  assumes port: "dd_port dd = port" and S: "S = tokens_of dd search (numTokens md)"
  shows "sim (serving S) (decryptDownloadedLargeFile dd token0 credential search wire (wireBlockSize md)
      (numTokens md) (originalFileLength md) w)
    (local_large dd credential search blk wire md)"
proof -
  have blocks: "sim (serving S)
      (afold (large_block dd token0 search (wireBlockSize md) (numTokens md) w (lift_session s)) [1..numTokens md - 1] acc)
      (afold (local_large_block dd search (wireBlockSize md) blk s) [1..numTokens md - 1] acc)" for s acc
    by (rule sim_afold) (auto simp: S intro!: large_block_sim [OF port] tokens_of_mem)
  have blob: "sim (serving S) (blob_from num (idle_world port token0) (lift_session s) acc) (blob_from num id s acc)"
    for num s acc
    by (rule blob_sim) (rule idling)
  show ?thesis
    unfolding decryptDownloadedLargeFile_def local_large_def Let_def port
    by (intro sim_bind sim_catch outdated_sim announced_sim sim_basic blocks sim_silent report_silent blob)
qed

lemma small_file_sim:
  assumes port: "dd_port dd = port" and S: "S = tokens_of dd search (numTokens md)"
  shows "sim (serving S) (download_small dd token0 credential search wire md w later)
    (local_small dd credential search blk token0 wire md)"
proof -
  have blocks: "sim (serving S)
      (afold (small_block dd token0 search (wireBlockSize md) (numTokens md)) [1..numTokens md - 1] uploads)
      (afold (local_small_block dd search (wireBlockSize md) blk) [1..numTokens md - 1] uploads)" for uploads
    by (rule sim_afold) (auto simp: S intro!: small_block_sim [OF port] tokens_of_mem)
  show ?thesis
    unfolding download_small_def local_small_def Let_def port
    by (intro sim_silent sim_bind silent_if silent_seq silent_return report_silent yield_silent start_silent
        blocks sim_basic)
qed

lemma download_file_sim:
  assumes port: "dd_port dd = port" and inj: "inj (tc_deriveUploadToken (dd_twelveC dd) search)"
    and width: "0 < prefetch_width dd options (wireBlockSize md)"
      "min (numTokens md) m \<le> prefetch_width dd options (wireBlockSize md)"
  shows "sim (serving (tokens_of dd search (numTokens md)))
    (download_file dd options (tc_deriveUploadToken (dd_twelveC dd) search 0) credential search m (wire, md))
    (local_file dd credential search blk (wire, md))"
proof -
  let ?w = "prefetch_width dd options (wireBlockSize md)"
  let ?derive = "tc_deriveUploadToken (dd_twelveC dd)"
  have range1: "silent_step (serving (tokens_of dd search (numTokens md)))
      (if ?w < m then cancelIndexRange dd (?derive search 0) search ?w m else areturn ())"
    using width(2) by (intro silent_if silent_return cancel_range_silent [OF port inj]) auto
  have range2: "silent_step (serving (tokens_of dd search (numTokens md)))
      (if (if numTokens md < ?w then index_tokens ?derive search (numTokens md) ?w else []) \<noteq> []
       then on_port port (?derive search 0) (amodify (po_cancelPending port
         (if numTokens md < ?w then index_tokens ?derive search (numTokens md) ?w else [])))
       else areturn ())"
    using tokens_of_disjoint [OF inj order_refl, where j = ?w]
    by (intro silent_if silent_return cancel_silent) auto
  show ?thesis
    unfolding download_file_def local_file_def prod.case Let_def computeReceiveDownloadPlan_ok [OF width(1)]
      abind_units receive_download_plan.simps port
    by (intro sim_silent report_silent range1 range2 sim_if sim_bind large_file_sim [OF port refl]
        small_file_sim [OF port refl] sim_basic)
qed

lemma fetch_metadata_sim:
  assumes "dd_port dd = port" "token0 \<in> S"
  shows "sim (serving S) (fetch_metadata dd token0 credential search m limit)
    (local_metadata dd credential (blk token0))"
proof -
  have spec: "local_metadata dd credential (blk token0) = abind (areturn (blk token0)) (\<lambda>data.
      abind (tc_parseSmbEncrypted (dd_twelveC dd) credential (cloneWireBlock data)) (\<lambda>md.
        if int (length (cloneWireBlock data)) \<noteq> wireBlockSize md
        then athrow (token0_mismatch (length (cloneWireBlock data)) (wireBlockSize md))
        else areturn (cloneWireBlock data, md)))"
    by (simp only: local_metadata_def abind_units cloneWireBlock_def)
  show ?thesis
    unfolding spec fetch_metadata_def Let_def assms(1)
    by (intro sim_silent sim_bind report_silent yield_silent expected_silent prefetch_silent get_sim
        sim_if sim_basic assms)
qed

end

lemma detached:
  "\<exists>p' t'. (case (m, p, t) of (m, w) \<Rightarrow> (m, detach_listener port w)) = (m, p', t')"
  by (cases "detach_listener port (p, t)") simp

context serving_port
begin

lemma attached:
  assumes "serving S p"
  shows "\<exists>p' t'. attachDownloadActivityListener port (p, t) = (p', t') \<and> serving S p'"
  using assms settings [OF assms]
  by (auto simp: attachDownloadActivityListener_def split: option.split)

lemma run_delivers:
  assumes port: "dd_port dd = port" and width: "0 < prefetch_width dd options 0"
    and p: "serving S p" "tc_deriveUploadToken (dd_twelveC dd) search 0 \<in> S"
    and inj: "inj (tc_deriveUploadToken (dd_twelveC dd) search)"
    and known: "\<And>wire md m'. local_metadata dd credential (blk (tc_deriveUploadToken (dd_twelveC dd) search 0)) m =
        (Inr (wire, md), m') \<Longrightarrow> tokens_of dd search (numTokens md) \<subseteq> S \<and>
      min (numTokens md) (prefetch_width dd options 0) \<le> prefetch_width dd options (wireBlockSize md)"
  shows "\<exists>p' t'. download_run dd options credential search (m, p, t) =
    (fst (local_receive dd credential search blk m), snd (local_receive dd credential search blk m), p', t')"
proof -
  let ?token0 = "tc_deriveUploadToken (dd_twelveC dd) search 0"
  let ?m = "prefetch_width dd options 0"
  let ?limit = "default_to (do_relayMaxBodyBytes options) DEFAULT_RELAY_MAX_BODY_BYTES"
  let ?body = "abind (fetch_metadata dd ?token0 credential search ?m ?limit)
    (download_file dd options ?token0 credential search ?m)"
  obtain p1 t1 where a: "attachDownloadActivityListener port (p, t) = (p1, t1)" "serving S p1"
    using attached [OF p(1)] by blast
  obtain r m1 where md: "local_metadata dd credential (blk ?token0) m = (r, m1)" by fastforce
  obtain p2 t2 where f: "fetch_metadata dd ?token0 credential search ?m ?limit (m, p1, t1) = (r, m1, p2, t2)"
    "serving S p2"
    by (rule simD [OF fetch_metadata_sim [OF port p(2)] a(2) md])
  have "\<exists>p' t'. ?body (m, p1, t1) =
    (fst (local_receive dd credential search blk m), snd (local_receive dd credential search blk m), p', t')"
  proof (cases r)
    case (Inl e)
    with f md show ?thesis by (simp add: local_receive_def)
  next
    case (Inr block)
    obtain wire md' where block: "block = (wire, md')" by fastforce
    note k = known [OF md [unfolded Inr block]]
    have p2: "serving (tokens_of dd search (numTokens md')) p2" using fewer [OF f(2)] k by blast
    obtain r2 m2 where s: "local_file dd credential search blk block m1 = (r2, m2)" by fastforce
    obtain p3 t3 where "download_file dd options ?token0 credential search ?m block (m1, p2, t2) = (r2, m2, p3, t3)"
      using download_file_sim [OF port inj prefetch_width_pos [OF width] conjunct2 [OF k], of credential wire]
        p2 s unfolding block by (rule simD)
    with f md s Inr show ?thesis by (simp add: local_receive_def)
  qed
  then obtain p' t' where body: "?body (m, p1, t1) =
    (fst (local_receive dd credential search blk m), snd (local_receive dd credential search blk m), p', t')"
    by blast
  obtain p4 t4 where d: "detach_listener port (p', t') = (p4, t4)" by fastforce
  from a(1) body d have "download_run dd options credential search (m, p, t) =
    (fst (local_receive dd credential search blk m), snd (local_receive dd credential search blk m), p4, t4)"
    by (simp add: download_run_def Let_def port aseq_def)
  then show ?thesis by blast
qed

lemma delivers:
  assumes "dd_port dd = port" "0 < prefetch_width dd options 0" "splitCredential credential = Inr parts"
    and "serving S p" "tc_deriveUploadToken (dd_twelveC dd) (searchCode parts) 0 \<in> S"
    and "inj (tc_deriveUploadToken (dd_twelveC dd) (searchCode parts))"
    and "\<And>wire md m'. local_metadata dd credential
        (blk (tc_deriveUploadToken (dd_twelveC dd) (searchCode parts) 0)) m = (Inr (wire, md), m') \<Longrightarrow>
      tokens_of dd (searchCode parts) (numTokens md) \<subseteq> S \<and>
      min (numTokens md) (prefetch_width dd options 0) \<le> prefetch_width dd options (wireBlockSize md)"
  shows "\<exists>reports p'. downloadAdaptive dd options credential (m, p) =
    (fst (local_receive dd credential (searchCode parts) blk m), reports,
     snd (local_receive dd credential (searchCode parts) blk m), p')"
proof -
  have "\<exists>p' t'. download_run dd options credential (searchCode parts)
      (m, p, tracker_new (do_onStatus options) (prefetch_width dd options 0) (prefetch_width dd options 0 *
        default_to (do_relayMaxBodyBytes options) DEFAULT_RELAY_MAX_BODY_BYTES)) =
    (fst (local_receive dd credential (searchCode parts) blk m),
     snd (local_receive dd credential (searchCode parts) blk m), p', t')"
    by (rule run_delivers [OF assms(1,2,4-6)]) (rule assms(7))
  with assms(2,3) show ?thesis by (auto simp: downloadAdaptive_def Let_def)
qed

end

section \<open>The receive transport as a port\<close>

text \<open>
  While the download awaits something else, the GETs that \<open>sched\<close> picks settle, in its order.
\<close>

definition settle_get :: "'e backend \<Rightarrow> string \<Rightarrow> 'e world \<Rightarrow> 'e world" where
  "settle_get b token w = snd (solo_body b token w)"

definition solo_port ::
    "receive_config \<Rightarrow> 'e backend \<Rightarrow> ('e world \<Rightarrow> string list) \<Rightarrow> 'e world receive_port" where
  "solo_port cfg b sched =
     \<lparr> po_startConcurrentGet = transport_start b, po_cancelPending = transport_cancel,
       po_get = transport_get cfg (solo_env b), po_inFlightCount = Some (\<lambda>w. inFlightCount (fst w)),
       po_fetch = Some \<lparr> fx_received = (\<lambda>w. getReceivedWireBytesNotConsumed (fst w)),
         fx_setExpected = (\<lambda>n w. (setExpectedWireBlockBytes (Some n) (fst w), snd w)),
         fx_setListener = (\<lambda>on w. (setActivityListener on (fst w), snd w)),
         fx_log = (\<lambda>w. rt_log (fst w)) \<rparr>,
       po_idle = (\<lambda>w. fold (settle_get b) (sched w) w) \<rparr>"

text \<open>
  A registry that answers and knows the tokens of \<open>S\<close>, and relays that serve their blocks.
\<close>

definition honest_backend :: "'e backend \<Rightarrow> string set \<Rightarrow> (string \<Rightarrow> bytes) \<Rightarrow> bool" where
  "honest_backend b S blk \<longleftrightarrow>
     (\<forall>tokens e. \<exists>m e'. be_resolveMany b tokens e = (Inr m, e') \<and>
        (\<forall>t\<in>set tokens \<inter> S. jm_get m t \<noteq> None)) \<and>
     (\<forall>t\<in>S. \<forall>ep e. fst (be_get b t ep e) = Inr (blk t))"

definition entry_serves :: "bytes \<Rightarrow> pending_get option \<Rightarrow> bool" where
  "entry_serves data entry \<longleftrightarrow> (case entry of
     None \<Rightarrow> True
   | Some pg \<Rightarrow> pg_outcome pg = None \<and> pg_endpoint pg \<noteq> None \<or> pg_outcome pg = Some (Inr data))"

definition transport_serves :: "(string \<Rightarrow> bytes) \<Rightarrow> string set \<Rightarrow> receive_transport \<Rightarrow> bool" where
  "transport_serves blk S s \<longleftrightarrow> (\<forall>t. jm_get (rt_inflight s) t = None) \<and>
     (\<forall>t\<in>S. t \<notin> rt_cancelledBeforeResolve s \<and> entry_serves (blk t) (jm_get (rt_pending s) t))"

definition solo_serving :: "'e backend \<Rightarrow> (string \<Rightarrow> bytes) \<Rightarrow> string set \<Rightarrow> 'e world \<Rightarrow> bool" where
  "solo_serving b blk S w \<longleftrightarrow> honest_backend b S blk \<and> transport_serves blk S (fst w)"

lemma transport_serves_cong:
  "rt_inflight s' = rt_inflight s \<Longrightarrow> rt_pending s' = rt_pending s \<Longrightarrow>
   rt_cancelledBeforeResolve s' = rt_cancelledBeforeResolve s \<Longrightarrow>
     transport_serves blk S s' = transport_serves blk S s"
  by (simp add: transport_serves_def)

lemma transport_serves_log [simp]:
  "transport_serves blk S (emitActivity a s) = transport_serves blk S s"
  "transport_serves blk S (emitDownloadByteProgress s) = transport_serves blk S s"
  by (rule transport_serves_cong; simp)+

lemma entry_serves_simps [simp]:
  "entry_serves data None"
  "entry_serves data (Some \<lparr>pg_endpoint = Some ep, pg_outcome = None\<rparr>)"
  by (simp_all add: entry_serves_def)

text \<open>A change that only touches entries of other tokens, or keeps an entry serving.\<close>

lemma transport_servesI:
  assumes "transport_serves blk S s" "\<And>t. jm_get (rt_inflight s') t = None"
    and "\<And>t. t \<in> S \<Longrightarrow> t \<in> rt_cancelledBeforeResolve s' \<Longrightarrow> t \<in> rt_cancelledBeforeResolve s"
    and "\<And>t. t \<in> S \<Longrightarrow> entry_serves (blk t) (jm_get (rt_pending s) t) \<Longrightarrow>
      entry_serves (blk t) (jm_get (rt_pending s') t)"
  shows "transport_serves blk S s'"
  using assms unfolding transport_serves_def by blast

lemma startGet_entries:
  "jm_get (rt_pending (startGet token ep s)) t =
     (if t = token then Some \<lparr>pg_endpoint = Some ep, pg_outcome = None\<rparr> else jm_get (rt_pending s) t)"
  "rt_inflight (startGet token ep s) = rt_inflight s"
  "rt_cancelledBeforeResolve (startGet token ep s) = rt_cancelledBeforeResolve s"
  by (simp_all add: startGet_def Let_def jm_get_set emitDownloadByteProgress_def)

lemma start_resolved_entries:
  "rt_inflight (start_resolved m ts s) = rt_inflight s"
  "entry_serves data (jm_get (rt_pending s) t) \<Longrightarrow>
     entry_serves data (jm_get (rt_pending (start_resolved m ts s)) t)"
  "jm_get (rt_pending s) t \<noteq> None \<or>
     t \<in> set ts \<and> t \<notin> rt_cancelledBeforeResolve s \<and> jm_get m t \<noteq> None \<Longrightarrow>
     jm_get (rt_pending (start_resolved m ts s)) t \<noteq> None"
  by (induction m ts s rule: start_resolved.induct)
    (auto simp: startGet_entries skips_def simp del: map_of_eq_None_iff split: option.split)

lemma fold_jm:
  "jm_get (fold jm_delete ts m) t = (if t \<in> set ts then None else jm_get m t)"
  "jm_get (fold (\<lambda>u. jm_set u v) ts m) t = (if t \<in> set ts then Some v else jm_get m t)"
  by (induction ts arbitrary: m) (auto simp: jm_get_delete jm_get_set)

lemma settled_serves:
  assumes "solo_serving b blk S (s, e)" "ensureTokensStarted tokens s = (needed, waits, s1)"
  shows "\<exists>s' e'. solo_settle b needed waits (s1, e) = (Inr (), s', e') \<and> solo_serving b blk S (s', e') \<and>
    (\<forall>t\<in>set tokens \<inter> S. jm_get (rt_pending s') t \<noteq> None)"
proof -
  have serves: "transport_serves blk S s" and honest: "honest_backend b S blk"
    using assms(1) by (simp_all add: solo_serving_def)
  have needed: "needed = needed_tokens tokens s" using assms(2) by (simp add: ensureTokensStarted_def Let_def)
  have asked: "t \<in> set needed" if "t \<in> set tokens \<inter> S" "jm_get (rt_pending s) t = None" for t
    using that serves by (auto simp: needed needed_tokens_def skips_def transport_serves_def)
  show ?thesis
  proof (cases "needed = []")
    case True
    then have "s1 = s" using assms(2) needed by (simp add: ensureTokensStarted_def Let_def)
    with True assms(1) asked show ?thesis by (auto simp: solo_settle_def)
  next
    case False
    obtain m e' where m: "be_resolveMany b needed e = (Inr m, e')" "\<forall>t\<in>set needed \<inter> S. jm_get m t \<noteq> None"
      using honest unfolding honest_backend_def by meson
    have s1: "rt_pending s1 = rt_pending s" "rt_cancelledBeforeResolve s1 = rt_cancelledBeforeResolve s"
      "\<And>t. t \<notin> set needed \<Longrightarrow> jm_get (rt_inflight s1) t = jm_get (rt_inflight s) t"
      using assms(2) by (auto simp: ensureTokensStarted_def Let_def fold_jm split: if_splits)
    define s' where "s' = snd (batch_settled needed (Inr m) s1)"
    have s': "batch_settled needed (Inr m) s1 = (Inr (), s')"
      "rt_pending s' = rt_pending (start_resolved m needed s1)"
      "rt_cancelledBeforeResolve s' = rt_cancelledBeforeResolve s"
      "jm_get (rt_inflight s') t = None" for t
      using s1 serves
      by (simp_all add: s'_def batch_settled_def resolveAndStart_def start_resolved_cancelled fold_jm
          start_resolved_entries transport_serves_def)
    have "transport_serves blk S s'"
      by (rule transport_servesI [OF serves]) (simp_all add: s' s1 start_resolved_entries)
    moreover have "jm_get (rt_pending s') t \<noteq> None" if "t \<in> set tokens \<inter> S" for t
      unfolding s'(2) using that asked [OF that] m(2) serves s1
      by (intro start_resolved_entries(3)) (auto simp: transport_serves_def)
    ultimately show ?thesis using False m(1) s'(1) honest by (auto simp: solo_settle_def solo_serving_def)
  qed
qed

lemma solo_start:
  assumes "solo_serving b blk S w"
  shows "\<exists>w'. transport_start b tokens w = (Inr (), w') \<and> solo_serving b blk S w'"
proof -
  obtain s e where w: "w = (s, e)" by fastforce
  obtain needed waits s1 where en: "ensureTokensStarted tokens s = (needed, waits, s1)" by (metis prod_cases3)
  from settled_serves [OF assms [unfolded w] en] en show ?thesis
    by (auto simp: w transport_start_def)
qed

lemma get_settled_inflight [simp]: "rt_inflight (get_settled t r s) = rt_inflight s"
  by (auto simp: get_settled_def Let_def emitDownloadByteProgress_def split: option.split sum.split)

lemma solo_body_serves:
  assumes "solo_serving b blk S (s, e)"
  shows "\<exists>r s' e'. solo_body b u (s, e) = (r, s', e') \<and> solo_serving b blk S (s', e') \<and>
    (u \<in> S \<and> jm_get (rt_pending s) u \<noteq> None \<longrightarrow> r = Inr (blk u))"
proof -
  have serves: "transport_serves blk S s" and honest: "honest_backend b S blk"
    using assms by (simp_all add: solo_serving_def)
  consider "jm_get (rt_pending s) u = None"
    | pg r where "jm_get (rt_pending s) u = Some pg" "pg_outcome pg = Some r"
    | pg ep where "jm_get (rt_pending s) u = Some pg" "pg_outcome pg = None" "pg_endpoint pg = Some ep"
    | pg where "jm_get (rt_pending s) u = Some pg" "pg_outcome pg = None" "pg_endpoint pg = None"
    by (metis option.exhaust)
  then show ?thesis
  proof cases
    case 1
    with assms show ?thesis by (simp add: solo_body_def)
  next
    case 2
    with serves have "u \<in> S \<longrightarrow> r = Inr (blk u)"
      by (fastforce simp: transport_serves_def entry_serves_def)
    with 2 assms show ?thesis by (simp add: solo_body_def)
  next
    case 3
    obtain r e' where r: "be_get b u ep e = (r, e')" by fastforce
    have "u \<in> S \<Longrightarrow> fst (be_get b u ep e) = Inr (blk u)" using honest by (simp add: honest_backend_def)
    with r have ok: "u \<in> S \<Longrightarrow> r = Inr (blk u)" by simp
    have "transport_serves blk S (get_settled u r s)"
      by (rule transport_servesI [OF serves])
        (use serves ok 3 in \<open>auto simp: transport_serves_def get_settled_fields jm_get_set settle_entry_def
          entry_serves_def split: option.splits\<close>)
    with 3 r ok honest show ?thesis by (simp add: solo_body_def solo_serving_def)
  next
    case 4
    with serves have "u \<notin> S" by (fastforce simp: transport_serves_def entry_serves_def)
    with 4 assms show ?thesis by (simp add: solo_body_def)
  qed
qed

lemma consume_success_entries:
  "rt_pending (consume_success t s) = jm_delete t (rt_pending s)"
  "rt_inflight (consume_success t s) = rt_inflight s"
  "rt_cancelledBeforeResolve (consume_success t s) = rt_cancelledBeforeResolve s - {t}"
  by (simp_all add: consume_success_def)

lemma solo_get:
  assumes "solo_serving b blk S w" "t \<in> S"
  shows "\<exists>w'. transport_get cfg (solo_env b) t w = (Inr (blk t), w') \<and> solo_serving b blk S w'"
proof -
  obtain s e where w: "w = (s, e)" by fastforce
  have t: "t \<notin> rt_cancelledBeforeResolve s" using assms by (auto simp: w solo_serving_def transport_serves_def)
  obtain needed waits s1 where en: "ensureTokensStarted [t] s = (needed, waits, s1)" by (metis prod_cases3)
  obtain s2 e2 where s2: "solo_settle b needed waits (s1, e) = (Inr (), s2, e2)" "solo_serving b blk S (s2, e2)"
    "jm_get (rt_pending s2) t \<noteq> None"
    using settled_serves [OF assms(1) [unfolded w] en] assms(2) by auto
  have t2: "t \<notin> rt_cancelledBeforeResolve s2" using s2(2) assms(2) by (auto simp: solo_serving_def transport_serves_def)
  obtain s3 e3 where s3: "solo_body b t (s2, e2) = (Inr (blk t), s3, e3)" "solo_serving b blk S (s3, e3)"
    using solo_body_serves [OF s2(2), of t] s2(3) assms(2) by auto
  obtain pg where pg: "jm_get (rt_pending s2) t = Some pg" using s2(3) by auto
  have serves3: "transport_serves blk S s3" using s3(2) by (simp add: solo_serving_def)
  have "transport_serves blk S (consume_success t s3)"
  proof (rule transport_servesI [OF serves3])
    show "jm_get (rt_inflight (consume_success t s3)) u = None" for u
      using serves3 unfolding consume_success_entries transport_serves_def by blast
  qed (simp_all add: consume_success_entries jm_get_delete)
  then have "solo_serving b blk S (consume_success t s3, e3)" using s3(2) by (simp add: solo_serving_def)
  moreover have "transport_get cfg (solo_env b) t w = (Inr (blk t), consume_success t s3, e3)"
    using t en s2(1) t2 pg s3(1)
    by (simp add: w transport_get_def get_rounds.simps get_round_def solo_env_def round_after_body_def)
  ultimately show ?thesis by blast
qed

lemma cancel_one_entries:
  "u \<noteq> t \<Longrightarrow> jm_get (rt_pending (cancel_one t s)) u = jm_get (rt_pending s) u"
  "rt_inflight (cancel_one t s) = rt_inflight s"
  by (auto simp: cancel_one_def Let_def jm_get_delete split: option.split)

lemma cancel_serves:
  assumes "transport_serves blk S s" "set ts \<inter> S = {}"
  shows "transport_serves blk S (cancelPending ts s)"
proof -
  have "transport_serves blk S s \<Longrightarrow> set ts \<inter> S = {} \<Longrightarrow> transport_serves blk S (fold cancel_one ts s)"
  proof (induction ts arbitrary: s)
    case (Cons t ts)
    have "u \<in> S \<Longrightarrow> u \<noteq> t" for u using Cons.prems(2) by auto
    then have "transport_serves blk S (cancel_one t s)"
      using Cons.prems(1)
      by (intro transport_servesI [OF Cons.prems(1)])
        (simp_all add: cancel_one_entries cancel_one_cancelled, simp add: transport_serves_def)
    with Cons show ?case by simp
  qed simp
  with assms show ?thesis by (simp add: cancelPending_def)
qed

lemma settings_serve [simp]:
  "transport_serves blk S (setExpectedWireBlockBytes n s) = transport_serves blk S s"
  "transport_serves blk S (setActivityListener on s) = transport_serves blk S s"
  by (rule transport_serves_cong; simp add: setExpectedWireBlockBytes_def setActivityListener_def)+

lemma solo_idle: "solo_serving b blk S w \<Longrightarrow> solo_serving b blk S (fold (settle_get b) ts w)"
proof (induction ts arbitrary: w)
  case (Cons t ts)
  obtain s e where w: "w = (s, e)" by fastforce
  from solo_body_serves [OF Cons.prems [unfolded w], of t] have "solo_serving b blk S (settle_get b t w)"
    by (auto simp: settle_get_def w)
  then show ?case using Cons.IH by simp
qed simp

lemma solo_fewer: "solo_serving b blk S w \<Longrightarrow> S' \<subseteq> S \<Longrightarrow> solo_serving b blk S' w"
  unfolding solo_serving_def honest_backend_def transport_serves_def by (meson IntD1 IntD2 IntI subsetD)

interpretation solo: serving_port "solo_port cfg b sched" "solo_serving b blk" blk
  for cfg b sched blk
proof
  fix S w w' tokens token fx n on
  assume w: "solo_serving b blk S w"
  show "\<exists>w'. po_startConcurrentGet (solo_port cfg b sched) tokens w = (Inr (), w') \<and> solo_serving b blk S w'"
    using solo_start [OF w] by (simp add: solo_port_def)
  show "token \<in> S \<Longrightarrow>
      \<exists>w'. po_get (solo_port cfg b sched) token w = (Inr (blk token), w') \<and> solo_serving b blk S w'"
    using solo_get [OF w] by (simp add: solo_port_def)
  show "set tokens \<inter> S = {} \<Longrightarrow> solo_serving b blk S (po_cancelPending (solo_port cfg b sched) tokens w)"
    using w by (simp add: solo_port_def transport_cancel_def solo_serving_def cancel_serves)
  show "solo_serving b blk S (po_idle (solo_port cfg b sched) w)"
    using solo_idle [OF w] by (simp add: solo_port_def)
  show "po_fetch (solo_port cfg b sched) = Some fx \<Longrightarrow>
      solo_serving b blk S (fx_setExpected fx n w) \<and> solo_serving b blk S (fx_setListener fx on w)"
    using w by (auto simp: solo_port_def solo_serving_def)
next
  fix S S' w
  show "solo_serving b blk S w \<Longrightarrow> S' \<subseteq> S \<Longrightarrow> solo_serving b blk S' w" by (rule solo_fewer)
qed

section \<open>Cancelled tokens under a download\<close>

text \<open>A cancelled token stays cancelled through every operation of the port.\<close>

abbreviation cancelled_at :: "string \<Rightarrow> 'e world \<Rightarrow> bool" where
  "cancelled_at t w \<equiv> t \<in> rt_cancelledBeforeResolve (fst w)"

lemma settle_keeps_cancelled:
  assumes "t \<in> rt_cancelledBeforeResolve s" "ensureTokensStarted tokens s = (needed, waits, s1)"
    and "solo_settle b needed waits (s1, e) = (r, w')"
  shows "cancelled_at t w'"
proof -
  have "t \<in> rt_cancelledBeforeResolve s1"
    using assms(1,2) by (auto simp: ensureTokensStarted_def Let_def split: if_splits)
  with assms(3) batch_settled_cancelled [of needed _ s1] show ?thesis
    by (auto simp: solo_settle_def split: if_splits prod.splits) (metis snd_conv)
qed

lemma start_keeps_cancelled: "cancelled_at t w \<Longrightarrow> transport_start b tokens w = (r, w') \<Longrightarrow> cancelled_at t w'"
  by (cases w) (auto simp: transport_start_def split: prod.splits dest: settle_keeps_cancelled)

lemma body_keeps_cancelled: "cancelled_at t w \<Longrightarrow> solo_body b u w = (r, w') \<Longrightarrow> cancelled_at t w'"
  by (auto simp: solo_body_def get_settled_fields(4) split: prod.splits option.splits)

lemma round_keeps_cancelled:
  assumes "u \<noteq> t" "cancelled_at t w" "get_round cfg (solo_env b) u i j w = (r, w')"
  shows "cancelled_at t w'"
proof -
  obtain s e where w: "w = (s, e)" by fastforce
  obtain needed waits s1 where en: "ensureTokensStarted [u] s = (needed, waits, s1)" by (metis prod_cases3)
  obtain x s2 e2 where x: "solo_settle b needed waits (s1, e) = (x, s2, e2)" by (metis prod_cases3)
  have s2: "t \<in> rt_cancelledBeforeResolve s2"
    using settle_keeps_cancelled [OF _ en x] assms(2) by (simp add: w)
  obtain y s3 e3 where y: "solo_body b u (s2, e2) = (y, s3, e3)" by (metis prod_cases3)
  have s3: "t \<in> rt_cancelledBeforeResolve s3" using body_keeps_cancelled [OF _ y, of t] s2 by simp
  have after: "t \<in> rt_cancelledBeforeResolve (snd (round_after_body cfg u j now y s3))" for now
    using s3 assms(1) by (auto simp: round_after_body_def consume_success_def consume_failure_def
        Let_def split: sum.split)
  have none: "t \<in> rt_cancelledBeforeResolve (snd (round_no_entry cfg u i now s2))" for now
    using s2 by (simp add: round_no_entry_def)
  from assms(2,3) en x s2 y show ?thesis
    using after [of "be_now b e3"] none [of "be_now b e2"]
    by (auto simp: w get_round_def solo_env_def split: if_splits sum.splits option.splits prod.splits)
qed

lemma get_keeps_cancelled:
  "cancelled_at t w \<Longrightarrow> transport_get cfg (solo_env b) u w = (r, w') \<Longrightarrow> cancelled_at t w'"
proof (cases "u = t")
  case True
  assume "cancelled_at t w" "transport_get cfg (solo_env b) u w = (r, w')"
  with True transport_get_cancelled [of t "fst w" cfg "solo_env b" "snd w"] show ?thesis by auto
next
  case False
  have "cancelled_at t w \<Longrightarrow> get_rounds cfg (solo_env b) u i j w = (r, w') \<Longrightarrow> cancelled_at t w'" for i j
    using False
  proof (induction cfg "solo_env b" u i j w rule: get_rounds.induct)
    case (1 cfg u i j w)
    obtain x w1 where x: "get_round cfg (solo_env b) u i j w = (x, w1)" by (metis surj_pair)
    have w1: "cancelled_at t w1" by (rule round_keeps_cancelled [OF "1.prems"(3,1) x])
    then have slept: "cancelled_at t (ge_sleep (solo_env b) d w1)" for d by (simp add: solo_env_def)
    show ?case
    proof (cases x)
      case (RoundSleep d relay)
      with "1.prems"(2) x show ?thesis
        using "1.hyps"(1) [OF x [symmetric] RoundSleep _ slept] "1.hyps"(2) [OF x [symmetric] RoundSleep _ slept]
          "1.prems"(3)
        by (subst (asm) get_rounds.simps) (auto split: if_splits)
    qed (use "1.prems"(2) x w1 in \<open>subst (asm) get_rounds.simps, auto\<close>)+
  qed
  then show "cancelled_at t w \<Longrightarrow> transport_get cfg (solo_env b) u w = (r, w') \<Longrightarrow> cancelled_at t w'"
    by (simp add: transport_get_def)
qed

lemma idle_keeps_cancelled: "cancelled_at t w \<Longrightarrow> cancelled_at t (fold (settle_get b) ts w)"
proof (induction ts arbitrary: w)
  case (Cons u ts)
  have "cancelled_at t (settle_get b u w)"
    using body_keeps_cancelled [OF Cons.prems, of b u "fst (solo_body b u w)" "snd (solo_body b u w)"]
    by (simp add: settle_get_def)
  then show ?case using Cons.IH by simp
qed simp

definition poisoned :: "string \<Rightarrow> ('m, 'e world) download_world \<Rightarrow> bool" where
  "poisoned t w \<longleftrightarrow> cancelled_at t (fst (snd w))"

definition stays :: "string \<Rightarrow> (('m, 'e world) download_world, 'a) act \<Rightarrow> bool" where
  "stays t f \<longleftrightarrow> triple (poisoned t) f (\<lambda>_. poisoned t) (\<lambda>_. True)"

lemma staysI:
  assumes "\<And>m p k r m' p' k'. cancelled_at t p \<Longrightarrow> f (m, p, k) = (r, m', p', k') \<Longrightarrow> cancelled_at t p'"
  shows "stays t f"
  unfolding stays_def
proof (rule tripleI)
  fix w r w' assume "poisoned t w" "f w = (r, w')"
  then have "poisoned t w'"
    using assms [of "fst (snd w)" "fst w" "snd (snd w)" r "fst w'" "fst (snd w')" "snd (snd w')"]
    by (simp add: poisoned_def)
  then show "case r of Inl e \<Rightarrow> True | Inr x \<Rightarrow> poisoned t w'" by (simp split: sum.split)
qed

lemma stays_basic:
  "stays t (areturn x)" "stays t (alift r)" "stays t (on_memory g)" "stays t (report s)"
  "stays t (report_downloading port c n k)"
  "stays t (amodify (\<lambda>(m, p, tr). (m, p, h p tr)))" "stays t (outdated_session e)"
  by (rule staysI, auto simp: on_memory_def report_def report_downloading_def outdated_session_def
      split: prod.splits if_splits)+

lemma stays_bind: "stays t f \<Longrightarrow> (\<And>x. stays t (g x)) \<Longrightarrow> stays t (abind f g)"
  unfolding stays_def by (rule triple_bind)

lemma stays_seq: "stays t f \<Longrightarrow> stays t g \<Longrightarrow> stays t (aseq f g)"
  unfolding stays_def by (rule triple_seq)

lemma stays_if: "stays t f \<Longrightarrow> stays t g \<Longrightarrow> stays t (if c then f else g)"
  by simp

lemma stays_catch:
  assumes "\<And>e. stays t (h e)"
  shows "stays t (acatch (on_memory f) h)"
  unfolding stays_def
proof (rule tripleI)
  fix w r w' assume P: "poisoned t w" and run: "acatch (on_memory f) h w = (r, w')"
  obtain a w1 where f: "on_memory f w = (a, w1)" by (metis surj_pair)
  then have P1: "poisoned t w1" using P memory_tracker [OF f] by (simp add: poisoned_def)
  show "case r of Inl e \<Rightarrow> True | Inr x \<Rightarrow> poisoned t w'"
  proof (cases a)
    case (Inl e)
    then have "h e w1 = (r, w')" using run f by simp
    then show ?thesis by (rule tripleD [OF assms [unfolded stays_def] P1])
  qed (use run f P1 in auto)
qed

lemma stays_port:
  "stays t (on_port port token0 (po_startConcurrentGet (solo_port cfg b sched) tokens))"
  "stays t (on_port port token0 (po_get (solo_port cfg b sched) u))"
  "stays t (on_port port token0 (amodify (po_cancelPending (solo_port cfg b sched) tokens)))"
  "stays t (yieldToBrowser (solo_port cfg b sched) token0)"
  by (rule staysI, auto simp: on_port_def solo_port_def yieldToBrowser_def idle_world_def transport_cancel_def
      cancelPending_cancelled idle_keeps_cancelled
      dest: start_keeps_cancelled get_keeps_cancelled split: prod.splits)+

lemma stays_prefetch:
  "dd_port dd = solo_port cfg b sched \<Longrightarrow> stays t (prefetchIndexRange dd token0 search i j)"
  unfolding prefetchIndexRange_def by (simp only:) (intro stays_if stays_bind stays_basic stays_port)

lemma stays_drain: "stays t (drain_into (idle_world (solo_port cfg b sched) token0) (lift_session s) acc)"
proof (rule staysI)
  fix m p k r m' p' k'
  assume p: "cancelled_at t p"
    and run: "drain_into (idle_world (solo_port cfg b sched) token0) (lift_session s) acc (m, p, k) = (r, m', p', k')"
  have wait: "poisoned t (idle_world (solo_port cfg b sched) token0 w)" if "poisoned t w"
    for w :: "('a, 'b world) download_world"
    using that by (cases w) (simp add: poisoned_def idle_world_def solo_port_def idle_keeps_cancelled)
  have "poisoned t w'" if "drain_loop (\<lambda>n. on_memory (f n)) (idle_world (solo_port cfg b sched) token0) 0 acc (m, p, k) =
      (x, acc', w')" for f :: "int \<Rightarrow> ('a, bytes) act" and x acc' w'
    by (rule drain_loop_keeps [where P = "poisoned t", OF _ wait _ that])
      (simp_all add: poisoned_def p memory_tracker)
  with p run show "cancelled_at t p'"
    by (fastforce simp: drain_into_def drainSession_def lift_session_def poisoned_def
        split: option.splits prod.splits sum.splits)
qed

lemma stays_session:
  "stays t (rs_addWireToken (lift_session s) i data)" "stays t (announced_length (lift_session s))"
  by (simp_all add: lift_session_def stays_basic announced_length_def split: option.split)

lemmas stays_rules = stays_bind stays_seq stays_if stays_basic stays_port stays_drain
  stays_session stays_catch

text \<open>The loops stop at the latest at the cancelled block.\<close>

abbreviation before :: "string \<Rightarrow> int \<Rightarrow> int \<Rightarrow> ('m, 'e world) download_world \<Rightarrow> bool" where
  "before t k i w \<equiv> poisoned t w \<and> i \<le> k"

lemma get_poisoned:
  "triple (poisoned t) (on_port port token0 (po_get (solo_port cfg b sched) t)) (\<lambda>_ _. False) (\<lambda>_. True)"
proof (rule tripleI)
  fix w r w' assume "poisoned t w" "on_port port token0 (po_get (solo_port cfg b sched) t) w = (r, w')"
  then show "case r of Inl e \<Rightarrow> True | Inr x \<Rightarrow> False"
    using transport_get_cancelled [of t "fst (fst (snd w))" cfg "solo_env b" "snd (fst (snd w))"]
    by (auto simp: poisoned_def on_port_def solo_port_def split: prod.splits)
qed

lemma poisoned_bind_get:
  "triple (poisoned t) (abind (on_port port token0 (po_get (solo_port cfg b sched) t)) f) Q (\<lambda>_. True)"
  by (rule triple_bind [OF get_poisoned]) (simp add: triple_def)

lemma stays_then:
  "stays t f \<Longrightarrow> triple (poisoned t) g Q (\<lambda>_. True) \<Longrightarrow> triple (poisoned t) (aseq f g) Q (\<lambda>_. True)"
  "stays t f \<Longrightarrow> (\<And>x. triple (poisoned t) (h x) Q (\<lambda>_. True)) \<Longrightarrow>
     triple (poisoned t) (abind f h) Q (\<lambda>_. True)"
  unfolding stays_def by (rule triple_seq, assumption+) (rule triple_bind)

lemma block_poison:
  assumes "stays t f" "i = k \<Longrightarrow> triple (poisoned t) f (\<lambda>_ _. False) (\<lambda>_. True)"
  shows "triple (before t k i) f (\<lambda>_. before t k (i + 1)) (\<lambda>_. True)"
proof -
  consider "i = k" | "i < k" | "k < i" by linarith
  then show ?thesis
  proof cases
    case 1
    then show ?thesis using triple_weaken [OF assms(2)] by simp
  next
    case 2
    then show ?thesis using triple_weaken [OF assms(1) [unfolded stays_def]] by simp
  qed (simp add: triple_def)
qed

lemma large_block_poison:
  assumes "dd_port dd = solo_port cfg b sched"
  shows "triple (before (tc_deriveUploadToken (dd_twelveC dd) search k) k i)
    (large_block dd token0 search size1 n w (lift_session s) i acc)
    (\<lambda>_. before (tc_deriveUploadToken (dd_twelveC dd) search k) k (i + 1)) (\<lambda>_. True)"
proof (rule block_poison)
  show "stays (tc_deriveUploadToken (dd_twelveC dd) search k)
      (large_block dd token0 search size1 n w (lift_session s) i acc)"
    unfolding large_block_def Let_def assms by (intro stays_rules stays_prefetch [OF assms])
  show "triple (poisoned (tc_deriveUploadToken (dd_twelveC dd) search k))
      (large_block dd token0 search size1 n w (lift_session s) i acc) (\<lambda>_ _. False) (\<lambda>_. True)" if "i = k"
    unfolding large_block_def Let_def assms that
    by (intro stays_then(1) stays_rules stays_prefetch [OF assms] poisoned_bind_get)
qed

lemma small_block_poison:
  assumes "dd_port dd = solo_port cfg b sched"
  shows "triple (before (tc_deriveUploadToken (dd_twelveC dd) search k) k i)
    (small_block dd token0 search size1 n i uploads)
    (\<lambda>_. before (tc_deriveUploadToken (dd_twelveC dd) search k) k (i + 1)) (\<lambda>_. True)"
proof (rule block_poison)
  show "stays (tc_deriveUploadToken (dd_twelveC dd) search k) (small_block dd token0 search size1 n i uploads)"
    unfolding small_block_def Let_def assms by (intro stays_rules)
  show "triple (poisoned (tc_deriveUploadToken (dd_twelveC dd) search k))
      (small_block dd token0 search size1 n i uploads) (\<lambda>_ _. False) (\<lambda>_. True)" if "i = k"
    unfolding small_block_def Let_def assms that by (rule poisoned_bind_get)
qed

lemma loop_poison:
  assumes "1 \<le> k" "k < n"
    and "\<And>i a. triple (before t k i) (body i a) (\<lambda>_. before t k (i + 1)) (\<lambda>_. True)"
  shows "triple (poisoned t) (abind (afold body [1..n - 1] a) f) Q (\<lambda>_. True)"
proof (rule triple_bind)
  have "triple (before t k 1) (afold body [1..n - 1] a) (\<lambda>_. before t k (max 1 n)) (\<lambda>_. True)"
    by (rule triple_afold [where I = "\<lambda>i _. before t k i"]) (rule assms(3))
  then show "triple (poisoned t) (afold body [1..n - 1] a) (\<lambda>_ _. False) (\<lambda>_. True)"
    by (rule triple_weaken) (use assms(1,2) in auto)
  show "triple (\<lambda>_. False) (f x) Q (\<lambda>_. True)" for x by (simp add: triple_def)
qed

lemma download_file_poison:
  fixes dd :: "('m, 'e world) download_deps"
  assumes port: "dd_port dd = solo_port cfg b sched" and k: "k = prefetch_width dd options (wireBlockSize md)"
    and width: "0 < k" "k < m" "k < numTokens md"
  shows "triple (\<lambda>_. True) (download_file dd options token0 credential search m (wire, md))
    (\<lambda>_ _. False) (\<lambda>_. True)"
proof -
  let ?t = "tc_deriveUploadToken (dd_twelveC dd) search k"
  have range1: "triple (\<lambda>_. True) (cancelIndexRange dd token0 search k m) (\<lambda>_. poisoned ?t) (\<lambda>_. True)"
  proof (rule tripleI)
    fix w r w' assume run: "cancelIndexRange dd token0 search k m w = (r, w')"
    have "?t \<in> set (index_tokens (tc_deriveUploadToken (dd_twelveC dd)) search k m)"
      using width(2) by (auto simp: set_index_tokens)
    with run width(2) show "case r of Inl e \<Rightarrow> True | Inr x \<Rightarrow> poisoned ?t w'"
      by (auto simp: cancelIndexRange_def abind_units port on_port_def solo_port_def transport_cancel_def
          cancelPending_cancelled poisoned_def split: prod.splits simp del: act_run(3))
  qed
  have large: "triple (poisoned ?t) (decryptDownloadedLargeFile dd token0 credential search wire
      (wireBlockSize md) (numTokens md) (originalFileLength md) k) (\<lambda>_ _. False) (\<lambda>_. True)"
    unfolding decryptDownloadedLargeFile_def Let_def
    by (intro loop_poison [OF _ width(3) large_block_poison [OF port]] stays_then(2) stays_rules)
      (use width(1) in simp)
  have small: "triple (poisoned ?t) (download_small dd token0 credential search wire md k later)
      (\<lambda>_ _. False) (\<lambda>_. True)" for later
    unfolding download_small_def Let_def port
    by (intro loop_poison [OF _ width(3) small_block_poison [OF port]] stays_then(1) stays_rules)
      (use width(1) in simp)
  have never: "triple P f (\<lambda>_ _. False) (\<lambda>_. True) \<Longrightarrow> triple P (abind f g) Q (\<lambda>_. True)" for P f g Q
    by (rule triple_bind, assumption) (simp add: triple_def)
  show ?thesis
    unfolding download_file_def prod.case Let_def computeReceiveDownloadPlan_ok [OF width(1)]
      abind_units receive_download_plan.simps port k [symmetric] if_P [OF width(2)]
    by (rule triple_seq [where R = "\<lambda>_. True"], rule triple_modify, rule TrueI,
        rule triple_seq [OF range1], intro stays_then(1) stays_rules, intro triple_if never large small)
qed

section \<open>Properties\<close>


text \<open>A module without cryptography: two blocks of one byte, tokens that spell their index.\<close>

definition demo_metadata :: "int \<Rightarrow> int \<Rightarrow> SmbMetadata" where
  "demo_metadata n size1 = \<lparr> numTokens = n, wireBlockSize = size1, ciphertextLength = n * size1,
     originalFileLength = n * size1, originalFileName = ''a.txt'', smb_segmentCode = Fin 0 \<rparr>"

definition demo_token :: "string \<Rightarrow> int \<Rightarrow> string" where
  "demo_token search i = (if i < 0 then ''m'' else ''p'') @ replicate (nat \<bar>i\<bar>) CHR ''i'' @ search"

definition demo_twelve :: "SmbMetadata \<Rightarrow> unit twelve_c" where
  "demo_twelve md =
     \<lparr> tc_prepareUpload = (\<lambda>_ _ _ _ _. areturn []),
       tc_createUploadPrepareSession = (\<lambda>_ _ _ _ _. athrow (ErrorObj [])),
       tc_createReceiveDecryptSession = (\<lambda>_ _. athrow (ErrorObj [])),
       tc_receiveFromUploadMap = (\<lambda>_ uploads. areturn (concat (map snd uploads))),
       tc_deriveUploadToken = demo_token, tc_parseSmbEncrypted = (\<lambda>_ _. areturn md) \<rparr>"

definition demo_relays :: "unit backend" where
  "demo_relays = \<lparr> be_resolveMany = (\<lambda>ts e. (Inr (map (\<lambda>t. (t, demo_endpoint)) ts), e)),
     be_get = (\<lambda>t _ e. (Inr [length t], e)), be_now = (\<lambda>_. 0), be_sleep = (\<lambda>_ e. e) \<rparr>"

definition demo_download :: "runtime_env \<Rightarrow> SmbMetadata \<Rightarrow> (unit, unit world) download_deps" where
  "demo_download env md = \<lparr> dd_env = env, dd_toNumber = (\<lambda>_. NaN), dd_alloc = (\<lambda>_. None),
     dd_twelveC = demo_twelve md,
     dd_port = solo_port (receive_config_new None None None None None) demo_relays
                 (\<lambda>w. rev (jm_keys (rt_pending (fst w)))) \<rparr>"

lemma demo_token_inj: "inj (demo_token search)"
proof (rule injI)
  fix i j assume eq: "demo_token search i = demo_token search j"
  then have "length (demo_token search i) = length (demo_token search j)" by simp
  then have "nat \<bar>i\<bar> = nat \<bar>j\<bar>" by (auto simp: demo_token_def split: if_splits)
  moreover have "(i < 0) = (j < 0)" using eq by (auto simp: demo_token_def split: if_splits)
  ultimately show "i = j" by auto
qed

lemma demo_serving: "solo_serving demo_relays (\<lambda>t. [length t]) UNIV (transport_new n, e)"
proof -
  have "\<exists>ep. jm_get (map (\<lambda>t. (t, demo_endpoint)) ts) t = Some ep" if "t \<in> set ts" for t and ts :: "string list"
    using that by (induction ts) auto
  then show ?thesis
    by (auto simp: solo_serving_def honest_backend_def demo_relays_def transport_serves_def transport_new_def
        simp del: map_of_eq_None_iff)
qed

definition no_options :: download_options where
  "no_options = \<lparr>do_initialTokens = None, do_relayMaxBodyBytes = None, do_onStatus = True\<rparr>"

definition node_env :: runtime_env where
  "node_env = \<lparr>env_navigator = None, env_window = False, env_vars = (\<lambda>_. None)\<rparr>"


lemma triple_const: "triple (\<lambda>_. c) f (\<lambda>_ _. c) (\<lambda>_. True)"
  by (simp add: triple_def split: prod.split sum.split)

text \<open>C18. A prefetch window that shrinks when the block size becomes known ruins the download: the
  tokens between the new and the old width are cancelled although the file needs them, a
  cancellation is final, and so whatever the registry and the relays answer, and whenever, a
  download whose metadata makes the width smaller than both the first one and the number of blocks
  never succeeds.\<close>

theorem shrunk_window_fails:
  assumes "dd_port dd = solo_port cfg b sched"
    and "\<And>wire m x m'. tc_parseSmbEncrypted (dd_twelveC dd) credential wire m = (Inr x, m') \<Longrightarrow> x = md"
    and "prefetch_width dd options (wireBlockSize md) < min (prefetch_width dd options 0) (numTokens md)"
  shows "\<not> is_ok (fst (downloadAdaptive dd options credential (m, p)))"
proof -
  have metadata: "triple (\<lambda>_. True) (fetch_metadata dd token0 credential search k limit)
      (\<lambda>block _. snd block = md) (\<lambda>_. True)" for token0 search k limit
  proof -
    have parse: "triple (\<lambda>_. True) (on_memory (tc_parseSmbEncrypted (dd_twelveC dd) credential wire))
        (\<lambda>x _. x = md) (\<lambda>_. True)" for wire
      by (rule tripleI) (auto simp: on_memory_def dest: assms(2) split: prod.splits sum.split)
    show ?thesis
      unfolding fetch_metadata_def Let_def
      by (rule triple_seq [OF triple_const], rule triple_seq [OF triple_const],
          rule triple_seq [OF triple_const], rule triple_seq [OF triple_const],
          rule triple_seq [OF triple_const], rule triple_bind [OF triple_const],
          rule triple_seq [OF triple_const], rule triple_bind [OF parse],
          rule triple_seq [OF triple_const], intro triple_if triple_basic, simp_all)
  qed
  have rest: "triple (\<lambda>_. snd block = md) (download_file dd options token0 credential search (prefetch_width dd options 0) block)
      (\<lambda>_ _. False) (\<lambda>_. True)" if "0 < prefetch_width dd options 0" for token0 search block
  proof (cases "snd block = md")
    case True
    then obtain wire where "block = (wire, md)" by (cases block) auto
    with download_file_poison [OF assms(1) refl prefetch_width_pos [OF that]] assms(3) show ?thesis
      by (simp add: triple_def)
  qed (simp add: triple_def)
  have run: "triple (\<lambda>_. True) (download_run dd options credential search) (\<lambda>_ _. False) (\<lambda>_. True)"
    if "0 < prefetch_width dd options 0" for search
    unfolding download_run_def Let_def
    by (rule triple_seq [where R = "\<lambda>_. True"], rule triple_modify, rule TrueI,
        rule triple_finally [OF triple_bind [OF metadata rest [OF that]]], assumption, rule TrueI)
  show ?thesis
  proof (cases "0 < prefetch_width dd options 0 \<and> (\<exists>parts. splitCredential credential = Inr parts)")
    case True
    then obtain parts where parts: "splitCredential credential = Inr parts" by blast
    let ?t = "tracker_new (do_onStatus options) (prefetch_width dd options 0) (prefetch_width dd options 0 *
        default_to (do_relayMaxBodyBytes options) DEFAULT_RELAY_MAX_BODY_BYTES)"
    obtain r m' p' t' where r: "download_run dd options credential (searchCode parts) (m, p, ?t) = (r, m', p', t')"
      by (metis prod_cases4)
    from tripleD [OF run TrueI r] True have "\<not> is_ok r" by (cases r) simp_all
    with True parts r show ?thesis by (simp add: downloadAdaptive_def Let_def)
  next
    case False
    then show ?thesis by (cases "splitCredential credential") (auto simp: downloadAdaptive_def Let_def)
  qed
qed

text \<open>
  A browser whose relay limit is configured as 16 MiB downloads a file of four blocks of 32 MiB: the
  first width is six, the second three, and block three is cancelled.
\<close>

definition page_env :: runtime_env where
  "page_env = \<lparr>env_navigator = None, env_window = True, env_vars = (\<lambda>_. None)\<rparr>"

definition small_limit :: download_options where
  "small_limit = \<lparr>do_initialTokens = None, do_relayMaxBodyBytes = Some (16 * MiB), do_onStatus = True\<rparr>"

lemma shrunk_window_fails_witness:
  "\<not> is_ok (fst (downloadAdaptive (demo_download page_env (demo_metadata 4 (32 * MiB))) small_limit
     ''Abcdef123456'' ((), (transport_new None, ()))))"
proof (rule shrunk_window_fails)
  show "dd_port (demo_download page_env (demo_metadata 4 (32 * MiB))) =
      solo_port (receive_config_new None None None None None) demo_relays (\<lambda>w. rev (jm_keys (rt_pending (fst w))))"
    by (simp add: demo_download_def)
  show "tc_parseSmbEncrypted (dd_twelveC (demo_download page_env (demo_metadata 4 (32 * MiB)))) ''Abcdef123456''
      wire m = (Inr x, m') \<Longrightarrow> x = demo_metadata 4 (32 * MiB)" for wire m x m'
    by (simp add: demo_download_def demo_twelve_def)
  show "prefetch_width (demo_download page_env (demo_metadata 4 (32 * MiB))) small_limit
      (wireBlockSize (demo_metadata 4 (32 * MiB))) <
    min (prefetch_width (demo_download page_env (demo_metadata 4 (32 * MiB))) small_limit 0)
      (numTokens (demo_metadata 4 (32 * MiB)))"
    by code_simp
qed

end
