(* ===== verification/Labels.thy ===== *)
theory Labels
  imports Delivery Upload Settings Link
begin

text \<open>
  What the page of \<open>client/web/src\<close> writes: sizes (\<open>formatBytes\<close>), the texts of the upload and
  download statuses in \<open>app.ts\<close>, the kind of icon a file gets (\<open>file-type-icon.ts\<close>) and banners
  (\<open>banner.ts\<close>). A text with holes is a constructor with the values in its holes; the sizes in
  them are the strings of the source.
\<close>

section \<open>Sizes\<close>

definition pad_zeros :: "nat \<Rightarrow> string \<Rightarrow> string" where
  "pad_zeros f s = replicate (f - length s) (CHR ''0'') @ s"

text \<open>
  \<open>Number.prototype.toFixed\<close> for \<open>0 \<le> x < 10^21\<close>: the nearest multiple of \<open>10^-f\<close>, the larger one of
  two. The quotients it is applied to are exact, their divisors are powers of two.
\<close>

definition fixed_digits :: "nat \<Rightarrow> int \<Rightarrow> string" where
  "fixed_digits f n = (if f = 0 then dec_int n
     else dec_int (n div 10 ^ f) @ ''.'' @ pad_zeros f (dec_int (n mod 10 ^ f)))"

definition toFixed :: "nat \<Rightarrow> rat \<Rightarrow> string" where
  "toFixed f x = fixed_digits f \<lfloor>x * 10 ^ f + 1 / 2\<rfloor>"

definition formatBytes :: "int \<Rightarrow> string" where
  "formatBytes size1 =
     (if size1 < 1024 then dec_int size1 @ '' B''
      else if size1 < 1024 * 1024 then toFixed 1 (of_int size1 / 1024) @ '' KB''
      else toFixed 2 (of_int size1 / (1024 * 1024)) @ '' MB'')"

text \<open>\<open>undefined\<close> is \<open>None\<close>; an \<open>int\<close> is finite. The two sizes of the hint, \<open>None\<close> for the empty string.\<close>

definition formatTransferBytesProgress :: "int option \<Rightarrow> int option \<Rightarrow> (string \<times> string) option" where
  "formatTransferBytesProgress transferred whole = (case (transferred, whole) of
     (Some n, Some t) \<Rightarrow> if t \<le> 0 then None else Some (formatBytes (max 0 n), formatBytes t)
   | _ \<Rightarrow> None)"

text \<open>The first component is \<open>None\<close> for the placeholder without a number.\<close>

definition formatPrefetchBytesProgress ::
    "int option \<Rightarrow> int option \<Rightarrow> (string option \<times> string) option" where
  "formatPrefetchBytesProgress received ceiling1 = (case ceiling1 of
     None \<Rightarrow> None
   | Some c \<Rightarrow>
       if c \<le> 0 then None
       else Some (case received of
                    Some n \<Rightarrow> if 0 < n then Some (formatBytes n) else None
                  | None \<Rightarrow> None, formatBytes c))"

section \<open>Banners\<close>

text \<open>A banner is hidden and empty, or shows its message.\<close>

type_synonym 'a banner = "'a option"

definition showBanner :: "'a \<Rightarrow> 'a banner" where
  "showBanner message = Some message"

definition clearBanner :: "'a banner" where
  "clearBanner = None"

section \<open>The runtime\<close>

text \<open>The runtime of the page once it is loaded; the message is Chinese in the source.\<close>

definition requireRuntime :: "'rt option \<Rightarrow> 'rt res" where
  "requireRuntime runtime = (case runtime of
     Some client \<Rightarrow> Inr client | None \<Rightarrow> Inl (ErrorObj ''The client is not ready''))"

section \<open>Texts of an upload\<close>

datatype upload_phase = ReadingFile | UploadPhase upload_status

datatype upload_text =
    ReadingText
  | EncryptingSegment int int
  | EncryptingText
  | HashingBlock int int
  | HashingText
  | AwaitingPlacement
  | UploadFinished
  | FirstUploads int int
  | UploadingText
  | UploadedBlocks int int "int option"

definition formatUploadStatusMessage :: "upload_phase \<Rightarrow> upload_text" where
  "formatUploadStatusMessage status = (case status of
     ReadingFile \<Rightarrow> ReadingText
   | UploadPhase (Preparing bytesFed totalBytes segmentIndex segmentTotal) \<Rightarrow>
       (case (segmentTotal, segmentIndex) of
          (Some n, Some i) \<Rightarrow> if 1 < n \<and> 0 < i then EncryptingSegment i n else EncryptingText
        | _ \<Rightarrow> EncryptingText)
   | UploadPhase (Hashing index count1) \<Rightarrow>
       if 1 < count1 then HashingBlock index count1 else HashingText
   | UploadPhase Reserving \<Rightarrow> AwaitingPlacement
   | UploadPhase (Uploading completed inFlight count1 _ _) \<Rightarrow>
       if count1 \<le> completed then UploadFinished
       else if completed = 0 \<and> 0 < inFlight
       then (if 1 < count1 then FirstUploads count1 inFlight else UploadingText)
       else if 1 < count1
       then UploadedBlocks completed count1 (if 0 < inFlight then Some inFlight else None)
       else UploadingText)"

section \<open>Texts of a download\<close>

datatype download_text =
    LocatingInitial "(int \<times> int) option" int
  | LocatingWindow "(int \<times> int) option" int
  | PrefetchingText "int option" "(string option \<times> string) option"
  | AwaitingSender
  | MetadataUnstable
  | ParsingSmb
  | DownloadFinished
  | FirstDownloads int int
  | DownloadingText
  | SmbReady int int "int option"
  | DownloadedBlocks int int "int option"
  | DecryptingText

definition window_text :: "int \<Rightarrow> int \<Rightarrow> (int \<times> int) option" where
  "window_text fromIndex toIndex =
     (if toIndex \<le> fromIndex + 1 then None else Some (fromIndex + 1, toIndex))"

definition lanes_text :: "int option \<Rightarrow> int option" where
  "lanes_text inFlight = (if 0 < default_to inFlight 0 then Some (default_to inFlight 0) else None)"

definition formatDownloadStatusMessage :: "download_status \<Rightarrow> download_text" where
  "formatDownloadStatusMessage status = (case status of
     ResolvingInitial fromIndex toIndex count1 \<Rightarrow> LocatingInitial (window_text fromIndex toIndex) count1
   | ResolvingWindow fromIndex toIndex count1 \<Rightarrow> LocatingWindow (window_text fromIndex toIndex) count1
   | AwaitingMetadataBlock prefetchCount received ceiling1 \<Rightarrow>
       let n = default_to prefetchCount 0
       in PrefetchingText (if 1 \<le> n then Some n else None) (formatPrefetchBytesProgress received ceiling1)
   | WaitingMetadataBlock reason _ \<Rightarrow> if reason = WaitRegistry then AwaitingSender else MetadataUnstable
   | ParsingMetadata \<Rightarrow> ParsingSmb
   | Downloading completed count1 inFlight _ _ \<Rightarrow>
       if count1 \<le> completed then DownloadFinished
       else if completed = 0 \<and> 0 < default_to inFlight 0
       then (if 1 < count1 then FirstDownloads count1 (default_to inFlight 0) else DownloadingText)
       else if completed = 1 \<and> 1 < count1 then SmbReady completed count1 (lanes_text inFlight)
       else if 1 < count1 then DownloadedBlocks completed count1 (lanes_text inFlight)
       else DownloadingText
   | Decrypting _ \<Rightarrow> DecryptingText)"

section \<open>Icons of files\<close>

datatype file_icon = ImageIcon | VideoIcon | AudioIcon | PdfIcon | DocumentIcon | SpreadsheetIcon
  | ArchiveIcon | CodeIcon | ExecutableIcon | GenericIcon

definition IMAGE_EXT :: "string list" where
  "IMAGE_EXT = [''jpg'', ''jpeg'', ''png'', ''gif'', ''webp'', ''bmp'', ''svg'', ''ico'', ''heic'', ''heif'', ''avif'']"

definition VIDEO_EXT :: "string list" where
  "VIDEO_EXT = [''mp4'', ''mkv'', ''mov'', ''avi'', ''webm'', ''wmv'', ''m4v'', ''flv'']"

definition AUDIO_EXT :: "string list" where
  "AUDIO_EXT = [''mp3'', ''wav'', ''flac'', ''aac'', ''ogg'', ''m4a'', ''wma'', ''opus'']"

definition DOCUMENT_EXT :: "string list" where
  "DOCUMENT_EXT = [''doc'', ''docx'', ''odt'', ''rtf'', ''txt'', ''md'', ''markdown'', ''pages'']"

definition SPREADSHEET_EXT :: "string list" where
  "SPREADSHEET_EXT = [''xls'', ''xlsx'', ''csv'', ''ods'', ''tsv'']"

definition ARCHIVE_EXT :: "string list" where
  "ARCHIVE_EXT = [''zip'', ''rar'', ''7z'', ''tar'', ''gz'', ''bz2'', ''xz'', ''tgz'']"

definition CODE_EXT :: "string list" where
  "CODE_EXT = [''js'', ''ts'', ''jsx'', ''tsx'', ''py'', ''java'', ''c'', ''cpp'', ''h'', ''hpp'', ''cs'', ''go'', ''rs'',
     ''rb'', ''php'', ''swift'', ''kt'', ''sql'', ''json'', ''yaml'', ''yml'', ''xml'', ''html'', ''css'', ''wasm'']"

definition EXECUTABLE_EXT :: "string list" where
  "EXECUTABLE_EXT = [''exe'', ''msi'', ''dmg'', ''app'', ''deb'', ''rpm'', ''apk'', ''bat'', ''cmd'', ''ps1'']"

text \<open>\<open>after_dot\<close> is what follows the last dot; a name without a dot, one that starts with its only dot
  and one that ends with a dot have no extension. Lower case is taken of ASCII letters: no other
  letter's lower case occurs in the lists.\<close>

definition after_dot :: "string \<Rightarrow> string" where
  "after_dot name = rev (takeWhile (\<lambda>c. c \<noteq> CHR ''.'') (rev name))"

definition extensionOf :: "string \<Rightarrow> string" where
  "extensionOf name =
     (let ext = after_dot name; dot = int (length name) - int (length ext) - 1 in
      if dot \<le> 0 \<or> dot = int (length name) - 1 then [] else map lower_char ext)"

definition resolveFileIconKind :: "string \<Rightarrow> string \<Rightarrow> file_icon" where
  "resolveFileIconKind name mime_type =
     (let ext = extensionOf name; mime = map lower_char mime_type in
      if starts_with mime ''image/'' \<or> ext \<in> set IMAGE_EXT then ImageIcon
      else if starts_with mime ''video/'' \<or> ext \<in> set VIDEO_EXT then VideoIcon
      else if starts_with mime ''audio/'' \<or> ext \<in> set AUDIO_EXT then AudioIcon
      else if ext = ''pdf'' \<or> mime = ''application/pdf'' then PdfIcon
      else if ext \<in> set SPREADSHEET_EXT \<or> str_includes mime ''spreadsheet'' \<or> mime = ''text/csv''
      then SpreadsheetIcon
      else if ext \<in> set ARCHIVE_EXT \<or> str_includes mime ''zip'' \<or> str_includes mime ''compressed''
      then ArchiveIcon
      else if ext \<in> set CODE_EXT \<or> str_includes mime ''javascript'' \<or> str_includes mime ''json''
      then CodeIcon
      else if ext \<in> set EXECUTABLE_EXT then ExecutableIcon
      else if ext \<in> set DOCUMENT_EXT \<or> starts_with mime ''text/'' \<or> str_includes mime ''word'' \<or>
        str_includes mime ''document'' then DocumentIcon
      else GenericIcon)"

definition renderFileIconForFile :: "string \<times> string \<Rightarrow> file_icon" where
  "renderFileIconForFile f = (case f of (name, mime_type) \<Rightarrow> resolveFileIconKind name mime_type)"

definition renderFileIconForName :: "string \<Rightarrow> file_icon" where
  "renderFileIconForName name = resolveFileIconKind name []"

section \<open>Lemmas\<close>

text \<open>The digits of \<open>toFixed\<close> are within half a unit of the last place.\<close>

lemma toFixed_rounds: "\<bar>of_int \<lfloor>x * 10 ^ f + 1 / 2\<rfloor> / 10 ^ f - (x :: rat)\<bar> \<le> 1 / (2 * 10 ^ f)"
proof -
  let ?n = "of_int \<lfloor>x * 10 ^ f + 1 / 2\<rfloor> :: rat"
  have "\<bar>?n - x * 10 ^ f\<bar> \<le> 1 / 2" by linarith
  then have "\<bar>?n - x * 10 ^ f\<bar> / 10 ^ f \<le> 1 / 2 / 10 ^ f" by (intro divide_right_mono) simp_all
  moreover have "?n / 10 ^ f - x = (?n - x * 10 ^ f) / 10 ^ f" by (simp add: field_simps)
  ultimately show ?thesis by (simp add: abs_divide)
qed

text \<open>The last values below a megabyte are shown as 1024.0 kilobytes.\<close>

lemma formatBytes_rollover:
  assumes "1048525 \<le> n" "n < 1048576"
  shows "formatBytes n = ''1024.0 KB''"
proof -
  have "\<lfloor>of_int n / 1024 * 10 ^ 1 + 1 / 2 :: rat\<rfloor> = 10240"
  proof (rule floor_unique)
    have "(1048525 :: rat) \<le> of_int n" "(of_int n :: rat) < 1048576"
      using assms by (metis of_int_le_iff of_int_numeral, metis of_int_less_iff of_int_numeral)
    then show "of_int 10240 \<le> of_int n / 1024 * 10 ^ 1 + (1 / 2 :: rat)"
      "of_int n / 1024 * 10 ^ 1 + (1 / 2 :: rat) < of_int 10240 + 1" by simp_all
  qed
  moreover have "fixed_digits 1 10240 = ''1024.0''" by code_simp
  ultimately show ?thesis using assms by (simp add: formatBytes_def toFixed_def)
qed

end
