(* ===== verification/ReceivePage.thy ===== *)
theory ReceivePage
  imports Labels
begin

text \<open>
  The receive panel of \<open>client/web/src/app.ts\<close>: its variables and the elements it writes are one
  record, its handlers transformations of it. \<open>handleReceiveDownload\<close> is cut at the await of
  \<open>receiveFile\<close>: \<open>begin_download\<close>, the reports, \<open>end_download\<close>; in between the user may do anything.
  Percentages of the progress ring are exact quotients. The contents of a received \<open>Blob\<close> are its bytes.
\<close>

section \<open>The panel\<close>

datatype receive_message =
    CredentialLengthMessage
  | ReceiveFailed shown
  | ClipboardEmpty
  | ClipboardTooShort
  | ClipboardUnreadable
  | LinkDamaged
  | LinkCredentialInvalid

datatype progress_text =
    NoProgressText
  | BlocksText int int "(string \<times> string) option"
  | PrefetchText "string option \<times> string"

datatype ring_offset = RingUnset | RingOffset rat

datatype receive_download_state = DownloadIdle | DownloadReady | DownloadActive | DownloadDone

datatype save_hint = NoSaveHint | ClickToSave | AutoSaveTried | AutoSaveBlocked

record block_progress =
  bk_completed :: int
  bk_total :: int
  bk_transferred :: "int option"
  bk_bytesTotal :: "int option"

record received_file =
  rf_fileName :: string
  rf_data :: bytes

text \<open>
  The variables of the module, then the elements: the progress header, its spinner and texts, the
  ring, the download button and the bar of the received file.
\<close>

record receive_view =
  receiveCredentialInput :: credential_input
  receivedFile :: "received_file option"
  receiveDownloading :: bool
  receiveDownloadStatusRank :: nat
  receiveDownloadBlockProgress :: "block_progress option"
  receiveDownloadBlockProgressLocked :: bool
  receivePrefetchByteProgress :: "(int \<times> int) option"
  header_hidden :: bool
  spinner_hidden :: bool
  status_text :: "download_text option"
  progress_hidden :: bool
  progress_text :: progress_text
  ring_dashoffset :: ring_offset
  ring_indeterminate :: bool
  trigger_visual :: receive_download_state
  trigger_disabled :: bool
  bar_disabled :: bool
  bar_ready :: bool
  bar_pending_hidden :: bool
  bar_ready_hidden :: bool
  bar_hint_hidden :: bool
  bar_hint :: save_hint
  bar_icon :: "file_icon option"
  bar_name :: string
  bar_size :: string
  receiveError :: "receive_message banner"
  saved_blobs :: "(string \<times> bytes) list"

text \<open>\<open>saveBlob\<close>: the browser is asked to save the blob under the name; \<open>refused\<close> is what the click throws.\<close>

definition saveBlob :: "thrown option \<Rightarrow> string \<Rightarrow> bytes \<Rightarrow> receive_view \<Rightarrow> unit res \<times> receive_view" where
  "saveBlob refused fileName data v = (case refused of
     Some e \<Rightarrow> (Inl e, v)
   | None \<Rightarrow> (Inr (), v\<lparr>saved_blobs := saved_blobs v @ [(fileName, data)]\<rparr>))"

definition resetReceiveFileBar :: "receive_view \<Rightarrow> receive_view" where
  "resetReceiveFileBar v = v\<lparr>receivedFile := None, bar_disabled := True, bar_ready := False,
     bar_pending_hidden := False, bar_ready_hidden := True, bar_hint_hidden := True,
     bar_icon := None, bar_name := [], bar_size := []\<rparr>"

section \<open>Progress of a download\<close>

definition isPreBlockProgressPhase :: "download_status \<Rightarrow> bool" where
  "isPreBlockProgressPhase status = (case status of
     ResolvingInitial _ _ _ \<Rightarrow> True
   | AwaitingMetadataBlock _ _ _ \<Rightarrow> True
   | WaitingMetadataBlock _ _ \<Rightarrow> True
   | ParsingMetadata \<Rightarrow> True
   | _ \<Rightarrow> False)"

definition RECEIVE_DOWNLOAD_PHASE_RANK :: "download_status \<Rightarrow> nat" where
  "RECEIVE_DOWNLOAD_PHASE_RANK status = (case status of
     ResolvingInitial _ _ _ \<Rightarrow> 10
   | AwaitingMetadataBlock _ _ _ \<Rightarrow> 20
   | WaitingMetadataBlock _ _ \<Rightarrow> 25
   | ParsingMetadata \<Rightarrow> 30
   | ResolvingWindow _ _ _ \<Rightarrow> 35
   | Downloading _ _ _ _ _ \<Rightarrow> 40
   | Decrypting _ \<Rightarrow> 50)"

definition RECEIVE_DOWNLOAD_RING_LENGTH :: rat where
  "RECEIVE_DOWNLOAD_RING_LENGTH = 100"

definition setReceiveDownloadStatus :: "download_status option \<Rightarrow> receive_view \<Rightarrow> receive_view" where
  "setReceiveDownloadStatus status v = (case status of
     None \<Rightarrow> v\<lparr>header_hidden := True, spinner_hidden := True, status_text := None\<rparr>
   | Some s \<Rightarrow> v\<lparr>header_hidden := False, spinner_hidden := False,
       status_text := Some (formatDownloadStatusMessage s)\<rparr>)"

definition paintReceiveDownloadBlockProgress :: "receive_view \<Rightarrow> receive_view" where
  "paintReceiveDownloadBlockProgress v = (case receiveDownloadBlockProgress v of
     None \<Rightarrow> v
   | Some p \<Rightarrow>
       let transferHint = formatTransferBytesProgress (bk_transferred p) (bk_bytesTotal p);
           ratio = (if 0 < bk_total p then of_int (bk_completed p) / of_int (bk_total p) else 0)
       in v\<lparr>progress_hidden := False,
            progress_text := BlocksText (bk_completed p) (bk_total p) transferHint,
            ring_dashoffset := RingOffset (RECEIVE_DOWNLOAD_RING_LENGTH * (1 - ratio))\<rparr>)"

definition rememberReceiveDownloadBlockProgress ::
    "int \<Rightarrow> int \<Rightarrow> int option \<Rightarrow> int option \<Rightarrow> receive_view \<Rightarrow> receive_view" where
  "rememberReceiveDownloadBlockProgress completed count1 transferred bytesTotal v =
     v\<lparr>receiveDownloadBlockProgress := Some \<lparr>bk_completed = completed, bk_total = count1,
         bk_transferred = transferred, bk_bytesTotal = bytesTotal\<rparr>,
       receiveDownloadBlockProgressLocked := True\<rparr>"

definition paintReceivePrefetchByteProgress :: "receive_view \<Rightarrow> receive_view" where
  "paintReceivePrefetchByteProgress v = (case receivePrefetchByteProgress v of
     None \<Rightarrow> v
   | Some (received, ceiling1) \<Rightarrow>
       (case formatPrefetchBytesProgress (Some received) (Some ceiling1) of
          None \<Rightarrow> v
        | Some hint \<Rightarrow> v\<lparr>progress_hidden := False, progress_text := PrefetchText hint\<rparr>))"

definition clearReceiveDownloadProgress :: "receive_view \<Rightarrow> receive_view" where
  "clearReceiveDownloadProgress v = v\<lparr>receiveDownloadStatusRank := 0,
     receiveDownloadBlockProgress := None, receiveDownloadBlockProgressLocked := False,
     receivePrefetchByteProgress := None, header_hidden := True, spinner_hidden := True,
     status_text := None, progress_hidden := True, progress_text := NoProgressText,
     ring_dashoffset := RingOffset 0\<rparr>"

text \<open>The bytes of the prefetch window are remembered even if the status comes too late to be shown.\<close>

definition remember_prefetch :: "download_status \<Rightarrow> receive_view \<Rightarrow> receive_view" where
  "remember_prefetch status v = (case status of
     AwaitingMetadataBlock _ received (Some ceiling1) \<Rightarrow>
       if 0 < ceiling1
       then v\<lparr>receivePrefetchByteProgress := Some
              (max (case receivePrefetchByteProgress v of Some (n, _) \<Rightarrow> n | None \<Rightarrow> 0) (default_to received 0),
               ceiling1)\<rparr>
       else v
   | _ \<Rightarrow> v)"

definition remember_blocks :: "download_status \<Rightarrow> receive_view \<Rightarrow> receive_view" where
  "remember_blocks status v = (case status of
     Downloading completed count1 _ transferred bytesTotal \<Rightarrow>
       rememberReceiveDownloadBlockProgress completed count1 transferred bytesTotal
         (v\<lparr>receivePrefetchByteProgress := None\<rparr>)
   | _ \<Rightarrow> v)"

definition spin_ring :: "receive_view \<Rightarrow> receive_view" where
  "spin_ring v = v\<lparr>ring_dashoffset := RingUnset, ring_indeterminate := True\<rparr>"

text \<open>What a shown status does to the ring and the progress text before blocks are counted.\<close>

definition paint_phase :: "download_status \<Rightarrow> receive_view \<Rightarrow> receive_view" where
  "paint_phase status v = (case status of
     AwaitingMetadataBlock _ _ _ \<Rightarrow> paintReceivePrefetchByteProgress (spin_ring v)
   | _ \<Rightarrow>
       if (case status of WaitingMetadataBlock _ _ \<Rightarrow> receivePrefetchByteProgress v \<noteq> None | _ \<Rightarrow> False)
       then paintReceivePrefetchByteProgress (spin_ring v)
       else if isPreBlockProgressPhase status
       then spin_ring (v\<lparr>progress_hidden := True, progress_text := NoProgressText\<rparr>)
       else (case status of
               Downloading _ _ _ _ _ \<Rightarrow> paintReceiveDownloadBlockProgress v
             | Decrypting count1 \<Rightarrow> v\<lparr>progress_hidden := False,
                 progress_text := BlocksText count1 count1 None, ring_dashoffset := RingOffset 0\<rparr>
             | _ \<Rightarrow> v))"

text \<open>Every status but \<open>resolving_window\<close>.\<close>

definition apply_status :: "download_status \<Rightarrow> receive_view \<Rightarrow> receive_view" where
  "apply_status status v =
     (let v1 = remember_prefetch status v; rank = RECEIVE_DOWNLOAD_PHASE_RANK status in
      if rank < receiveDownloadStatusRank v1
      then (if receiveDownloadBlockProgressLocked v1 then paintReceiveDownloadBlockProgress v1
            else if receivePrefetchByteProgress v1 \<noteq> None then paintReceivePrefetchByteProgress v1
            else v1)
      else
        let v2 = remember_blocks status (v1\<lparr>receiveDownloadStatusRank := rank\<rparr>);
            v3 = setReceiveDownloadStatus (Some status) (v2\<lparr>ring_indeterminate := False\<rparr>) in
        if receiveDownloadBlockProgressLocked v3 then paintReceiveDownloadBlockProgress v3
        else paint_phase status v3)"

definition apply_window_status :: "download_status \<Rightarrow> receive_view \<Rightarrow> receive_view" where
  "apply_window_status status v =
     (if receiveDownloadBlockProgressLocked v then paintReceiveDownloadBlockProgress v
      else setReceiveDownloadStatus (Some status)
             (v\<lparr>receiveDownloadStatusRank := max (receiveDownloadStatusRank v)
                  (RECEIVE_DOWNLOAD_PHASE_RANK status), ring_indeterminate := False\<rparr>))"

definition setReceiveDownloadProgress :: "download_status option \<Rightarrow> receive_view \<Rightarrow> receive_view" where
  "setReceiveDownloadProgress update v = (case update of
     None \<Rightarrow> clearReceiveDownloadProgress v
   | Some status \<Rightarrow> (case status of
       ResolvingWindow _ _ _ \<Rightarrow> apply_window_status status v
     | _ \<Rightarrow> apply_status status v))"

section \<open>The download button and the received file\<close>

definition setReceiveDownloadVisual :: "receive_download_state \<Rightarrow> receive_view \<Rightarrow> receive_view" where
  "setReceiveDownloadVisual state v = v\<lparr>trigger_visual := state\<rparr>"

definition updateReceiveDownloadButton :: "receive_view \<Rightarrow> receive_view" where
  "updateReceiveDownloadButton v =
     (if receiveDownloading v then (setReceiveDownloadVisual DownloadActive v)\<lparr>trigger_disabled := True\<rparr>
      else if receivedFile v \<noteq> None then (setReceiveDownloadVisual DownloadDone v)\<lparr>trigger_disabled := True\<rparr>
      else let done_typing = isComplete (receiveCredentialInput v)
           in (setReceiveDownloadVisual (if done_typing then DownloadReady else DownloadIdle) v)
                \<lparr>trigger_disabled := \<not> done_typing\<rparr>)"

definition showReceivedFile :: "string \<Rightarrow> bytes \<Rightarrow> bool \<Rightarrow> receive_view \<Rightarrow> receive_view" where
  "showReceivedFile fileName data autoSaveAttempted v = updateReceiveDownloadButton
     (v\<lparr>receivedFile := Some \<lparr>rf_fileName = fileName, rf_data = data\<rparr>, bar_disabled := False,
        bar_ready := True, bar_pending_hidden := True, bar_ready_hidden := False,
        bar_hint_hidden := False,
        bar_hint := (if autoSaveAttempted then AutoSaveTried else ClickToSave),
        bar_icon := Some (renderFileIconForName fileName), bar_name := fileName,
        bar_size := formatBytes (int (length data))\<rparr>)"

definition handleSaveReceivedFile :: "thrown option \<Rightarrow> receive_view \<Rightarrow> unit res \<times> receive_view" where
  "handleSaveReceivedFile refused v = (case receivedFile v of
     None \<Rightarrow> (Inr (), v)
   | Some f \<Rightarrow> saveBlob refused (rf_fileName f) (rf_data f) v)"

section \<open>Downloading\<close>

text \<open>
  The client of the runtime: the download over its stack and its limit of a relay body.
\<close>

type_synonym ('m, 'p) receive_client = "('m, 'p) download_deps \<times> int"

text \<open>\<open>handleReceiveDownload\<close> up to the call of \<open>receiveFile\<close>; \<open>None\<close> is an early return.\<close>

definition begin_download :: "'rt option \<Rightarrow> receive_view \<Rightarrow> (string \<times> 'rt) option res \<times> receive_view" where
  "begin_download runtime v =
     (if receiveDownloading v then (Inr None, v)
      else let v1 = v\<lparr>receiveError := clearBanner\<rparr>; credential = getValue (receiveCredentialInput v) in
        if length credential \<noteq> CREDENTIAL_LENGTH
        then (Inr None, v1\<lparr>receiveError := showBanner CredentialLengthMessage\<rparr>)
        else (case requireRuntime runtime of
            Inl e \<Rightarrow> (Inl e, v1)
          | Inr client \<Rightarrow> (Inr (Some (credential, client)),
              updateReceiveDownloadButton (v1\<lparr>receiveDownloading := True\<rparr>))))"

definition finish_download :: "receive_view \<Rightarrow> receive_view" where
  "finish_download v =
     updateReceiveDownloadButton (setReceiveDownloadProgress None (v\<lparr>receiveDownloading := False\<rparr>))"

text \<open>What follows the await: the \<open>try\<close> block, the \<open>catch\<close> and the \<open>finally\<close>.\<close>

definition end_download ::
    "thrown option \<Rightarrow> bool \<Rightarrow> download_result res \<Rightarrow> receive_view \<Rightarrow> receive_view" where
  "end_download refused autoSave outcome v = finish_download (case outcome of
     Inl e \<Rightarrow> v\<lparr>receiveError := showBanner (ReceiveFailed (formatUnknownError (UThrown e)))\<rparr>
   | Inr received \<Rightarrow>
       let v1 = showReceivedFile (dl_fileName received) (dl_data received) autoSave v in
       if autoSave
       then (case saveBlob refused (dl_fileName received) (dl_data received) v1 of
               (Inl e, v2) \<Rightarrow> v2\<lparr>bar_hint := AutoSaveBlocked\<rparr>
             | (Inr _, v2) \<Rightarrow> v2)
       else v1)"

definition show_reports :: "download_status list \<Rightarrow> receive_view \<Rightarrow> receive_view" where
  "show_reports rs = fold (\<lambda>s. setReceiveDownloadProgress (Some s)) rs"

definition page_download_options :: "int \<Rightarrow> download_options" where
  "page_download_options limit =
     \<lparr>do_initialTokens = None, do_relayMaxBodyBytes = Some limit, do_onStatus = True\<rparr>"

text \<open>The handler when nobody touches the page meanwhile.\<close>

definition handleReceiveDownload ::
    "('m, 'p) receive_client option \<Rightarrow> thrown option \<Rightarrow> bool \<Rightarrow> ('m \<times> 'p) \<times> receive_view \<Rightarrow>
     unit res \<times> ('m \<times> 'p) \<times> receive_view" where
  "handleReceiveDownload runtime refused autoSave wv = (case wv of (w, v) \<Rightarrow>
     (case begin_download runtime v of
        (Inl e, v1) \<Rightarrow> (Inl e, w, v1)
      | (Inr None, v1) \<Rightarrow> (Inr (), w, v1)
      | (Inr (Some (credential, dd, limit)), v1) \<Rightarrow>
          (case receiveFile dd (page_download_options limit) credential w of
             (outcome, rs, w1) \<Rightarrow>
               (Inr (), w1, end_download refused autoSave outcome (show_reports rs v1)))))"

section \<open>Entering a credential\<close>

text \<open>The callback registered by \<open>startApp\<close>.\<close>

definition on_credential_change :: "receive_view \<Rightarrow> receive_view" where
  "on_credential_change v =
     (let v1 = resetReceiveFileBar v;
          v2 = (if \<not> receiveDownloading v1 then setReceiveDownloadProgress None v1 else v1)
      in (updateReceiveDownloadButton v2)\<lparr>receiveError := clearBanner\<rparr>)"

text \<open>An operation on the input boxes; the callback runs as its last act if it notifies.\<close>

definition with_input :: "(credential_input \<Rightarrow> credential_input) \<Rightarrow> receive_view \<Rightarrow> receive_view" where
  "with_input f v =
     (let before = receiveCredentialInput v; v1 = v\<lparr>receiveCredentialInput := f before\<rparr> in
      if notified before < notified (f before) then on_credential_change v1 else v1)"

text \<open>\<open>clipboard\<close> is what \<open>readText\<close> resolves to; a rejected promise is \<open>None\<close>.\<close>

definition pasteReceiveCredential :: "string option \<Rightarrow> receive_view \<Rightarrow> receive_view" where
  "pasteReceiveCredential clipboard v =
     (let v1 = v\<lparr>receiveError := clearBanner\<rparr> in
      case clipboard of
        None \<Rightarrow> v1\<lparr>receiveError := showBanner ClipboardUnreadable\<rparr>
      | Some text \<Rightarrow>
          if trim text = [] then v1\<lparr>receiveError := showBanner ClipboardEmpty\<rparr>
          else let v2 = with_input (applyCredential text) v1 in
            if \<not> isComplete (receiveCredentialInput v2)
            then v2\<lparr>receiveError := showBanner ClipboardTooShort\<rparr> else v2)"

section \<open>Opening a link\<close>

text \<open>
  \<open>consumeReceiveLinkIntent\<close> up to a download it starts: what is left to do, the new value of
  \<open>receiveIntentConsumed\<close> (the hash is cleared and the panel switched exactly when it becomes set)
  and the panel.
\<close>

datatype link_action = LinkIgnored | LinkRejected | LinkDownload | LinkWaits

definition consumeReceiveLinkIntent ::
    "string \<Rightarrow> bool \<Rightarrow> receive_view \<Rightarrow> link_action \<times> bool \<times> receive_view" where
  "consumeReceiveLinkIntent hash receiveIntentConsumed v =
     (if receiveIntentConsumed then (LinkIgnored, True, v)
      else case parseReceiveIntent hash of
        NoIntent \<Rightarrow> (LinkIgnored, False, v)
      | InvalidIntent reason \<Rightarrow> (LinkRejected, True, v\<lparr>receiveError := showBanner LinkDamaged\<rparr>)
      | ValidIntent credential autoDownload \<Rightarrow>
          let v1 = with_input (applyCredential credential) v in
          if \<not> isComplete (receiveCredentialInput v1)
          then (LinkRejected, True, v1\<lparr>receiveError := showBanner LinkCredentialInvalid\<rparr>)
          else if autoDownload then (LinkDownload, True, v1) else (LinkWaits, True, v1))"

section \<open>The panel under every order of events\<close>

text \<open>
  The panel with the credential of the download that runs, if any. Whatever the user, the browser and
  the download do is one of the steps.
\<close>

type_synonym receive_state = "receive_view \<times> string option"

inductive receive_step :: "receive_state \<Rightarrow> receive_state \<Rightarrow> bool" where
  typed: "index < CREDENTIAL_LENGTH \<Longrightarrow> receive_step (v, job) (with_input (on_input index x) v, job)"
| pressed: "index < CREDENTIAL_LENGTH \<Longrightarrow>
    receive_step (v, job) (with_input (\<lambda>s. fst (on_keydown index k s)) v, job)"
| pasted: "receive_step (v, job) (with_input (applyCredential clip) v, job)"
| paste_clicked: "receive_step (v, job) (pasteReceiveCredential clipboard v, job)"
| started: "begin_download (runtime :: unit option) v = (Inr (Some (credential, client)), v') \<Longrightarrow>
    receive_step (v, job) (v', Some credential)"
| refused: "begin_download (runtime :: unit option) v = (Inr None, v') \<Longrightarrow> receive_step (v, job) (v', job)"
| unready: "begin_download (runtime :: unit option) v = (Inl e, v') \<Longrightarrow> receive_step (v, job) (v', job)"
| reported: "receive_step (v, Some credential) (setReceiveDownloadProgress (Some status) v, Some credential)"
| ended: "receive_step (v, Some credential) (end_download save_error autoSave outcome v, None)"
| saved: "receive_step (v, job) (snd (handleSaveReceivedFile save_error v), job)"
| link_opened: "consumeReceiveLinkIntent hash consumed v = (action, consumed', v') \<Longrightarrow>
    receive_step (v, job) (v', job)"

inductive_cases receive_stepE: "receive_step s t"

text \<open>The elements as \<open>index.html\<close> has them, and the panel after the first lines of \<open>startApp\<close>.\<close>

definition receive_html :: receive_view where
  "receive_html = \<lparr> receiveCredentialInput = new_credential_input, receivedFile = None,
     receiveDownloading = False, receiveDownloadStatusRank = 0, receiveDownloadBlockProgress = None,
     receiveDownloadBlockProgressLocked = False, receivePrefetchByteProgress = None,
     header_hidden = True, spinner_hidden = True, status_text = None, progress_hidden = True,
     progress_text = NoProgressText, ring_dashoffset = RingUnset, ring_indeterminate = False,
     trigger_visual = DownloadIdle, trigger_disabled = False, bar_disabled = False, bar_ready = False,
     bar_pending_hidden = False, bar_ready_hidden = True, bar_hint_hidden = True, bar_hint = ClickToSave,
     bar_icon = None, bar_name = [], bar_size = [], receiveError = None, saved_blobs = [] \<rparr>"

definition receive_start :: receive_view where
  "receive_start = updateReceiveDownloadButton (resetReceiveFileBar
     (receive_html\<lparr>receiveCredentialInput := onChange new_credential_input\<rparr>))"

text \<open>What the variables say the button and the bar of the received file have to show.\<close>

definition button_due :: "receive_view \<Rightarrow> receive_download_state" where
  "button_due v = (if receiveDownloading v then DownloadActive
     else if receivedFile v \<noteq> None then DownloadDone
     else if isComplete (receiveCredentialInput v) then DownloadReady else DownloadIdle)"

definition bar_consistent :: "receive_view \<Rightarrow> bool" where
  "bar_consistent v \<longleftrightarrow> bar_disabled v = (receivedFile v = None) \<and>
     bar_ready v = (receivedFile v \<noteq> None) \<and> bar_pending_hidden v = (receivedFile v \<noteq> None) \<and>
     bar_ready_hidden v = (receivedFile v = None) \<and> bar_hint_hidden v = (receivedFile v = None) \<and>
     (receivedFile v = None \<longrightarrow> bar_icon v = None) \<and>
     bar_name v = (case receivedFile v of None \<Rightarrow> [] | Some f \<Rightarrow> rf_fileName f) \<and>
     bar_size v = (case receivedFile v of
        None \<Rightarrow> [] | Some f \<Rightarrow> formatBytes (int (length (rf_data f))))"

definition progress_cleared :: "receive_view \<Rightarrow> bool" where
  "progress_cleared v \<longleftrightarrow> receiveDownloadStatusRank v = 0 \<and> receiveDownloadBlockProgress v = None \<and>
     \<not> receiveDownloadBlockProgressLocked v \<and> receivePrefetchByteProgress v = None \<and>
     header_hidden v \<and> spinner_hidden v \<and> status_text v = None \<and> progress_hidden v \<and>
     progress_text v = NoProgressText"

definition receive_ok :: "receive_state \<Rightarrow> bool" where
  "receive_ok s \<longleftrightarrow> (case s of (v, job) \<Rightarrow>
     receiveDownloading v = (job \<noteq> None) \<and> trigger_visual v = button_due v \<and>
     trigger_disabled v = (button_due v \<noteq> DownloadReady) \<and> bar_consistent v \<and>
     (receiveDownloading v \<or> progress_cleared v) \<and>
     has_callback (receiveCredentialInput v) \<and> boxes_inv (receiveCredentialInput v))"

lemma input_ops_callback:
  "has_callback (on_input i x s) = has_callback s"
  "has_callback (fst (on_keydown i k s)) = has_callback s"
  "has_callback (applyCredential c s) = has_callback s"
  by (simp_all add: on_input_def on_keydown_def applyCredential_def notifyChange_def Let_def)

lemma input_ops_notify:
  "has_callback s \<Longrightarrow> notified s < notified (on_input i x s)"
  "has_callback s \<Longrightarrow> notified s < notified (applyCredential c s)"
  "notified (fst (on_keydown i k s)) = notified s"
  "inputs (fst (on_keydown i k s)) = inputs s"
  by (simp_all add: on_input_def on_keydown_def applyCredential_def notifyChange_def Let_def)

lemma receive_ok_change:
  "receiveDownloading v = (job \<noteq> None) \<Longrightarrow> has_callback (receiveCredentialInput v) \<Longrightarrow>
   boxes_inv (receiveCredentialInput v) \<Longrightarrow> receive_ok (on_credential_change v, job)"
  by (simp add: receive_ok_def on_credential_change_def resetReceiveFileBar_def bar_consistent_def
      setReceiveDownloadProgress_def clearReceiveDownloadProgress_def updateReceiveDownloadButton_def
      setReceiveDownloadVisual_def button_due_def progress_cleared_def Let_def)

text \<open>The parts of the panel that painting progress leaves alone.\<close>

definition same_controls :: "receive_view \<Rightarrow> receive_view \<Rightarrow> bool" where
  "same_controls v v' \<longleftrightarrow> receiveCredentialInput v' = receiveCredentialInput v \<and>
     receivedFile v' = receivedFile v \<and> receiveDownloading v' = receiveDownloading v \<and>
     trigger_visual v' = trigger_visual v \<and> trigger_disabled v' = trigger_disabled v \<and>
     bar_disabled v' = bar_disabled v \<and> bar_ready v' = bar_ready v \<and>
     bar_pending_hidden v' = bar_pending_hidden v \<and> bar_ready_hidden v' = bar_ready_hidden v \<and>
     bar_hint_hidden v' = bar_hint_hidden v \<and> bar_icon v' = bar_icon v \<and>
     bar_name v' = bar_name v \<and> bar_size v' = bar_size v \<and> saved_blobs v' = saved_blobs v \<and>
     receiveError v' = receiveError v"

lemmas paint_defs = setReceiveDownloadProgress_def apply_status_def apply_window_status_def
  clearReceiveDownloadProgress_def
  remember_prefetch_def remember_blocks_def rememberReceiveDownloadBlockProgress_def paint_phase_def
  spin_ring_def setReceiveDownloadStatus_def paintReceiveDownloadBlockProgress_def
  paintReceivePrefetchByteProgress_def

lemma same_controls_refl [simp]: "same_controls v v"
  by (simp add: same_controls_def)

lemma same_controls_trans: "same_controls u v \<Longrightarrow> same_controls v w \<Longrightarrow> same_controls u w"
  by (simp add: same_controls_def)

lemma same_controls_parts:
  "same_controls v (paintReceiveDownloadBlockProgress v)"
  "same_controls v (paintReceivePrefetchByteProgress v)"
  "same_controls v (setReceiveDownloadStatus st v)"
  "same_controls v (remember_prefetch s v)"
  "same_controls v (remember_blocks s v)"
  "same_controls v (spin_ring v)"
  "same_controls v (clearReceiveDownloadProgress v)"
  by (simp_all add: same_controls_def paint_defs Let_def split: option.split download_status.split)

lemma same_controls_phase: "same_controls v (paint_phase s v)"
  using same_controls_parts(1,2,6)[of v] same_controls_trans [OF same_controls_parts(6) same_controls_parts(2)]
  by (auto simp: paint_phase_def split: download_status.split)
    (simp_all add: same_controls_def spin_ring_def)

lemma same_controls_window: "same_controls v (apply_window_status s v)"
proof -
  have "same_controls v (v\<lparr>receiveDownloadStatusRank := r, ring_indeterminate := b\<rparr>)" for r b
    by (simp add: same_controls_def)
  from same_controls_trans [OF this same_controls_parts(3)] show ?thesis
    by (simp add: apply_window_status_def same_controls_parts(1))
qed

lemma same_controls_apply: "same_controls v (apply_status s v)"
proof -
  let ?v1 = "remember_prefetch s v"
  let ?v2 = "remember_blocks s (?v1\<lparr>receiveDownloadStatusRank := RECEIVE_DOWNLOAD_PHASE_RANK s\<rparr>)"
  let ?v3 = "setReceiveDownloadStatus (Some s) (?v2\<lparr>ring_indeterminate := False\<rparr>)"
  have 1: "same_controls v ?v1" by (rule same_controls_parts)
  have "same_controls ?v1 (?v1\<lparr>receiveDownloadStatusRank := r\<rparr>)" "same_controls ?v2 (?v2\<lparr>ring_indeterminate := b\<rparr>)" for r b
    by (simp_all add: same_controls_def)
  with 1 have 3: "same_controls v ?v3" by (meson same_controls_parts(3,5) same_controls_trans)
  show ?thesis
    unfolding apply_status_def Let_def
    using 1 3 same_controls_trans [OF 1 same_controls_parts(1)] same_controls_trans [OF 1 same_controls_parts(2)]
      same_controls_trans [OF 3 same_controls_parts(1)] same_controls_trans [OF 3 same_controls_phase]
    by simp
qed

lemma same_controls_progress: "same_controls v (setReceiveDownloadProgress u v)"
  using same_controls_parts(7) same_controls_window same_controls_apply
  by (simp add: setReceiveDownloadProgress_def split: option.split download_status.split)

lemma same_controls_ok:
  assumes "receive_ok (v, job)" "same_controls v v'" "receiveDownloading v' \<or> progress_cleared v'"
  shows "receive_ok (v', job)"
  using assms by (simp add: receive_ok_def same_controls_def button_due_def bar_consistent_def cong: option.case_cong)

lemma receive_ok_with_input:
  assumes "receive_ok (v, job)" "has_callback (f (receiveCredentialInput v))" "boxes_inv (f (receiveCredentialInput v))"
    and "notified (receiveCredentialInput v) < notified (f (receiveCredentialInput v)) \<or>
      inputs (f (receiveCredentialInput v)) = inputs (receiveCredentialInput v)"
  shows "receive_ok (with_input f v, job)"
proof (cases "notified (receiveCredentialInput v) < notified (f (receiveCredentialInput v))")
  case True
  from assms(1) have "receiveDownloading v = (job \<noteq> None)" by (simp add: receive_ok_def)
  with True assms(2,3) show ?thesis
    by (simp add: with_input_def Let_def receive_ok_change)
next
  case False
  with assms show ?thesis
    by (auto simp: with_input_def Let_def receive_ok_def button_due_def bar_consistent_def
        progress_cleared_def isComplete_def getValue_def)
qed

lemma receive_ok_typed:
  assumes "receive_ok (v, job)" "i < CREDENTIAL_LENGTH"
  shows "receive_ok (with_input (on_input i x) v, job)"
    "receive_ok (with_input (\<lambda>s. fst (on_keydown i k s)) v, job)"
proof -
  have inv: "has_callback (receiveCredentialInput v)" "boxes_inv (receiveCredentialInput v)"
    using assms(1) by (simp_all add: receive_ok_def)
  then have "boxes_inv (on_input i x (receiveCredentialInput v))"
    "boxes_inv (fst (on_keydown i k (receiveCredentialInput v)))"
    using boxes_inv_step input_step.typed input_step.pressed assms(2) by blast+
  with assms inv show "receive_ok (with_input (on_input i x) v, job)"
    "receive_ok (with_input (\<lambda>s. fst (on_keydown i k s)) v, job)"
    by (auto intro!: receive_ok_with_input simp: input_ops_callback input_ops_notify)
qed

lemma receive_ok_pasted:
  assumes "receive_ok (v, job)"
  shows "receive_ok (with_input (applyCredential c) v, job)"
proof -
  have "has_callback (receiveCredentialInput v)" using assms by (simp add: receive_ok_def)
  then show ?thesis
    by (intro receive_ok_with_input [OF assms]) (simp_all add: input_ops_callback input_ops_notify applyCredential_inv)
qed

lemma receive_ok_error: "receive_ok (v\<lparr>receiveError := e\<rparr>, job) = receive_ok (v, job)"
  by (simp add: receive_ok_def button_due_def bar_consistent_def progress_cleared_def)

lemma receive_ok_paste_button:
  "receive_ok (v, job) \<Longrightarrow> receive_ok (pasteReceiveCredential clip v, job)"
  by (simp add: pasteReceiveCredential_def Let_def receive_ok_error receive_ok_pasted split: option.split)

lemma receive_ok_link:
  "consumeReceiveLinkIntent hash consumed v = (a, consumed', v') \<Longrightarrow> receive_ok (v, job) \<Longrightarrow>
   receive_ok (v', job)"
  by (auto simp: consumeReceiveLinkIntent_def Let_def receive_ok_error receive_ok_pasted
      split: if_splits ReceiveIntent.splits)

lemma receive_ok_begin:
  assumes "receive_ok (v, job)" "begin_download runtime v = (r, v')"
  shows "case r of Inr (Some (credential, client)) \<Rightarrow> receive_ok (v', Some credential) | _ \<Rightarrow> receive_ok (v', job)"
  using assms
  by (auto simp: begin_download_def requireRuntime_def Let_def receive_ok_def updateReceiveDownloadButton_def
      setReceiveDownloadVisual_def button_due_def bar_consistent_def progress_cleared_def
      split: if_splits option.splits)

lemma receive_ok_finish:
  assumes "bar_consistent v" "has_callback (receiveCredentialInput v)" "boxes_inv (receiveCredentialInput v)"
  shows "receive_ok (finish_download v, None)"
  using assms
  by (simp add: finish_download_def receive_ok_def updateReceiveDownloadButton_def bar_consistent_def
      setReceiveDownloadVisual_def button_due_def progress_cleared_def setReceiveDownloadProgress_def
      clearReceiveDownloadProgress_def Let_def cong: option.case_cong)

lemma receive_ok_end:
  assumes "receive_ok (v, job)"
  shows "receive_ok (end_download save_error autoSave outcome v, None)"
  unfolding end_download_def
  using assms
  by (intro receive_ok_finish)
    (auto simp: receive_ok_def showReceivedFile_def bar_consistent_def saveBlob_def Let_def
      updateReceiveDownloadButton_def setReceiveDownloadVisual_def split: sum.split option.split)

lemma receive_ok_step: "receive_ok s \<Longrightarrow> receive_step s t \<Longrightarrow> receive_ok t"
proof (erule receive_stepE, goal_cases)
  case (8 v credential status)
  then have "receiveDownloading v" by (simp add: receive_ok_def)
  then have "receiveDownloading (setReceiveDownloadProgress (Some status) v)"
    using same_controls_progress[of v "Some status"] by (simp add: same_controls_def)
  with 8 same_controls_progress show ?case by (blast intro: same_controls_ok)
next
  case (10 v job save_error)
  then show ?case
    by (auto simp: handleSaveReceivedFile_def saveBlob_def receive_ok_def button_due_def bar_consistent_def
        progress_cleared_def split: option.split)
qed (use receive_ok_begin in \<open>fastforce simp: receive_ok_typed receive_ok_pasted receive_ok_paste_button
       receive_ok_link receive_ok_end\<close>)+

lemma receive_ok_start: "receive_ok (receive_start, None)"
  by (simp add: receive_start_def receive_ok_def updateReceiveDownloadButton_def resetReceiveFileBar_def
      receive_html_def setReceiveDownloadVisual_def button_due_def bar_consistent_def progress_cleared_def
      onChange_def boxes_inv_def new_credential_input_def isComplete_def getValue_def CREDENTIAL_LENGTH_def)

interpretation receive_panel: safe_system receive_step receive_ok
  by unfold_locales (rule receive_ok_step)

section \<open>The progress that is shown\<close>

text \<open>Once blocks are counted, the text and the ring show the remembered counts.\<close>

definition painted :: "receive_view \<Rightarrow> bool" where
  "painted v \<longleftrightarrow> receiveDownloadBlockProgressLocked v = (receiveDownloadBlockProgress v \<noteq> None) \<and>
     (\<forall>p. receiveDownloadBlockProgress v = Some p \<longrightarrow> \<not> progress_hidden v \<and>
        progress_text v = BlocksText (bk_completed p) (bk_total p)
          (formatTransferBytesProgress (bk_transferred p) (bk_bytesTotal p)) \<and>
        ring_dashoffset v = RingOffset (100 * (1 -
          (if 0 < bk_total p then of_int (bk_completed p) / of_int (bk_total p) else 0))))"

definition blocks_of :: "download_status \<Rightarrow> block_progress option" where
  "blocks_of s = (case s of
     Downloading c k f n whole \<Rightarrow>
       Some \<lparr>bk_completed = c, bk_total = k, bk_transferred = n, bk_bytesTotal = whole\<rparr>
   | _ \<Rightarrow> None)"

definition progress_le :: "block_progress \<Rightarrow> block_progress \<Rightarrow> bool" where
  "progress_le p q \<longleftrightarrow> bk_completed p \<le> bk_completed q \<and> bk_total p = bk_total q \<and>
     bk_bytesTotal p = bk_bytesTotal q \<and>
     (case (bk_transferred p, bk_transferred q) of
        (Some a, Some b) \<Rightarrow> a \<le> b | (None, None) \<Rightarrow> True | _ \<Rightarrow> False)"

lemma progress_le_refl [simp]: "progress_le p p"
  by (simp add: progress_le_def split: option.split)

lemma progress_le_trans: "progress_le p q \<Longrightarrow> progress_le q r \<Longrightarrow> progress_le p r"
  by (auto simp: progress_le_def split: option.splits)

lemma block_progress_kept [simp]:
  "receiveDownloadBlockProgress (paintReceiveDownloadBlockProgress v) = receiveDownloadBlockProgress v"
  "receiveDownloadBlockProgressLocked (paintReceiveDownloadBlockProgress v) = receiveDownloadBlockProgressLocked v"
  "receiveDownloadBlockProgress (paintReceivePrefetchByteProgress v) = receiveDownloadBlockProgress v"
  "receiveDownloadBlockProgressLocked (paintReceivePrefetchByteProgress v) = receiveDownloadBlockProgressLocked v"
  "receiveDownloadBlockProgress (setReceiveDownloadStatus st v) = receiveDownloadBlockProgress v"
  "receiveDownloadBlockProgressLocked (setReceiveDownloadStatus st v) = receiveDownloadBlockProgressLocked v"
  "receiveDownloadBlockProgress (remember_prefetch s v) = receiveDownloadBlockProgress v"
  "receiveDownloadBlockProgressLocked (remember_prefetch s v) = receiveDownloadBlockProgressLocked v"
  "receiveDownloadBlockProgress (spin_ring v) = receiveDownloadBlockProgress v"
  "receiveDownloadBlockProgressLocked (spin_ring v) = receiveDownloadBlockProgressLocked v"
  by (simp_all add: paintReceiveDownloadBlockProgress_def paintReceivePrefetchByteProgress_def
      setReceiveDownloadStatus_def remember_prefetch_def spin_ring_def Let_def
      split: option.split download_status.split)

lemma block_progress_phase [simp]:
  "receiveDownloadBlockProgress (paint_phase s v) = receiveDownloadBlockProgress v"
  "receiveDownloadBlockProgressLocked (paint_phase s v) = receiveDownloadBlockProgressLocked v"
  by (simp_all add: paint_phase_def split: download_status.split)

lemma block_progress_remembered [simp]:
  "receiveDownloadBlockProgress (remember_blocks s v) =
     (case blocks_of s of None \<Rightarrow> receiveDownloadBlockProgress v | Some p \<Rightarrow> Some p)"
  "receiveDownloadBlockProgressLocked (remember_blocks s v) =
     (blocks_of s \<noteq> None \<or> receiveDownloadBlockProgressLocked v)"
  by (simp_all add: remember_blocks_def rememberReceiveDownloadBlockProgress_def blocks_of_def
      split: download_status.split)

lemma painted_paint:
  "receiveDownloadBlockProgressLocked v = (receiveDownloadBlockProgress v \<noteq> None) \<Longrightarrow>
   painted (paintReceiveDownloadBlockProgress v)"
  by (auto simp: painted_def) (auto simp: paintReceiveDownloadBlockProgress_def Let_def RECEIVE_DOWNLOAD_RING_LENGTH_def)

lemma painted_unlocked:
  "\<not> receiveDownloadBlockProgressLocked v \<Longrightarrow> receiveDownloadBlockProgress v = None \<Longrightarrow> painted v"
  by (simp add: painted_def)

lemma progress_cases:
  "setReceiveDownloadProgress (Some s) v = apply_window_status s v \<or>
   setReceiveDownloadProgress (Some s) v = apply_status s v"
  by (cases s) (simp_all add: setReceiveDownloadProgress_def)

text \<open>What one status does: it keeps the counts or replaces them by its own.\<close>

lemma shown_step:
  assumes "painted v"
  shows "painted (setReceiveDownloadProgress (Some s) v)"
    and "receiveDownloadBlockProgress (setReceiveDownloadProgress (Some s) v) = receiveDownloadBlockProgress v \<or>
      blocks_of s \<noteq> None \<and>
      receiveDownloadBlockProgress (setReceiveDownloadProgress (Some s) v) = blocks_of s"
proof -
  have lock: "receiveDownloadBlockProgressLocked v = (receiveDownloadBlockProgress v \<noteq> None)"
    using assms by (simp add: painted_def)
  have 1: "painted (apply_window_status s v) \<and>
      receiveDownloadBlockProgress (apply_window_status s v) = receiveDownloadBlockProgress v"
    using lock by (simp add: apply_window_status_def painted_paint painted_unlocked)
  have 2: "painted (apply_status s v) \<and>
      (receiveDownloadBlockProgress (apply_status s v) = receiveDownloadBlockProgress v \<or>
       blocks_of s \<noteq> None \<and> receiveDownloadBlockProgress (apply_status s v) = blocks_of s)"
    using lock by (cases "blocks_of s") (simp_all add: apply_status_def Let_def painted_paint painted_unlocked)
  from progress_cases [of s v] 1 2 show "painted (setReceiveDownloadProgress (Some s) v)"
    "receiveDownloadBlockProgress (setReceiveDownloadProgress (Some s) v) = receiveDownloadBlockProgress v \<or>
      blocks_of s \<noteq> None \<and>
      receiveDownloadBlockProgress (setReceiveDownloadProgress (Some s) v) = blocks_of s"
    by (elim disjE; simp)+
qed

lemma show_reports_snoc: "show_reports (rs @ [s]) v = setReceiveDownloadProgress (Some s) (show_reports rs v)"
  by (simp add: show_reports_def)

lemma shown_from_reports:
  assumes "painted v" "receiveDownloadBlockProgress v = None"
  shows "painted (show_reports rs v) \<and>
    (\<forall>p. receiveDownloadBlockProgress (show_reports rs v) = Some p \<longrightarrow> (\<exists>s\<in>set rs. blocks_of s = Some p))"
proof (induction rs rule: rev_induct)
  case Nil
  then show ?case using assms by (simp add: show_reports_def)
next
  case (snoc s rs)
  with shown_step [of "show_reports rs v" s] show ?case
    by (auto simp: show_reports_snoc)
qed

text \<open>Reports with monotone progress, compared one by one.\<close>

lemma progress_ok_le:
  assumes ok: "progress_ok (xs @ s # ys)" and "blocks_of r = Some p" "r \<in> set xs" "blocks_of s = Some q"
  shows "progress_le p q"
proof -
  obtain f where r: "r = Downloading (bk_completed p) (bk_total p) f (bk_transferred p) (bk_bytesTotal p)"
    using assms(2) by (cases r) (auto simp: blocks_of_def)
  obtain g where s: "s = Downloading (bk_completed q) (bk_total q) g (bk_transferred q) (bk_bytesTotal q)"
    using assms(4) by (cases s) (auto simp: blocks_of_def)
  obtain us vs where xs: "xs = us @ r # vs" using assms(3) by (meson split_list)
  have split: "xs @ s # ys = us @ [r] @ vs @ [s] @ ys" by (simp add: xs)
  have "same_totals r s"
    using ok by (simp add: progress_ok_def split)
  then have same: "bk_total p = bk_total q" "bk_bytesTotal p = bk_bytesTotal q"
    "(bk_transferred p = None) = (bk_transferred q = None)" "(bk_transferred p = None) = (bk_bytesTotal p = None)"
    by (auto simp: r s)
  have "sorted (completed_of us @ [bk_completed p] @ completed_of vs @ [bk_completed q] @ completed_of ys)"
    using ok unfolding split progress_ok_def of_append by (simp add: r s)
  then have c: "bk_completed p \<le> bk_completed q" by (simp add: sorted_append)
  have t: "a \<le> b" if ab: "bk_transferred p = Some a" "bk_transferred q = Some b" for a b
  proof -
    obtain k where "bk_bytesTotal p = Some k" "bk_bytesTotal q = Some k" using same ab by force
    with ab have "transferred_of [r] = [a]" "transferred_of [s] = [b]" by (simp_all add: r s)
    with ok have "sorted (transferred_of us @ [a] @ transferred_of vs @ [b] @ transferred_of ys)"
      unfolding split progress_ok_def of_append by simp
    then show ?thesis by (simp add: sorted_append)
  qed
  show ?thesis
    using same c t by (cases "bk_transferred p"; cases "bk_transferred q") (simp_all add: progress_le_def)
qed

lemma shown_monotone:
  assumes "painted v" "receiveDownloadBlockProgress v = None" "progress_ok (xs @ ys)"
    and "receiveDownloadBlockProgress (show_reports xs v) = Some p"
  shows "\<exists>q. receiveDownloadBlockProgress (show_reports (xs @ ys) v) = Some q \<and> progress_le p q"
  using assms(3)
proof (induction ys rule: rev_induct)
  case Nil
  then show ?case using assms(4) by auto
next
  case (snoc s ys)
  have ok: "progress_ok (xs @ ys)"
    using snoc.prems by (auto simp: progress_ok_def sorted_append list_all_iff)
  with snoc.IH obtain q where q: "receiveDownloadBlockProgress (show_reports (xs @ ys) v) = Some q" "progress_le p q"
    by blast
  let ?v = "show_reports (xs @ ys) v"
  have inv: "painted ?v" "\<exists>r\<in>set (xs @ ys). blocks_of r = Some q"
    using shown_from_reports [OF assms(1,2), of "xs @ ys"] q by auto
  have next_v: "show_reports (xs @ ys @ [s]) v = setReceiveDownloadProgress (Some s) ?v"
    using show_reports_snoc [of "xs @ ys"] by simp
  from shown_step(2) [OF inv(1), of s] show ?case
  proof
    assume "receiveDownloadBlockProgress (setReceiveDownloadProgress (Some s) ?v) = receiveDownloadBlockProgress ?v"
    with q show ?thesis by (auto simp: next_v)
  next
    assume new: "blocks_of s \<noteq> None \<and>
      receiveDownloadBlockProgress (setReceiveDownloadProgress (Some s) ?v) = blocks_of s"
    then obtain q' where q': "blocks_of s = Some q'" by auto
    from inv(2) obtain r where "r \<in> set (xs @ ys)" "blocks_of r = Some q" by blast
    with progress_ok_le [of "xs @ ys" s "[]" r q q'] snoc.prems q' have "progress_le q q'" by simp
    with q new q' show ?thesis by (auto simp: next_v intro: progress_le_trans)
  qed
qed

lemma cleared_unpainted:
  "painted (setReceiveDownloadProgress None v)"
  "receiveDownloadBlockProgress (setReceiveDownloadProgress None v) = None"
  by (simp_all add: painted_def setReceiveDownloadProgress_def clearReceiveDownloadProgress_def)

lemma painted_shows:
  assumes "painted v" "receiveDownloadBlockProgress v = Some p"
  shows "progress_text v = BlocksText (bk_completed p) (bk_total p)
      (formatTransferBytesProgress (bk_transferred p) (bk_bytesTotal p))"
    and "ring_dashoffset v = RingOffset (100 * (1 -
      (if 0 < bk_total p then of_int (bk_completed p) / of_int (bk_total p) else 0)))"
  using assms by (simp_all add: painted_def)

lemma ring_le:
  assumes "progress_le p q"
  shows "100 * (1 - (if 0 < bk_total q then of_int (bk_completed q) / of_int (bk_total q) else 0)) \<le>
    (100 * (1 - (if 0 < bk_total p then of_int (bk_completed p) / of_int (bk_total p) else 0)) :: rat)"
  using assms by (simp add: progress_le_def divide_right_mono)

text \<open>A failure before blocks are counted leaves the ring as the last status put it.\<close>

lemma pre_block_spins:
  assumes "list_all isPreBlockProgressPhase rs" "rs \<noteq> []" "progress_cleared v"
  shows "ring_indeterminate (show_reports rs v) \<and> \<not> receiveDownloadBlockProgressLocked (show_reports rs v)"
  using assms(1,2)
proof (induction rs rule: rev_induct)
  case Nil
  then show ?case by simp
next
  case (snoc s rs)
  let ?v = "show_reports rs v"
  have pre: "isPreBlockProgressPhase s" "blocks_of s = None"
    using snoc.prems by (auto simp: isPreBlockProgressPhase_def blocks_of_def split: download_status.splits)
  then have eq: "show_reports (rs @ [s]) v = apply_status s ?v"
    by (cases s) (simp_all add: show_reports_snoc setReceiveDownloadProgress_def isPreBlockProgressPhase_def)
  have unlocked: "\<not> receiveDownloadBlockProgressLocked ?v"
    using snoc assms(3) by (cases "rs = []") (simp_all add: show_reports_def progress_cleared_def)
  have spins: "ring_indeterminate (paint_phase s u)" for u
    using pre by (auto simp: paint_phase_def spin_ring_def paintReceivePrefetchByteProgress_def
        isPreBlockProgressPhase_def split: download_status.splits option.splits)
  have keeps: "ring_indeterminate (paintReceivePrefetchByteProgress u) = ring_indeterminate u"
    "ring_indeterminate (remember_prefetch s u) = ring_indeterminate u"
    "receiveDownloadStatusRank (remember_prefetch s u) = receiveDownloadStatusRank u" for u
    by (simp_all add: paintReceivePrefetchByteProgress_def remember_prefetch_def split: option.split download_status.split)
  show ?case
  proof (cases "rs = []")
    case True
    then have "receiveDownloadStatusRank ?v = 0" using assms(3) by (simp add: show_reports_def progress_cleared_def)
    with unlocked pre spins show ?thesis by (simp add: eq apply_status_def Let_def keeps)
  next
    case False
    with snoc have "ring_indeterminate ?v" by simp
    with unlocked pre spins show ?thesis by (simp add: eq apply_status_def Let_def keeps)
  qed
qed

section \<open>A whole download\<close>

lemma same_controls_reports: "same_controls v (show_reports rs v)"
proof (induction rs rule: rev_induct)
  case Nil
  then show ?case by (simp add: show_reports_def)
next
  case (snoc s rs)
  then show ?case
    unfolding show_reports_snoc by (rule same_controls_trans) (rule same_controls_progress)
qed

lemma finish_download_fields:
  "receivedFile (finish_download v) = receivedFile v"
  "saved_blobs (finish_download v) = saved_blobs v"
  "receiveError (finish_download v) = receiveError v"
  "bar_hint (finish_download v) = bar_hint v"
  "receivedFile v \<noteq> None \<Longrightarrow> trigger_visual (finish_download v) = DownloadDone"
  by (simp_all add: finish_download_def updateReceiveDownloadButton_def setReceiveDownloadVisual_def
      setReceiveDownloadProgress_def clearReceiveDownloadProgress_def Let_def)

lemma showReceivedFile_fields:
  "receivedFile (showReceivedFile fileName data auto_save v) = Some \<lparr>rf_fileName = fileName, rf_data = data\<rparr>"
  "saved_blobs (showReceivedFile fileName data auto_save v) = saved_blobs v"
  "receiveError (showReceivedFile fileName data auto_save v) = receiveError v"
  by (simp_all add: showReceivedFile_def updateReceiveDownloadButton_def setReceiveDownloadVisual_def)

lemma end_download_fields:
  "end_download save_error autoSave (Inr received) v = v' \<Longrightarrow>
     receivedFile v' = Some \<lparr>rf_fileName = dl_fileName received, rf_data = dl_data received\<rparr> \<and>
     saved_blobs v' = saved_blobs v @
       (if autoSave \<and> save_error = None then [(dl_fileName received, dl_data received)] else []) \<and>
     trigger_visual v' = DownloadDone \<and> receiveError v' = receiveError v"
  "end_download save_error autoSave (Inl e) v = v' \<Longrightarrow>
     receivedFile v' = receivedFile v \<and> saved_blobs v' = saved_blobs v \<and>
     receiveError v' = Some (ReceiveFailed (formatUnknownError (UThrown e)))"
  by (auto simp: end_download_def finish_download_fields showReceivedFile_fields saveBlob_def Let_def
      showBanner_def split: option.split)

text \<open>Filling the boxes drops the old file and its error.\<close>

lemma with_input_changes:
  assumes "has_callback (receiveCredentialInput v)"
  shows "receivedFile (with_input (applyCredential c) v) = None"
    "receiveError (with_input (applyCredential c) v) = None"
    "saved_blobs (with_input (applyCredential c) v) = saved_blobs v"
    "receiveDownloading (with_input (applyCredential c) v) = receiveDownloading v"
    "receiveCredentialInput (with_input (applyCredential c) v) = applyCredential c (receiveCredentialInput v)"
  using input_ops_notify(2) [OF assms, of c]
  by (simp_all add: with_input_def on_credential_change_def resetReceiveFileBar_def Let_def clearBanner_def
      updateReceiveDownloadButton_def setReceiveDownloadVisual_def setReceiveDownloadProgress_def
      clearReceiveDownloadProgress_def)

lemma begin_download_ready:
  assumes "\<not> receiveDownloading v" "isComplete (receiveCredentialInput v)"
  shows "begin_download (Some client) v = (Inr (Some (getValue (receiveCredentialInput v), client)),
    updateReceiveDownloadButton (v\<lparr>receiveError := None, receiveDownloading := True\<rparr>))"
  using assms by (simp add: begin_download_def requireRuntime_def isComplete_def clearBanner_def Let_def)

lemma handle_download_ready:
  assumes "\<not> receiveDownloading v" "isComplete (receiveCredentialInput v)"
    and "receiveFile dd (page_download_options limit) (getValue (receiveCredentialInput v)) w = (outcome, rs, w')"
  shows "handleReceiveDownload (Some (dd, limit)) save_error autoSave (w, v) =
    (Inr (), w', end_download save_error autoSave outcome (show_reports rs
      (updateReceiveDownloadButton (v\<lparr>receiveError := None, receiveDownloading := True\<rparr>))))"
  using assms by (simp add: handleReceiveDownload_def begin_download_ready)

section \<open>Properties\<close>

text \<open>C16. The page's progress never runs backwards: whatever statuses a download reports, once a number of
  blocks is shown, every later moment of the same download shows at least as many of the same total and at
  least as many bytes of the same total, and the ring is at least as full; the texts are those of the
  remembered counts.\<close>

theorem shown_progress_monotone:
  "let rs = fst (snd (downloadAdaptive dd options credential w));
       before = show_reports (take i rs) (setReceiveDownloadProgress None v);
       later = show_reports (take (i + j) rs) (setReceiveDownloadProgress None v)
   in case receiveDownloadBlockProgress before of
        None \<Rightarrow> True
      | Some p \<Rightarrow> (\<exists>q a b. receiveDownloadBlockProgress later = Some q \<and> progress_le p q \<and>
          progress_text before = BlocksText (bk_completed p) (bk_total p)
            (formatTransferBytesProgress (bk_transferred p) (bk_bytesTotal p)) \<and>
          progress_text later = BlocksText (bk_completed q) (bk_total q)
            (formatTransferBytesProgress (bk_transferred q) (bk_bytesTotal q)) \<and>
          ring_dashoffset before = RingOffset a \<and> ring_dashoffset later = RingOffset b \<and> b \<le> a)"
proof -
  let ?rs = "fst (snd (downloadAdaptive dd options credential w))"
  let ?v = "setReceiveDownloadProgress None v"
  let ?xs = "take i ?rs" and ?ys = "take j (drop i ?rs)"
  have split: "take (i + j) ?rs = ?xs @ ?ys" by (rule take_add)
  have "progress_ok ((?xs @ ?ys) @ drop (i + j) ?rs)"
    by (simp only: split [symmetric] append_take_drop_id downloadAdaptive_reports)
  then have ok: "progress_ok (?xs @ ?ys)" by (auto simp: progress_ok_def sorted_append list_all_iff)
  show ?thesis
  proof (cases "receiveDownloadBlockProgress (show_reports ?xs ?v)")
    case None
    then show ?thesis by simp
  next
    case (Some p)
    with shown_monotone [OF cleared_unpainted ok] obtain q where
      q: "receiveDownloadBlockProgress (show_reports (?xs @ ?ys) ?v) = Some q" "progress_le p q" by blast
    have pt: "painted (show_reports us ?v)" for us
      using shown_from_reports [OF cleared_unpainted] by blast
    show ?thesis
      using q ring_le [OF q(2)] painted_shows [OF pt Some] painted_shows [OF pt q(1)]
      by (simp add: Let_def split Some)
  qed
qed

text \<open>C14. In every state the receive panel can reach, whatever is typed, pasted, clicked, opened or
  reported in whatever order, its button can be pressed exactly when no download runs, no file is
  held and the boxes hold a well-formed credential; the label, the file bar and the progress area
  agree with the variables, at most one download runs, and no progress is shown between downloads.\<close>

theorem receive_panel_consistent:
  assumes "receive_step\<^sup>*\<^sup>* (receive_start, None) (v, job)"
  shows "receiveDownloading v = (job \<noteq> None) \<and>
    trigger_disabled v = (\<not> (job = None \<and> receivedFile v = None \<and>
      RECEIVE_CREDENTIAL_PATTERN (getValue (receiveCredentialInput v)))) \<and>
    trigger_visual v = button_due v \<and> bar_consistent v \<and> (job \<noteq> None \<or> progress_cleared v)"
proof -
  have ok: "receive_ok (v, job)" using receive_panel.inv_steps [OF assms receive_ok_start] .
  then have "list_all credential_char (getValue (receiveCredentialInput v))"
    by (intro boxes_value_chars) (simp add: receive_ok_def)
  with ok show ?thesis
    by (auto simp: receive_ok_def button_due_def isComplete_def RECEIVE_CREDENTIAL_PATTERN_def CREDENTIAL_LENGTH_def)
qed

definition demo_pasted :: receive_view where
  "demo_pasted = with_input (applyCredential ''AbCdEf-12345'') receive_start"

definition demo_edited :: receive_view where
  "demo_edited = with_input (applyCredential ''zzzzzz-99999'') (snd (begin_download (Some ()) demo_pasted))"

lemma demo_begin: "fst (begin_download (Some ()) demo_pasted) = Inr (Some (''AbCdEf-12345'', ()))"
  by code_simp

lemma demo_path: "receive_step\<^sup>*\<^sup>* (receive_start, None) (demo_edited, Some ''AbCdEf-12345'')"
proof -
  let ?v = "snd (begin_download (Some ()) demo_pasted)"
  have "receive_step (receive_start, None) (demo_pasted, None)"
    unfolding demo_pasted_def by (rule receive_step.pasted)
  moreover have "begin_download (Some ()) demo_pasted = (Inr (Some (''AbCdEf-12345'', ())), ?v)"
    using demo_begin by (metis prod.collapse)
  then have "receive_step (demo_pasted, None) (?v, Some ''AbCdEf-12345'')" by (rule receive_step.started)
  moreover have "receive_step (?v, Some ''AbCdEf-12345'') (demo_edited, Some ''AbCdEf-12345'')"
    unfolding demo_edited_def by (rule receive_step.pasted)
  ultimately show ?thesis by (meson r_into_rtranclp rtranclp_trans)
qed

theorem receive_panel_consistent_witness:
  "receiveDownloading demo_edited \<and> trigger_disabled demo_edited \<and> trigger_visual demo_edited = DownloadActive"
proof -
  from receive_panel_consistent [OF demo_path] show ?thesis by (simp add: button_due_def)
qed

text \<open>Editing the credential while a download runs blocks the new one: when the download of the old
  credential succeeds, the panel holds the old file and the button stays disabled and marked as done
  although the boxes hold another complete credential; the user has to touch a box again.\<close>

theorem edited_credential_blocked:
  assumes "receive_step\<^sup>*\<^sup>* (receive_start, None) (v, Some c)"
    and "isComplete (receiveCredentialInput v)" "getValue (receiveCredentialInput v) \<noteq> c"
  shows "let v' = end_download save_error autoSave (Inr received) v in
    receive_step (v, Some c) (v', None) \<and> \<not> receiveDownloading v' \<and>
    receivedFile v' = Some \<lparr>rf_fileName = dl_fileName received, rf_data = dl_data received\<rparr> \<and>
    isComplete (receiveCredentialInput v') \<and> getValue (receiveCredentialInput v') \<noteq> c \<and>
    trigger_visual v' = DownloadDone \<and> trigger_disabled v'"
proof -
  let ?v = "end_download save_error autoSave (Inr received) v"
  have fields: "receiveCredentialInput ?v = receiveCredentialInput v" "\<not> receiveDownloading ?v"
    "receivedFile ?v = Some \<lparr>rf_fileName = dl_fileName received, rf_data = dl_data received\<rparr>"
    "trigger_visual ?v = DownloadDone" "trigger_disabled ?v"
    by (auto simp: end_download_def finish_download_def showReceivedFile_def saveBlob_def Let_def
        updateReceiveDownloadButton_def setReceiveDownloadVisual_def setReceiveDownloadProgress_def
        clearReceiveDownloadProgress_def split: option.split)
  with assms show ?thesis
    by (simp add: Let_def receive_step.ended)
qed

theorem edited_credential_blocked_witness:
  "\<exists>v. receive_step\<^sup>*\<^sup>* (receive_start, None) (v, None) \<and> trigger_disabled v \<and>
     getValue (receiveCredentialInput v) = ''zzzzzz-99999'' \<and> rf_fileName (the (receivedFile v)) = ''old.txt''"
proof -
  have val: "getValue (receiveCredentialInput demo_edited) = ''zzzzzz-99999''" by code_simp
  then have new: "isComplete (receiveCredentialInput demo_edited)"
    "getValue (receiveCredentialInput demo_edited) \<noteq> ''AbCdEf-12345''"
    by (simp_all add: isComplete_def CREDENTIAL_LENGTH_def)
  let ?v = "end_download None False (Inr \<lparr>dl_data = [1, 2], dl_fileName = ''old.txt''\<rparr>) demo_edited"
  have "receiveCredentialInput ?v = receiveCredentialInput demo_edited"
    "receivedFile ?v = Some \<lparr>rf_fileName = ''old.txt'', rf_data = [1, 2]\<rparr>" by code_simp+
  with val edited_credential_blocked [OF demo_path new, of None False "\<lparr>dl_data = [1, 2], dl_fileName = ''old.txt''\<rparr>"]
    demo_path show ?thesis
    by (intro exI [of _ ?v]) (auto simp: Let_def simp del: One_nat_def intro: rtranclp.rtrancl_into_rtrancl)
qed

text \<open>The ring keeps turning after a failure: when a download fails before blocks are counted (the
  usual case of a wrong credential), the progress texts are cleared but the class that makes the ring
  turn stays, whatever the statuses before blocks were.\<close>

theorem ring_turns_after_failure:
  assumes "progress_cleared v" "rs \<noteq> []" "list_all isPreBlockProgressPhase rs"
  shows "let v' = end_download save_error autoSave (Inl e) (show_reports rs v) in
    ring_indeterminate v' \<and> progress_cleared v' \<and> \<not> receiveDownloading v' \<and>
    receiveError v' = Some (ReceiveFailed (formatUnknownError (UThrown e)))"
  using pre_block_spins [OF assms(3,2,1)]
  by (simp add: end_download_def finish_download_def Let_def showBanner_def setReceiveDownloadProgress_def
      clearReceiveDownloadProgress_def updateReceiveDownloadButton_def setReceiveDownloadVisual_def
      progress_cleared_def)

theorem ring_turns_after_failure_witness:
  "let v = snd (begin_download (Some ()) demo_pasted);
       v' = end_download None False (Inl (ErrorObj ''gone''))
         (show_reports [ResolvingInitial 0 8 8, AwaitingMetadataBlock (Some 8) (Some 0) (Some 64)] v)
   in ring_indeterminate v' \<and> \<not> receiveDownloading v'"
proof -
  let ?v = "snd (begin_download (Some ()) demo_pasted)"
  let ?rs = "[ResolvingInitial 0 8 8, AwaitingMetadataBlock (Some 8) (Some 0) (Some 64)]"
  have 1: "progress_cleared ?v" by code_simp
  have 2: "?rs \<noteq> []" by simp
  have 3: "list_all isPreBlockProgressPhase ?rs" by (simp add: isPreBlockProgressPhase_def)
  from ring_turns_after_failure [OF 1 2 3, of None False "ErrorObj ''gone''"] show ?thesis
    by (simp add: Let_def)
qed

text \<open>C15. Opening a shared link downloads its file: in whatever idle state the panel is, the fragment of the
  link built for a well-formed credential fills the boxes with that credential and starts its
  download without a click; when it succeeds, the file is handed to the browser to be saved under
  its name, once, and shown; when it fails, nothing is saved and the error is shown.\<close>

theorem opened_link_downloads:
  assumes "RECEIVE_CREDENTIAL_PATTERN c" "receive_step\<^sup>*\<^sup>* (receive_start, None) (v, None)"
  shows "case consumeReceiveLinkIntent (CHR ''#'' # form_encode [(''v'', ''1''), (''receive'', c)]) False v of
    (action, consumed, v1) \<Rightarrow> action = LinkDownload \<and> consumed \<and>
      (case receiveFile dd (page_download_options limit) c w of (outcome, rs, w') \<Rightarrow>
       (case handleReceiveDownload (Some (dd, limit)) None True (w, v1) of (r, w1, v2) \<Rightarrow>
          r = Inr () \<and> w1 = w' \<and> getValue (receiveCredentialInput v1) = c \<and>
          (case outcome of
             Inr received \<Rightarrow>
               saved_blobs v2 = saved_blobs v @ [(dl_fileName received, dl_data received)] \<and>
               receivedFile v2 = Some \<lparr>rf_fileName = dl_fileName received, rf_data = dl_data received\<rparr> \<and>
               trigger_visual v2 = DownloadDone \<and> receiveError v2 = None
           | Inl e \<Rightarrow> saved_blobs v2 = saved_blobs v \<and> receivedFile v2 = None \<and>
               receiveError v2 = Some (ReceiveFailed (formatUnknownError (UThrown e))))))"
proof -
  have ok: "receive_ok (v, None)" using receive_panel.inv_steps [OF assms(2) receive_ok_start] .
  then have cb: "has_callback (receiveCredentialInput v)" and idle: "\<not> receiveDownloading v"
    by (simp_all add: receive_ok_def)
  let ?v1 = "with_input (applyCredential c) v"
  note v1 = with_input_changes [OF cb, of c]
  have "filter credential_char c = c" "length c = CREDENTIAL_LENGTH"
    using assms(1) by (simp_all add: RECEIVE_CREDENTIAL_PATTERN_def list_all_iff filter_id_conv CREDENTIAL_LENGTH_def)
  then have val: "getValue (receiveCredentialInput ?v1) = c" "isComplete (receiveCredentialInput ?v1)"
    using getValue_applyCredential [of c "receiveCredentialInput v"] by (simp_all add: v1 isComplete_def)
  have open1: "consumeReceiveLinkIntent (CHR ''#'' # form_encode [(''v'', ''1''), (''receive'', c)]) False v =
      (LinkDownload, True, ?v1)"
    using val parse_built_intent [OF assms(1)] by (simp add: consumeReceiveLinkIntent_def Let_def)
  obtain outcome rs w' where run: "receiveFile dd (page_download_options limit) c w = (outcome, rs, w')"
    by (metis prod_cases3)
  let ?u = "updateReceiveDownloadButton (?v1\<lparr>receiveError := None, receiveDownloading := True\<rparr>)"
  let ?v2 = "end_download None True outcome (show_reports rs ?u)"
  have handle: "handleReceiveDownload (Some (dd, limit)) None True (w, ?v1) = (Inr (), w', ?v2)"
    using run idle val by (intro handle_download_ready) (simp_all add: v1)
  have u: "receivedFile ?u = None" "saved_blobs ?u = saved_blobs v" "receiveError ?u = None"
    by (simp_all add: updateReceiveDownloadButton_def setReceiveDownloadVisual_def v1)
  have "same_controls ?u (show_reports rs ?u)" by (rule same_controls_reports)
  with u have shown: "receivedFile (show_reports rs ?u) = None" "saved_blobs (show_reports rs ?u) = saved_blobs v"
    "receiveError (show_reports rs ?u) = None" by (simp_all add: same_controls_def)
  show ?thesis
    using shown end_download_fields [OF refl, of None True _ "show_reports rs ?u"] val
    by (cases outcome) (simp_all add: open1 run handle)
qed

theorem opened_link_downloads_witness:
  "let dd = demo_download node_env (demo_metadata 2 1); w = ((), (transport_new None, ())) in
   case consumeReceiveLinkIntent (CHR ''#'' # form_encode [(''v'', ''1''), (''receive'', ''Abcdef123456'')])
          False receive_start of
     (action, consumed, v1) \<Rightarrow> action = LinkDownload \<and>
       (receivedFile (snd (snd (handleReceiveDownload (Some (dd, MiB)) None True (w, v1)))) \<noteq> None) =
         is_ok (fst (receiveFile dd (page_download_options MiB) ''Abcdef123456'' w))"
proof -
  have c: "RECEIVE_CREDENTIAL_PATTERN ''Abcdef123456''" by code_simp
  note main = opened_link_downloads [OF c rtranclp.rtrancl_refl,
      of "demo_download node_env (demo_metadata 2 1)" MiB "((), (transport_new None, ()))"]
  then show ?thesis
    by (auto simp: Let_def is_ok_def split: prod.splits sum.splits)
qed

end
