(* ===== verification/SendPage.thy ===== *)
theory SendPage
  imports Labels
begin

text \<open>
  The send panel of \<open>client/web/src/app.ts\<close>: its variables and the elements it writes are one record,
  its functions transformations of it, and \<open>handleSend\<close> runs the upload of \<open>Prepare\<close> and \<open>Upload\<close> with the
  panel beside the outside world. The statuses that the upload reports during an await are shown when
  the await ends. Percentages are exact quotients, rounded as \<open>Math.round\<close> does.
\<close>

section \<open>The panel\<close>

datatype send_progress_text =
    NoSendProgress
  | BytesOf string string
  | CountOf int int
  | UploadCount int int "int option" "(string \<times> string) option"

datatype bar_width = BarUnset | BarPercent int

datatype share_warning = LinkWarnings "ReceiveUrlWarning list" | NoLink shown

record degraded_message =
  dm_lifetimes :: "(ttl_label \<times> ttl_label) option"
  dm_relays :: "(jsnum \<times> jsnum) option"

datatype send_message =
    ChooseFile
  | SendFailed shown
  | Degraded degraded_message
  | CredentialCopied
  | CopyLinkFailed shown
  | SaveQrFailed shown

text \<open>
  A chosen file comes with its MIME type. \<open>ttl_disabled\<close> is the state of the slider, its ticks, the three
  inputs of the validity period and their button, which are only ever set together.
\<close>

record send_view =
  selectedFile :: "(js_file \<times> string) option"
  credentialDisplay :: slot_display
  sendInProgress :: bool
  sendShareState :: "string option"
  sendPrepareProgressRatio :: rat
  dropzone_has_file :: bool
  dropzone_uploaded :: bool
  dropzone_disabled :: bool
  file_empty_hidden :: bool
  file_selected_hidden :: bool
  send_icon :: "file_icon option"
  send_name :: string
  send_size :: string
  stamp_visible :: bool
  stamp_hidden :: bool
  send_disabled :: bool
  picker_disabled :: bool
  ttl_disabled :: bool
  upload_status_hidden :: bool
  upload_status_text :: "upload_text option"
  send_progress_text :: send_progress_text
  track_indeterminate :: bool
  bar_width :: bar_width
  copy_disabled :: bool
  share_hidden :: bool
  share_ttl :: "ttl_label option"
  share_warning :: "share_warning option"
  share_warning_hidden :: bool
  share_qr :: "string option"
  share_link :: string
  copy_link_disabled :: bool
  copy_link_done :: bool
  save_qr_disabled :: bool
  sendError :: "send_message banner"
  sendInfo :: "send_message banner"

section \<open>The chosen file\<close>

definition clearUploadStamp :: "send_view \<Rightarrow> send_view" where
  "clearUploadStamp v = v\<lparr>stamp_visible := False, stamp_hidden := True, dropzone_uploaded := False\<rparr>"

text \<open>The class that makes the stamp visible is added in the next animation frame.\<close>

definition showUploadStamp :: "send_view \<Rightarrow> send_view" where
  "showUploadStamp v = v\<lparr>stamp_hidden := False, stamp_visible := True, dropzone_uploaded := True\<rparr>"

definition updateSendControls :: "send_view \<Rightarrow> send_view" where
  "updateSendControls v = v\<lparr>send_disabled := sendInProgress v \<or> selectedFile v = None,
     picker_disabled := sendInProgress v, ttl_disabled := sendInProgress v,
     dropzone_disabled := sendInProgress v\<rparr>"

definition updateSendFilePicker :: "send_view \<Rightarrow> send_view" where
  "updateSendFilePicker v = (case selectedFile v of
     None \<Rightarrow> updateSendControls (clearUploadStamp
       (v\<lparr>dropzone_has_file := False, file_empty_hidden := False, file_selected_hidden := True\<rparr>))
   | Some (f, mime_type) \<Rightarrow> updateSendControls
       ((clearUploadStamp v)\<lparr>dropzone_has_file := True, file_empty_hidden := True,
          file_selected_hidden := False, send_icon := Some (renderFileIconForFile (file_name f, mime_type)),
          send_name := file_name f, send_size := formatBytes (file_size f)\<rparr>))"

section \<open>Progress of an upload\<close>

definition js_round :: "rat \<Rightarrow> int" where
  "js_round x = \<lfloor>x + 1 / 2\<rfloor>"

definition bar_at :: "rat \<Rightarrow> bar_width" where
  "bar_at ratio = BarPercent (max 4 (js_round (ratio * 100)))"

definition indeterminate_bar :: "send_view \<Rightarrow> send_view" where
  "indeterminate_bar v = v\<lparr>track_indeterminate := True, bar_width := BarUnset, send_progress_text := NoSendProgress\<rparr>"

definition show_preparing :: "int option \<Rightarrow> int option \<Rightarrow> send_view \<Rightarrow> send_view" where
  "show_preparing bytesFed totalBytes v = (case (bytesFed, totalBytes) of
     (Some fed, Some whole) \<Rightarrow>
       if 0 < whole
       then let ratio = max (sendPrepareProgressRatio v) (of_int fed / of_int whole)
            in v\<lparr>send_progress_text := BytesOf (formatBytes fed) (formatBytes whole),
                 track_indeterminate := False, sendPrepareProgressRatio := ratio, bar_width := bar_at ratio\<rparr>
       else indeterminate_bar v
   | _ \<Rightarrow> indeterminate_bar v)"

definition show_uploading :: "int \<Rightarrow> int \<Rightarrow> int \<Rightarrow> int \<Rightarrow> int \<Rightarrow> send_view \<Rightarrow> send_view" where
  "show_uploading completed inFlight count1 transferred bytesTotal v =
     (let hint = formatTransferBytesProgress (Some transferred) (Some bytesTotal);
          v1 = v\<lparr>sendPrepareProgressRatio := 0,
                 send_progress_text := UploadCount completed count1
                   (if 0 < inFlight then Some inFlight else None) hint\<rparr> in
      if count1 \<le> completed then v1\<lparr>track_indeterminate := False, bar_width := BarPercent 100\<rparr>
      else if completed = 0 \<and> 0 < inFlight then v1\<lparr>track_indeterminate := True, bar_width := BarUnset\<rparr>
      else v1\<lparr>track_indeterminate := False,
              bar_width := bar_at (if 0 < count1 then of_int completed / of_int count1 else 0)\<rparr>)"

definition setSendUploadStatus :: "upload_phase option \<Rightarrow> send_view \<Rightarrow> send_view" where
  "setSendUploadStatus update v = (case update of
     None \<Rightarrow> v\<lparr>upload_status_hidden := True, track_indeterminate := False, sendPrepareProgressRatio := 0\<rparr>
   | Some status \<Rightarrow>
       let v1 = v\<lparr>upload_status_hidden := False,
                  upload_status_text := Some (formatUploadStatusMessage status)\<rparr> in
       (case status of
          UploadPhase (Preparing bytesFed totalBytes _ _) \<Rightarrow> show_preparing bytesFed totalBytes v1
        | UploadPhase (Hashing index count1) \<Rightarrow>
            if 0 < count1
            then v1\<lparr>send_progress_text := CountOf index count1, track_indeterminate := False,
                    bar_width := bar_at (of_int index / of_int count1)\<rparr>
            else indeterminate_bar v1
        | UploadPhase (Uploading completed inFlight count1 transferred bytesTotal) \<Rightarrow>
            show_uploading completed inFlight count1 transferred bytesTotal v1
        | _ \<Rightarrow> indeterminate_bar v1))"

definition resetSendProgress :: "send_view \<Rightarrow> send_view" where
  "resetSendProgress v =
     (setSendUploadStatus None v)\<lparr>bar_width := BarPercent 0, send_progress_text := NoSendProgress\<rparr>"

section \<open>The credential and the link\<close>

definition resetSendCredential :: "send_view \<Rightarrow> send_view" where
  "resetSendCredential v = v\<lparr>credentialDisplay := reset_slots (credentialDisplay v), copy_disabled := True\<rparr>"

definition clearSendShare :: "send_view \<Rightarrow> send_view" where
  "clearSendShare v = v\<lparr>sendShareState := None, share_hidden := True, share_ttl := None,
     share_warning := None, share_warning_hidden := True, share_qr := None, share_link := [],
     copy_link_disabled := True, copy_link_done := False, save_qr_disabled := True\<rparr>"

text \<open>The sentences of the warning, in their order; \<open>None\<close> for the empty text.\<close>

definition formatShareWarnings :: "ReceiveUrlWarning list \<Rightarrow> share_warning option" where
  "formatShareWarnings ws =
     (let messages = (if Loopback \<in> set ws then [Loopback] else []) @ (if Insecure \<in> set ws then [Insecure] else [])
      in if messages = [] then None else Some (LinkWarnings messages))"

text \<open>
  \<open>runtime\<close> is the registry URL of the runtime when the function runs, \<open>createQrSvg\<close> the drawing of the QR
  library.
\<close>

definition showSendShare ::
    "(string \<Rightarrow> url option) \<Rightarrow> (string \<Rightarrow> string res) \<Rightarrow> string option \<Rightarrow> string \<Rightarrow> int \<Rightarrow>
     reserve_meta option \<Rightarrow> send_view \<Rightarrow> send_view" where
  "showSendShare parse_url createQrSvg runtime credential requestedTtlSeconds reservation v =
     (let granted = (case reservation of Some r \<Rightarrow> rs_grantedTtlSeconds r
                     | None \<Rightarrow> Fin (of_int requestedTtlSeconds));
          v1 = (clearSendShare v)\<lparr>share_hidden := False, share_ttl := Some (formatDurationLabel granted)\<rparr>;
          made = rbind (requireRuntime runtime) (\<lambda>registryUrl.
                 rbind (buildReceiveUrl parse_url registryUrl credential) (\<lambda>receiveUrl.
                 rbind (createQrSvg (result_url receiveUrl)) (\<lambda>qrSvg. Inr (receiveUrl, qrSvg)))) in
      case made of
        Inl e \<Rightarrow> v1\<lparr>share_warning := Some (NoLink (formatUnknownError (UThrown e))), share_warning_hidden := False\<rparr>
      | Inr (receiveUrl, qrSvg) \<Rightarrow>
          let v2 = v1\<lparr>sendShareState := Some (result_url receiveUrl), share_link := result_url receiveUrl,
                      share_qr := Some qrSvg, copy_link_disabled := False, save_qr_disabled := False\<rparr> in
          (case formatShareWarnings (warnings receiveUrl) of
             None \<Rightarrow> v2
           | Some w \<Rightarrow> v2\<lparr>share_warning := Some w, share_warning_hidden := False\<rparr>))"

definition resetSendPanel :: "send_view \<Rightarrow> send_view" where
  "resetSendPanel v = clearSendShare (clearUploadStamp (resetSendProgress (resetSendCredential v)))"

text \<open>Both parts \<open>None\<close> is the general sentence.\<close>

definition formatUploadReservationDegradedMessage :: "reserve_meta \<Rightarrow> degraded_message" where
  "formatUploadReservationDegradedMessage reservation =
     \<lparr>dm_lifetimes = (if num_less (rs_grantedTtlSeconds reservation) (rs_requestedTtlSeconds reservation)
        then Some (formatDurationLabel (rs_requestedTtlSeconds reservation),
                   formatDurationLabel (rs_grantedTtlSeconds reservation)) else None),
      dm_relays = (case rs_placementPlan reservation of
        Some plan \<Rightarrow> if num_less (pp_relayCount plan) (pp_idealRelayCount plan)
          then Some (pp_relayCount plan, pp_idealRelayCount plan) else None
      | None \<Rightarrow> None)\<rparr>"

section \<open>Sending\<close>

text \<open>
  The outside world of an upload, with the statuses that the page's callback was called with and has
  not shown yet, and the panel beside it.
\<close>

type_synonym 'm told = "'m \<times> upload_status list"

type_synonym 'm send_world = "'m told \<times> send_view"

text \<open>The runtime as the send panel uses it.\<close>

record 'm send_client =
  cl_deps :: "'m told upload_deps"
  cl_workers :: "'m told worker_env"
  cl_twelveC :: "'m told twelve_c"
  cl_registry :: "'m told registry_client"
  cl_relayMaxBodyBytes :: int
  cl_registryUrl :: string

text \<open>
  The rest of what the handler uses: storage (read from the world when it is needed), random bytes,
  \<open>JSON.parse\<close>, the worker and the URLs of \<open>upload-worker-factory.ts\<close>, \<open>URL\<close>, the QR library, the
  random indices of the reel and the firings of its timer.
\<close>

record 'm send_env =
  se_storage :: "'m \<Rightarrow> storage"
  se_parse :: "string \<Rightarrow> json option"
  se_random :: "'m \<Rightarrow> (nat \<Rightarrow> bytes) \<times> 'm"
  se_createWorker :: "('m told, unit) act"
  se_scriptUrl :: string
  se_binaryUrl :: string
  se_parseUrl :: "string \<Rightarrow> url option"
  se_createQrSvg :: "string \<Rightarrow> string res"
  se_reel :: "nat \<Rightarrow> nat"
  se_ticks :: "nat \<Rightarrow> (nat \<Rightarrow> nat) list"

definition show_statuses :: "upload_status list \<Rightarrow> send_view \<Rightarrow> send_view" where
  "show_statuses sts = fold (\<lambda>st. setSendUploadStatus (Some (UploadPhase st))) sts"

definition hear :: "upload_status \<Rightarrow> 'm told \<Rightarrow> 'm told" where
  "hear st w = (case w of (m, sts) \<Rightarrow> (m, sts @ [st]))"

text \<open>An await of something outside, after which the panel shows what it was told.\<close>

definition await_outside :: "('m told, 'a) act \<Rightarrow> ('m send_world, 'a) act" where
  "await_outside f wv = (case wv of (w, v) \<Rightarrow>
     (case f w of (r, (m, sts)) \<Rightarrow> (r, ((m, []), show_statuses sts v))))"

definition on_panel :: "(send_view \<Rightarrow> send_view) \<Rightarrow> ('m send_world, unit) act" where
  "on_panel f = amodify (\<lambda>(w, v). (w, f v))"

definition on_display :: "(slot_display \<Rightarrow> slot_display res) \<Rightarrow> ('m send_world, unit) act" where
  "on_display f wv = (case wv of (w, v) \<Rightarrow> (case f (credentialDisplay v) of
     Inl e \<Rightarrow> (Inl e, (w, v)) | Inr d \<Rightarrow> (Inr (), (w, v\<lparr>credentialDisplay := d\<rparr>))))"

text \<open>The messages are Chinese in the source.\<close>

definition style_thrown :: "style_failure \<Rightarrow> thrown" where
  "style_thrown e = (case e of
     StyleThrow t \<Rightarrow> t
   | InvalidStyle BothHalvesLettersOnly \<Rightarrow> ErrorObj ''Only one half can be letters only''
   | InvalidStyle WordStyleNeedsLetters \<Rightarrow> ErrorObj ''The word style needs letters''
   | InvalidStyle NoValidCredential \<Rightarrow> ErrorObj ''No credential has this style'')"

definition generate_for_page :: "'m send_env \<Rightarrow> ('m send_world, string) act" where
  "generate_for_page env wv = (case wv of ((m, sts), v) \<Rightarrow> (case se_random env m of (random, m') \<Rightarrow>
     (case generateCredential random (Some (getEffectiveCredentialStyle (se_parse env) (se_storage env m))) of
        Inl e \<Rightarrow> (Inl (style_thrown e), ((m', sts), v))
      | Inr credential \<Rightarrow> (Inr credential, ((m', sts), v)))))"

text \<open>
  The encryption of one attempt: the map and, for a streamed file, the hashes. The statuses of the
  streamed encryption are those of its run.
\<close>

definition page_wire_options :: "'m send_env \<Rightarrow> int \<Rightarrow> prepare_options" where
  "page_wire_options env limit = \<lparr>wo_maxWireBlockBytes = None, wo_relayMaxBodyBytes = Some limit,
     wo_preferConservative = None, po_wasmScriptUrl = Some (se_scriptUrl env),
     po_wasmBinaryUrl = Some (se_binaryUrl env), po_preferWorker = None\<rparr>"

definition prepare_streamed ::
    "'m send_env \<Rightarrow> 'm send_client \<Rightarrow> js_file \<Rightarrow> string \<Rightarrow>
     ('m told, upload_map \<times> block_hash_entry list option) act" where
  "prepare_streamed env client f credential w =
     (case prepareUploadStreamingWithHashes (ud_env (cl_deps client))
             ((cl_workers client)\<lparr>we_createUploadWorker := Some (se_createWorker env)\<rparr>) f credential
             (cl_twelveC client) (Some (file_name f)) None
             (page_wire_options env (cl_relayMaxBodyBytes client)) None (w, fresh_run) of
        (r, (w1, p)) \<Rightarrow>
          abind (alift r) (\<lambda>(uploads, pool1, blocks).
          abind (ud_drain (cl_deps client) pool1 blocks) (\<lambda>blockHashes.
          areturn (uploads, Some blockHashes))) (fold hear (status_events (pr_events p)) w1))"

definition prepare_at_once ::
    "'m send_client \<Rightarrow> js_file \<Rightarrow> bytes \<Rightarrow> string \<Rightarrow>
     ('m told, upload_map \<times> block_hash_entry list option) act" where
  "prepare_at_once client f bytes1 credential =
     abind (prepareUpload (ud_env (cl_deps client)) (cl_twelveC client) bytes1 credential
              (Some (file_name f)) None
              \<lparr>wo_maxWireBlockBytes = None, wo_relayMaxBodyBytes = Some (cl_relayMaxBodyBytes client),
               wo_preferConservative = None\<rparr>)
       (\<lambda>uploads. areturn (uploads, None))"

text \<open>\<open>bytes1\<close> is \<open>None\<close> for a streamed file.\<close>

definition prepare_attempt ::
    "'m send_env \<Rightarrow> 'm send_client \<Rightarrow> js_file \<Rightarrow> bytes option \<Rightarrow> string \<Rightarrow>
     ('m send_world, upload_map \<times> block_hash_entry list option) act" where
  "prepare_attempt env client f bytes1 credential = (case bytes1 of
     None \<Rightarrow> await_outside (prepare_streamed env client f credential)
   | Some b \<Rightarrow>
       aseq (on_panel (setSendUploadStatus (Some (UploadPhase (Preparing None None None None)))))
         (await_outside (prepare_at_once client f b credential)))"

definition page_upload_options ::
    "'m send_client \<Rightarrow> int \<Rightarrow> block_hash_entry list option \<Rightarrow> 'm told upload_options" where
  "page_upload_options client ttlSeconds blockHashes =
     (send_options (cl_registry client) None)
       \<lparr>op_ttlSeconds := Some (Fin (of_int ttlSeconds)), op_precomputedBlockHashes := blockHashes\<rparr>"

definition page_upload ::
    "'m send_client \<Rightarrow> upload_map \<Rightarrow> int \<Rightarrow> block_hash_entry list option \<Rightarrow> ('m told, prepared_result) act" where
  "page_upload client uploads ttlSeconds blockHashes =
     uploadPrepared ((cl_deps client)\<lparr>ud_say := hear\<rparr>) uploads
       (page_upload_options client ttlSeconds blockHashes)"

text \<open>What the panel shows when the upload has ended well; \<open>later\<close> is the registry URL of the runtime
  then, which the settings panel may have replaced meanwhile.\<close>

definition show_sent ::
    "'m send_env \<Rightarrow> string option \<Rightarrow> string \<Rightarrow> int \<Rightarrow> upload_map \<Rightarrow> reserve_meta option \<Rightarrow>
     send_view \<Rightarrow> send_view" where
  "show_sent env later credential ttlSeconds uploads reservation v =
     (let count1 = int (length uploads);
          v1 = (setSendUploadStatus None v)\<lparr>bar_width := BarPercent 100, send_progress_text := CountOf count1 count1\<rparr>;
          v2 = (case reservation of
                  Some r \<Rightarrow> if rs_degraded r
                    then v1\<lparr>sendInfo := showBanner (Degraded (formatUploadReservationDegradedMessage r))\<rparr>
                    else v1
                | None \<Rightarrow> v1) in
      showUploadStamp
        (showSendShare (se_parseUrl env) (se_createQrSvg env) later credential ttlSeconds reservation v2))"

definition send_attempt ::
    "'m send_env \<Rightarrow> 'm send_client \<Rightarrow> string option \<Rightarrow> js_file \<Rightarrow> bytes option \<Rightarrow> int \<Rightarrow> string \<Rightarrow>
     ('m send_world, unit) act" where
  "send_attempt env client later f bytes1 ttlSeconds credential =
     abind (prepare_attempt env client f bytes1 credential) (\<lambda>(uploads, blockHashes).
     aseq (on_display (revealSequential (se_ticks env) credential))
     (aseq (on_panel (\<lambda>v. v\<lparr>copy_disabled := False\<rparr>))
     (abind (await_outside (page_upload client uploads ttlSeconds blockHashes)) (\<lambda>prepared.
      on_panel (show_sent env later credential ttlSeconds uploads (pd_reservation prepared))))))"

text \<open>The loop over the attempts is that of \<open>sendFile\<close>; after a conflict the reel spins again.\<close>

definition send_body ::
    "'m send_env \<Rightarrow> 'm send_client \<Rightarrow> string option \<Rightarrow> js_file \<Rightarrow> int \<Rightarrow> ('m send_world, unit) act" where
  "send_body env client later f ttlSeconds =
     (let streaming = V21_WHOLE_FILE_THRESHOLD_BYTES < file_size f;
          read_bytes = (if streaming then Inr None else map_sum id Some (file_arrayBuffer f)) in
      aseq (if \<not> streaming then on_panel (setSendUploadStatus (Some ReadingFile)) else areturn ())
     (aseq (on_display (enterReelWhenReady (map_sum id (\<lambda>_. ()) read_bytes) (se_reel env)))
     (abind (alift read_bytes) (\<lambda>bytes1.
      abind (send_attempts (generate_for_page env)
               (send_attempt env client later f bytes1 ttlSeconds)
               (\<lambda>attempt maxAttempts occupied (w, v).
                  (w, v\<lparr>credentialDisplay := startReelSpinning (se_reel env) (credentialDisplay v)\<rparr>))
               DEFAULT_MAX_RESERVATION_ATTEMPTS 1 [])
        (\<lambda>_. areturn ())))))"

definition send_failed :: "thrown \<Rightarrow> send_view \<Rightarrow> send_view" where
  "send_failed e v =
     (let v1 = (setSendUploadStatus None v)\<lparr>sendError := showBanner (SendFailed (formatUnknownError (UThrown e)))\<rparr> in
      if slots_getValue (credentialDisplay v1) = []
      then v1\<lparr>credentialDisplay := reset_slots (credentialDisplay v1)\<rparr> else v1)"

definition send_finally :: "send_view \<Rightarrow> send_view" where
  "send_finally v = updateSendControls (v\<lparr>sendInProgress := False\<rparr>)"

text \<open>The panel when the button is pressed, up to the \<open>try\<close>: \<open>None\<close> without a file.\<close>

definition begin_send :: "'rt option \<Rightarrow> send_view \<Rightarrow> (js_file \<times> 'rt) option res \<times> send_view" where
  "begin_send runtime v =
     (let v1 = resetSendPanel (v\<lparr>sendError := clearBanner, sendInfo := clearBanner\<rparr>) in
      case selectedFile v1 of
        None \<Rightarrow> (Inr None, v1\<lparr>sendError := showBanner ChooseFile\<rparr>)
      | Some (f, mime_type) \<Rightarrow>
          (case requireRuntime runtime of
             Inl e \<Rightarrow> (Inl e, v1)
           | Inr client \<Rightarrow>
               let v2 = updateSendControls (v1\<lparr>copy_disabled := True, sendInProgress := True\<rparr>) in
               (case startBreathing (credentialDisplay v2) of
                  Inl e \<Rightarrow> (Inl e, v2)
                | Inr d \<Rightarrow> (Inr (Some (f, client)), v2\<lparr>credentialDisplay := d\<rparr>))))"

definition handleSend ::
    "'m send_env \<Rightarrow> 'm send_client option \<Rightarrow> string option \<Rightarrow> 'm \<times> send_view \<Rightarrow>
     unit res \<times> 'm \<times> send_view" where
  "handleSend env runtime later wv = (case wv of (m, v) \<Rightarrow>
     (case begin_send runtime v of
        (Inl e, v1) \<Rightarrow> (Inl e, m, v1)
      | (Inr None, v1) \<Rightarrow> (Inr (), m, v1)
      | (Inr (Some (f, client)), v1) \<Rightarrow>
          (case send_body env client later f (getEffectiveFileTtlSeconds (se_storage env m)) ((m, []), v1) of
             (Inr _, ((m', _), v2)) \<Rightarrow> (Inr (), m', send_finally v2)
           | (Inl e, ((m', _), v2)) \<Rightarrow> (Inr (), m', send_finally (send_failed e v2)))))"

section \<open>What showing progress leaves alone\<close>

definition same_send :: "send_view \<Rightarrow> send_view \<Rightarrow> bool" where
  "same_send v v' \<longleftrightarrow> selectedFile v' = selectedFile v \<and> credentialDisplay v' = credentialDisplay v \<and>
     sendInProgress v' = sendInProgress v \<and> copy_disabled v' = copy_disabled v \<and>
     share_hidden v' = share_hidden v \<and> stamp_hidden v' = stamp_hidden v \<and>
     sendError v' = sendError v \<and> sendInfo v' = sendInfo v"

lemma same_send_refl [simp]: "same_send v v"
  by (simp add: same_send_def)

lemma same_send_trans: "same_send u v \<Longrightarrow> same_send v w \<Longrightarrow> same_send u w"
  by (simp add: same_send_def)

lemma same_send_status: "same_send v (setSendUploadStatus st v)"
  by (simp add: same_send_def setSendUploadStatus_def show_preparing_def show_uploading_def
      indeterminate_bar_def Let_def split: option.split upload_phase.split upload_status.split)

lemma same_send_statuses: "same_send v (show_statuses sts v)"
proof (induction sts arbitrary: v)
  case Nil
  then show ?case by (simp add: show_statuses_def)
next
  case (Cons st sts)
  from same_send_trans [OF same_send_status Cons] show ?case by (simp add: show_statuses_def)
qed

text \<open>The panel in the course of an upload, on the way to its end.\<close>

definition sending :: "(js_file \<times> string) option \<Rightarrow> 'm send_world \<Rightarrow> bool" where
  "sending s wv \<longleftrightarrow> selectedFile (snd wv) = s \<and> sendInProgress (snd wv) \<and>
     length (slots (credentialDisplay (snd wv))) = CREDENTIAL_LENGTH \<and> share_hidden (snd wv) \<and>
     stamp_hidden (snd wv) \<and> sendError (snd wv) = None"

definition revealed :: "string \<Rightarrow> 'm send_world \<Rightarrow> bool" where
  "revealed c wv \<longleftrightarrow> slots_getValue (credentialDisplay (snd wv)) = c \<and> length c = CREDENTIAL_LENGTH \<and>
     \<not> spin_timer (credentialDisplay (snd wv)) \<and>
     slots (credentialDisplay (snd wv)) = map (\<lambda>x. (SlotSettled, [x])) c"

lemma sending_same: "sending s (w, v) \<Longrightarrow> same_send v v' \<Longrightarrow> sending s (w', v')"
  by (simp add: sending_def same_send_def)

lemma revealed_same: "revealed c (w, v) \<Longrightarrow> same_send v v' \<Longrightarrow> revealed c (w', v')"
  by (simp add: revealed_def same_send_def)

lemma await_outside_result:
  "await_outside f (w, v) = (r, (w', v')) \<Longrightarrow> (\<exists>u. f w = (r, u)) \<and> same_send v v'"
  using same_send_statuses by (fastforce simp: await_outside_def split: prod.splits)

lemma prepare_attempt_same:
  "prepare_attempt env client f b c (w, v) = (r, (w', v')) \<Longrightarrow> same_send v v'"
  by (cases b)
    (auto simp: prepare_attempt_def on_panel_def aseq_def abind_def dest!: await_outside_result
      intro: same_send_trans [OF same_send_status])

lemma reveal_result:
  assumes "revealSequential ticks c d = Inr d'" "length (slots d) = CREDENTIAL_LENGTH"
  shows "slots_getValue d' = c \<and> length c = CREDENTIAL_LENGTH \<and> \<not> spin_timer d' \<and>
    slots d' = map (\<lambda>x. (SlotSettled, [x])) c"
  using reveal_shows_credential [OF assms(2), where ticks = ticks and credential = c] assms(1) by (simp add: CREDENTIAL_LENGTH_def)

text \<open>One attempt, from a panel in the course of an upload.\<close>

lemma send_attempt_cases:
  assumes "sending s (w, v)" "send_attempt env client later f b ttl c (w, v) = (r, (w', v'))"
  shows "(\<exists>e. r = Inl e \<and> sending s (w', v')) \<or>
    (\<exists>uploads hashes prepared u wv u' v2. r = Inr () \<and> prepare_attempt env client f b c (w, v) = (Inr (uploads, hashes), wv) \<and>
       page_upload client uploads ttl hashes u = (Inr prepared, u') \<and>
       sending s (w', v2) \<and> revealed c (w', v2) \<and> \<not> copy_disabled v2 \<and>
       v' = show_sent env later c ttl uploads (pd_reservation prepared) v2)"
proof -
  obtain r1 w1 v1 where 1: "prepare_attempt env client f b c (w, v) = (r1, (w1, v1))" by (metis surj_pair)
  note same1 = prepare_attempt_same [OF 1]
  have s1: "sending s (w1, v1)" using assms(1) same1 by (rule sending_same)
  show ?thesis
  proof (cases r1)
    case (Inl e)
    with assms(2) 1 s1 show ?thesis by (auto simp: send_attempt_def)
  next
    case (Inr x)
    obtain uploads hashes where x: "x = (uploads, hashes)" by (cases x)
    show ?thesis
    proof (cases "revealSequential (se_ticks env) c (credentialDisplay v1)")
      case (Inl e)
      with assms(2) 1 Inr x s1 show ?thesis by (auto simp: send_attempt_def on_display_def aseq_def abind_def)
    next
      case d: (Inr d)
      let ?v2 = "v1\<lparr>credentialDisplay := d, copy_disabled := False\<rparr>"
      have len: "length (slots (credentialDisplay v1)) = CREDENTIAL_LENGTH" using s1 by (simp add: sending_def)
      note rv = reveal_result [OF d len]
      have s2: "sending s (w1, ?v2)" "revealed c (w1, ?v2)" using s1 rv by (simp_all add: sending_def revealed_def)
      obtain r3 w3 v3 where 3: "await_outside (page_upload client uploads ttl hashes) (w1, ?v2) = (r3, (w3, v3))"
        by (metis surj_pair)
      from await_outside_result [OF this] obtain u where u: "page_upload client uploads ttl hashes w1 = (r3, u)"
        and same3: "same_send ?v2 v3" by blast
      have s3: "sending s (w3, v3)" "revealed c (w3, v3)" "\<not> copy_disabled v3"
        using s2 same3 sending_same revealed_same by (blast, blast, simp add: same_send_def)
      have run: "send_attempt env client later f b ttl c (w, v) =
          abind (\<lambda>_. (r3, (w3, v3))) (\<lambda>prepared. on_panel (show_sent env later c ttl uploads (pd_reservation prepared))) (w, v)"
        using 1 3 d by (simp add: send_attempt_def Inr x on_display_def on_panel_def aseq_def abind_def)
      show ?thesis
      proof (cases r3)
        case (Inl e)
        with run assms(2) s3 show ?thesis by (auto simp: abind_def)
      next
        case p: (Inr prepared)
        with run assms(2) have "r = Inr ()" "w' = w3"
          "v' = show_sent env later c ttl uploads (pd_reservation prepared) v3"
          by (simp_all add: abind_def on_panel_def)
        with s3 u p 1 Inr x show ?thesis by blast
      qed
    qed
  qed
qed

definition respin :: "'m send_env \<Rightarrow> int \<Rightarrow> int \<Rightarrow> occupied_token list \<Rightarrow> 'm send_world \<Rightarrow> 'm send_world" where
  "respin env attempt maxAttempts occupied wv = (case wv of (w, v) \<Rightarrow>
     (w, v\<lparr>credentialDisplay := startReelSpinning (se_reel env) (credentialDisplay v)\<rparr>))"

text \<open>A send that ended well: the credential, its encryption and its upload.\<close>

definition sent_with ::
    "'m send_env \<Rightarrow> 'm send_client \<Rightarrow> string option \<Rightarrow> js_file \<Rightarrow> bytes option \<Rightarrow> int \<Rightarrow> (js_file \<times> string) option \<Rightarrow>
     string \<Rightarrow> send_view \<Rightarrow> bool" where
  "sent_with env client later f b ttl s c v' \<longleftrightarrow>
     (\<exists>uploads hashes prepared wv0 wv1 u u' w v2.
        prepare_attempt env client f b c wv0 = (Inr (uploads, hashes), wv1) \<and>
        page_upload client uploads ttl hashes u = (Inr prepared, u') \<and>
        sending s ((w :: 'm told), v2) \<and> revealed c (w, v2) \<and> \<not> copy_disabled v2 \<and>
        v' = show_sent env later c ttl uploads (pd_reservation prepared) v2)"

lemma respin_sending: "sending s (w, v) \<Longrightarrow> sending s (respin env a n occ (w, v))"
  by (simp add: sending_def respin_def startReelSpinning_def)

lemma generate_for_page_view:
  "generate_for_page env (w, v) = (r, (w', v')) \<Longrightarrow> v' = v"
  by (auto simp: generate_for_page_def split: prod.splits sum.splits)

lemma send_attempts_sending:
  assumes "sending s (w, v)"
    and "send_attempts (generate_for_page env) (send_attempt env client later f b ttl) (respin env) n a occ (w, v)
      = (r, (w', v'))"
  shows "(\<exists>e. r = Inl e \<and> sending s (w', v')) \<or>
    (\<exists>c. r = Inr (c, ()) \<and> sent_with env client later f b ttl s c v')"
  using assms
proof (induction "nat (n + 1 - a)" arbitrary: a occ w v)
  case 0
  then show ?case by (auto simp: send_attempts.simps)
next
  case (Suc k)
  let ?run = "send_attempts (generate_for_page env) (send_attempt env client later f b ttl) (respin env) n"
  have le: "a \<le> n" using Suc.hyps(2) by simp
  obtain g w1 v1 where gen: "generate_for_page env (w, v) = (g, (w1, v1))" by (metis surj_pair)
  with generate_for_page_view have v1: "v1 = v" by blast
  with Suc.prems(1) have s1: "sending s (w1, v)" by (simp add: sending_def)
  show ?case
  proof (cases g)
    case (Inl e)
    with gen le Suc.prems(2) s1 v1 show ?thesis by (auto simp: send_attempts.simps [where attempt = a])
  next
    case c: (Inr c)
    obtain q w2 v2 where up: "send_attempt env client later f b ttl c (w1, v) = (q, (w2, v2))" by (metis surj_pair)
    note cases1 = send_attempt_cases [OF s1 up]
    show ?thesis
    proof (cases q)
      case (Inr x)
      with cases1 obtain uploads hashes prepared u wv u' v3 where
        "prepare_attempt env client f b c (w1, v) = (Inr (uploads, hashes), wv)"
        "page_upload client uploads ttl hashes u = (Inr prepared, u')"
        "sending s (w2, v3)" "revealed c (w2, v3)" "\<not> copy_disabled v3"
        "v2 = show_sent env later c ttl uploads (pd_reservation prepared) v3" by auto
      then have "sent_with env client later f b ttl s c v2" unfolding sent_with_def by blast
      with gen le Suc.prems(2) v1 c up Inr show ?thesis
        by (auto simp: send_attempts.simps [where attempt = a])
    next
      case (Inl e)
      with cases1 have s2: "sending s (w2, v2)" by simp
      show ?thesis
      proof (cases "\<exists>toks. e = RegistryTokenOccupiedError toks")
        case True
        then obtain toks where e: "e = RegistryTokenOccupiedError toks" ..
        obtain w3 v3 where sp: "respin env a n toks (w2, v2) = (w3, v3)" by (metis surj_pair)
        with respin_sending [OF s2] have s3: "sending s (w3, v3)" by metis
        have "?run (a + 1) toks (w3, v3) = (r, (w', v'))"
          using gen le Suc.prems(2) v1 c up Inl e sp by (simp add: send_attempts.simps [where attempt = a])
        with Suc.hyps(1) [of "a + 1"] Suc.hyps(2) s3 show ?thesis by simp
      next
        case False
        with gen le Suc.prems(2) v1 c up Inl s2 show ?thesis
          by (cases e) (auto simp: send_attempts.simps [where attempt = a])
      qed
    qed
  qed
qed

lemma begin_send_sending:
  assumes "begin_send runtime v = (Inr (Some (f, client)), v1)"
    and "length (slots (credentialDisplay v)) = CREDENTIAL_LENGTH"
  shows "sending (selectedFile v) (w, v1)" "\<exists>mime_type. selectedFile v = Some (f, mime_type)" "runtime = Some client"
  using assms
  by (auto simp: begin_send_def requireRuntime_def sending_def Let_def resetSendPanel_def clearSendShare_def
      clearUploadStamp_def resetSendProgress_def setSendUploadStatus_def resetSendCredential_def
      updateSendControls_def startBreathing_def stopReelTimer_def clearBanner_def throw_if_def
      split: option.splits if_splits sum.splits)

lemma send_body_cases:
  assumes "sending s (w, v)" "send_body env client later f ttl (w, v) = (r, (w', v'))"
  shows "(\<exists>e. r = Inl e \<and> sending s (w', v')) \<or>
    (\<exists>b c. r = Inr () \<and> sent_with env client later f b ttl s c v')"
proof -
  let ?read = "if V21_WHOLE_FILE_THRESHOLD_BYTES < file_size f then Inr None else map_sum id Some (file_arrayBuffer f)"
  let ?v0 = "if V21_WHOLE_FILE_THRESHOLD_BYTES < file_size f then v else setSendUploadStatus (Some ReadingFile) v"
  have s0: "sending s (w, ?v0)" using assms(1) sending_same same_send_status by fastforce
  have spin: "(\<lambda>attempt maxAttempts occupied (w, v). (w, v\<lparr>credentialDisplay :=
      startReelSpinning (se_reel env) (credentialDisplay v)\<rparr>)) = respin env"
    by (intro ext) (simp add: respin_def)
  have pre: "(if \<not> V21_WHOLE_FILE_THRESHOLD_BYTES < file_size f
      then on_panel (setSendUploadStatus (Some ReadingFile)) else areturn ()) (w, v) = (Inr (), (w, ?v0))"
    by (simp add: on_panel_def)
  show ?thesis
  proof (cases ?read)
    case (Inl e)
    then have "send_body env client later f ttl (w, v) = (Inl e, (w, ?v0))"
      using pre unfolding send_body_def Let_def
      by (simp add: aseq_def abind_def on_display_def enterReelWhenReady_def rbind_def)
    with assms(2) s0 show ?thesis by auto
  next
    case (Inr b)
    let ?v1 = "?v0\<lparr>credentialDisplay := startReelSpinning (se_reel env) (credentialDisplay ?v0)\<rparr>"
    have s1: "sending s (w, ?v1)" using s0 by (simp add: sending_def startReelSpinning_def)
    have run: "send_body env client later f ttl (w, v) =
        abind (send_attempts (generate_for_page env) (send_attempt env client later f b ttl) (respin env)
          DEFAULT_MAX_RESERVATION_ATTEMPTS 1 []) (\<lambda>_. areturn ()) (w, ?v1)"
      using pre Inr unfolding send_body_def Let_def spin
      by (simp add: aseq_def abind_def on_display_def enterReelWhenReady_def rbind_def)
    obtain q w2 v2 where at: "send_attempts (generate_for_page env) (send_attempt env client later f b ttl) (respin env)
        DEFAULT_MAX_RESERVATION_ATTEMPTS 1 [] (w, ?v1) = (q, (w2, v2))" by (metis surj_pair)
    from send_attempts_sending [OF s1 at] run at assms(2) show ?thesis
      by (cases q) (auto simp: abind_def)
  qed
qed

lemma begin_send_file:
  assumes "selectedFile v = Some (f, mime_type)"
  shows "\<exists>v1. begin_send (Some client) v = (Inr (Some (f, client)), v1) \<and> copy_disabled v1"
  using assms
  by (simp add: begin_send_def requireRuntime_def Let_def resetSendPanel_def clearSendShare_def
      clearUploadStamp_def resetSendProgress_def setSendUploadStatus_def resetSendCredential_def
      updateSendControls_def startBreathing_def WAITING_TEXT_def CREDENTIAL_LENGTH_def throw_if_def)

text \<open>The link that the panel shows for a credential.\<close>

definition shown_link :: "'m send_env \<Rightarrow> string option \<Rightarrow> string \<Rightarrow> string" where
  "shown_link env runtime credential =
     (case rbind (requireRuntime runtime) (\<lambda>registryUrl.
           rbind (buildReceiveUrl (se_parseUrl env) registryUrl credential) (\<lambda>receiveUrl.
           rbind (se_createQrSvg env (result_url receiveUrl)) (\<lambda>qrSvg. Inr (result_url receiveUrl)))) of
        Inr l \<Rightarrow> l | Inl e \<Rightarrow> [])"

lemma rbind_link:
  "rbind r (\<lambda>a. rbind (f a) (\<lambda>b. rbind (g b) (\<lambda>q. Inr (b, q)))) = Inr (b, q) \<Longrightarrow>
   rbind r (\<lambda>a. rbind (f a) (\<lambda>b. rbind (g b) (\<lambda>q. Inr (h b)))) = Inr (h b)"
  "rbind r (\<lambda>a. rbind (f a) (\<lambda>b. rbind (g b) (\<lambda>q. Inr (b, q)))) = Inl e \<Longrightarrow>
   rbind r (\<lambda>a. rbind (f a) (\<lambda>b. rbind (g b) (\<lambda>q. Inr (h b)))) = Inl e"
  by (auto simp: rbind_def split: sum.splits)

lemma showSendShare_fields:
  fixes env :: "'m send_env" and v :: send_view
  assumes s_def: "u = showSendShare (se_parseUrl env) (se_createQrSvg env) later c ttl reservation v"
  shows "share_link u = shown_link env later c"
    "selectedFile u = selectedFile v" "credentialDisplay u = credentialDisplay v"
    "sendInProgress u = sendInProgress v" "copy_disabled u = copy_disabled v"
    "sendError u = sendError v" "bar_width u = bar_width v"
    "copy_link_disabled u = (sendShareState u = None)"
    "\<not> share_hidden u"
  unfolding s_def showSendShare_def Let_def shown_link_def
  by (auto simp: clearSendShare_def rbind_def split: sum.splits option.splits)

lemma show_sent_fields:
  fixes env :: "'m send_env" and v :: send_view
  assumes s_def: "u = show_sent env later c ttl uploads reservation v"
  shows "share_link u = shown_link env later c"
    "selectedFile u = selectedFile v" "credentialDisplay u = credentialDisplay v"
    "sendInProgress u = sendInProgress v" "copy_disabled u = copy_disabled v"
    "sendError u = sendError v" "bar_width u = BarPercent 100" "\<not> stamp_hidden u" "\<not> share_hidden u"
  by (auto simp: s_def show_sent_def Let_def showUploadStamp_def showSendShare_fields [OF refl] setSendUploadStatus_def
      split: option.split)

lemma send_failed_fields:
  "selectedFile (send_failed e v) = selectedFile v"
  "share_hidden (send_failed e v) = share_hidden v" "stamp_hidden (send_failed e v) = stamp_hidden v"
  "sendError (send_failed e v) = Some (SendFailed (formatUnknownError (UThrown e)))"
  "upload_status_hidden (send_failed e v)" "copy_disabled (send_failed e v) = copy_disabled v"
  "credentialDisplay (send_failed e v) = (if slots_getValue (credentialDisplay v) = []
     then reset_slots (credentialDisplay v) else credentialDisplay v)"
  by (simp_all add: send_failed_def Let_def setSendUploadStatus_def showBanner_def)

lemma send_finally_fields:
  "\<not> sendInProgress (send_finally v)" "send_disabled (send_finally v) = (selectedFile v = None)"
  "\<not> picker_disabled (send_finally v)" "\<not> ttl_disabled (send_finally v)"
  "sendError (send_finally v) = sendError v" "share_hidden (send_finally v) = share_hidden v"
  "stamp_hidden (send_finally v) = stamp_hidden v" "upload_status_hidden (send_finally v) = upload_status_hidden v"
  "credentialDisplay (send_finally v) = credentialDisplay v" "copy_disabled (send_finally v) = copy_disabled v"
  "bar_width (send_finally v) = bar_width v" "share_link (send_finally v) = share_link v"
  by (simp_all add: send_finally_def updateSendControls_def)

section \<open>Conflicts in every attempt\<close>

lemma valid_style_generates:
  assumes "validateCredentialStyle options = None"
  shows "\<exists>c. generateStyledCredential random options = Inr c \<and> length c = CREDENTIAL_LENGTH"
proof -
  have "\<not> (lettersOnlyFirstSix options \<and> lettersOnlyLastSix options)"
    using assms by (simp add: validate_satisfiable style_satisfiable_def)
  with assms show ?thesis
    using generateWordStyleCredential_wf [of options random] generateRandomCredential_wf [OF assms, of random]
    by (auto simp: generateStyledCredential_def credential_wf_def)
qed

lemma send_attempts_all_conflict:
  assumes conflict: "\<And>w. I w \<Longrightarrow> \<exists>c w1 occ w2. gen w = (Inr c, w1) \<and>
      upload c w1 = (Inl (RegistryTokenOccupiedError occ), w2) \<and> J w2"
    and again: "\<And>a occ w. J w \<Longrightarrow> I (retried a n occ w)"
    and "a \<le> n" "I w"
  shows "\<exists>occ w'. send_attempts gen upload retried n a last1 w =
    (Inl (UploadTokenReservationExhaustedError n occ), retried n n occ w') \<and> J w'"
  using assms(3,4)
proof (induction "nat (n - a)" arbitrary: a last1 w)
  case 0
  from conflict [OF 0(3)] obtain c w1 occ w2 where
    "gen w = (Inr c, w1)" "upload c w1 = (Inl (RegistryTokenOccupiedError occ), w2)" "J w2" by blast
  moreover have "a = n" using 0 by simp
  ultimately show ?case
    by (simp add: send_attempts.simps [where attempt = n] send_attempts.simps [where attempt = "n + 1"]) blast
next
  case (Suc k)
  from conflict [OF Suc.prems(2)] obtain c w1 occ w2 where
    run: "gen w = (Inr c, w1)" "upload c w1 = (Inl (RegistryTokenOccupiedError occ), w2)" "J w2" by blast
  have "\<exists>occ' w'. send_attempts gen upload retried n (a + 1) occ (retried a n occ w2) =
      (Inl (UploadTokenReservationExhaustedError n occ'), retried n n occ' w') \<and> J w'"
    using Suc.hyps(2) again [OF run(3)] by (intro Suc.hyps(1)) simp_all
  with run Suc.prems(1) show ?case by (simp add: send_attempts.simps [where attempt = a])
qed

text \<open>What a conflict leaves: the credential of the attempt, shown and free to be copied.\<close>

definition conflict_left :: "(js_file \<times> string) option \<Rightarrow> 'm send_world \<Rightarrow> bool" where
  "conflict_left s wv \<longleftrightarrow> sending s wv \<and> \<not> copy_disabled (snd wv) \<and>
     slots_getValue (credentialDisplay (snd wv)) \<noteq> []"

lemma conflicting_attempt:
  assumes "sending s (w, v)" "length c = CREDENTIAL_LENGTH"
    and conflict: "\<And>w. \<exists>uploads w'. prepare_at_once client f b c w = (Inr (uploads, None), w') \<and>
      (\<forall>u. \<exists>occ u'. page_upload client uploads ttl None u = (Inl (RegistryTokenOccupiedError occ), u'))"
  shows "\<exists>occ w' v'. send_attempt env client later f (Some b) ttl c (w, v) =
      (Inl (RegistryTokenOccupiedError occ), (w', v')) \<and> conflict_left s (w', v')"
proof -
  from conflict [of w] obtain uploads w1 sts where
    p: "prepare_at_once client f b c w = (Inr (uploads, None), (w1, sts))" and
    q: "\<And>u. \<exists>occ u'. page_upload client uploads ttl None u = (Inl (RegistryTokenOccupiedError occ), u')"
    by (metis surj_pair)
  define v1 where "v1 = show_statuses sts (setSendUploadStatus (Some (UploadPhase (Preparing None None None None))) v)"
  have 1: "prepare_attempt env client f (Some b) c (w, v) = (Inr (uploads, None), ((w1, []), v1))"
    using p by (simp add: prepare_attempt_def on_panel_def aseq_def abind_def await_outside_def v1_def)
  have s1: "sending s ((w1, []), v1)" using assms(1) prepare_attempt_same [OF 1] by (rule sending_same)
  then have len: "length (slots (credentialDisplay v1)) = CREDENTIAL_LENGTH" by (simp add: sending_def)
  obtain d where d: "revealSequential (se_ticks env) c (credentialDisplay v1) = Inr d"
    using assms(2) by (simp add: revealSequential_def throw_if_def)
  note rv = reveal_result [OF d len]
  let ?v2 = "v1\<lparr>credentialDisplay := d, copy_disabled := False\<rparr>"
  obtain r3 w3 v3 where 3: "await_outside (page_upload client uploads ttl None) ((w1, []), ?v2) = (r3, (w3, v3))"
    by (metis surj_pair)
  from await_outside_result [OF 3] q [of "(w1, [])"] obtain occ where
    r3: "r3 = Inl (RegistryTokenOccupiedError occ)" and same3: "same_send ?v2 v3" by auto
  have "sending s ((w1, []), ?v2)" using s1 rv by (simp add: sending_def)
  then have "sending s (w3, v3)" using same3 by (rule sending_same)
  moreover have "\<not> copy_disabled v3" "slots_getValue (credentialDisplay v3) = c"
    using same3 rv by (simp_all add: same_send_def)
  ultimately have "conflict_left s (w3, v3)" using assms(2) by (auto simp: conflict_left_def CREDENTIAL_LENGTH_def)
  moreover have "send_attempt env client later f (Some b) ttl c (w, v) =
      (Inl (RegistryTokenOccupiedError occ), (w3, v3))"
    using 1 3 d r3 by (simp add: send_attempt_def on_display_def on_panel_def aseq_def abind_def)
  ultimately show ?thesis by blast
qed

lemma generate_for_page_valid:
  assumes "\<And>m. validateCredentialStyle (getEffectiveCredentialStyle (se_parse env) (se_storage env m)) = None"
  shows "\<exists>c w'. generate_for_page env (w, v) = (Inr c, (w', v)) \<and> length c = CREDENTIAL_LENGTH"
proof -
  obtain m sts where w: "w = (m, sts)" by (cases w)
  obtain random m' where r: "se_random env m = (random, m')" by (metis surj_pair)
  from valid_style_generates [OF assms [of m], of random] w r show ?thesis
    by (auto simp: generate_for_page_def generateCredential_def)
qed

section \<open>Choosing a file\<close>

definition chooseSendFile :: "(js_file \<times> string) option \<Rightarrow> send_view \<Rightarrow> send_view" where
  "chooseSendFile chosen v =
     (if sendInProgress v then v
      else (resetSendPanel (updateSendFilePicker (v\<lparr>selectedFile := chosen\<rparr>)))
        \<lparr>sendError := clearBanner, sendInfo := clearBanner\<rparr>)"

text \<open>The elements as \<open>index.html\<close> has them, and the panel after the first lines of \<open>startApp\<close>.\<close>

definition send_html :: send_view where
  "send_html = \<lparr> selectedFile = None, credentialDisplay = new_slot_display, sendInProgress = False,
     sendShareState = None, sendPrepareProgressRatio = 0, dropzone_has_file = False, dropzone_uploaded = False,
     dropzone_disabled = False, file_empty_hidden = False, file_selected_hidden = True, send_icon = None,
     send_name = [], send_size = [], stamp_visible = False, stamp_hidden = True, send_disabled = True,
     picker_disabled = False, ttl_disabled = False, upload_status_hidden = True, upload_status_text = None,
     send_progress_text = NoSendProgress, track_indeterminate = False, bar_width = BarUnset,
     copy_disabled = True, share_hidden = True, share_ttl = None, share_warning = None,
     share_warning_hidden = True, share_qr = None, share_link = [], copy_link_disabled = False,
     copy_link_done = False, save_qr_disabled = False, sendError = None, sendInfo = None \<rparr>"

definition send_start :: send_view where
  "send_start = clearSendShare send_html"

section \<open>Copying and saving\<close>

text \<open>
  \<open>writeText\<close> is the clipboard, when the browser has one, and \<open>execCommand\<close> its old copy command.
\<close>

definition copyShareText ::
    "(string \<Rightarrow> ('w, unit) act) option \<Rightarrow> (string \<Rightarrow> ('w, bool) act) \<Rightarrow> string \<Rightarrow> ('w, unit) act" where
  "copyShareText writeText execCommand text1 =
     (let legacy = abind (execCommand text1) (\<lambda>copied.
            if copied then areturn () else athrow (ErrorObj ''browser rejected the copy command'')) in
      case writeText of
        None \<Rightarrow> legacy
      | Some write \<Rightarrow> acatch (write text1) (\<lambda>_. legacy))"

definition copyCredential ::
    "(string \<Rightarrow> ('w, unit) act) \<Rightarrow> ('w \<times> send_view, unit) act" where
  "copyCredential write wv = (case wv of (w, v) \<Rightarrow>
     (let shown = slots_getValue (credentialDisplay v) in
      if shown = [] then (Inr (), (w, v))
      else (case write shown w of
        (Inl e, w1) \<Rightarrow> (Inl e, (w1, v))
      | (Inr _, w1) \<Rightarrow> (Inr (), (w1, v\<lparr>sendInfo := showBanner CredentialCopied\<rparr>)))))"

definition copyReceiveLink ::
    "(string \<Rightarrow> ('w, unit) act) option \<Rightarrow> (string \<Rightarrow> ('w, bool) act) \<Rightarrow> 'w \<times> send_view \<Rightarrow> 'w \<times> send_view" where
  "copyReceiveLink writeText execCommand wv = (case wv of (w, v) \<Rightarrow> (case sendShareState v of
     None \<Rightarrow> (w, v)
   | Some receiveUrl \<Rightarrow>
       let v1 = v\<lparr>sendError := clearBanner\<rparr> in
       (case copyShareText writeText execCommand receiveUrl w of
          (Inr _, w1) \<Rightarrow> (w1, v1\<lparr>copy_link_done := True\<rparr>)
        | (Inl e, w1) \<Rightarrow> (w1, v1\<lparr>sendError := showBanner (CopyLinkFailed (formatUnknownError (UThrown e)))\<rparr>))))"

text \<open>The timer that restores the text of the button; another credential has another link.\<close>

definition restore_copy_text :: "string \<Rightarrow> send_view \<Rightarrow> send_view" where
  "restore_copy_text receiveUrl v =
     (if sendShareState v = Some receiveUrl then v\<lparr>copy_link_done := False\<rparr> else v)"

definition QR_DOWNLOAD_FILENAME :: string where
  "QR_DOWNLOAD_FILENAME = ''12c-receive-qr.svg''"

text \<open>The name and the content of the file that is saved; \<open>serialized\<close> is what the element holds.\<close>

definition downloadQrSvg :: "string option \<Rightarrow> (string \<times> string) res" where
  "downloadQrSvg serialized = (case serialized of
     None \<Rightarrow> Inl (ErrorObj ''QR container does not contain an SVG element'')
   | Some source \<Rightarrow> Inr (QR_DOWNLOAD_FILENAME, source))"

definition downloadReceiveQr :: "send_view \<Rightarrow> (string \<times> string) option \<times> send_view" where
  "downloadReceiveQr v =
     (if sendShareState v = None then (None, v)
      else
        let v1 = v\<lparr>sendError := clearBanner\<rparr> in
        (case downloadQrSvg (share_qr v1) of
           Inr saved \<Rightarrow> (Some saved, v1)
         | Inl e \<Rightarrow> (None, v1\<lparr>sendError := showBanner (SaveQrFailed (formatUnknownError (UThrown e)))\<rparr>)))"

section \<open>A small page\<close>

definition page_twelve :: "unit told twelve_c" where
  "page_twelve =
     \<lparr> tc_prepareUpload = (\<lambda>_ credential _ _ _. areturn [(credential, [1])]),
       tc_createUploadPrepareSession = (\<lambda>_ _ _ _ _. athrow (ErrorObj [])),
       tc_createReceiveDecryptSession = (\<lambda>_ _. athrow (ErrorObj [])),
       tc_receiveFromUploadMap = (\<lambda>_ uploads. areturn (concat (map snd uploads))),
       tc_deriveUploadToken = (\<lambda>search _. search), tc_parseSmbEncrypted = (\<lambda>_ _. athrow (ErrorObj [])) \<rparr>"

definition page_hashes :: "upload_map \<Rightarrow> block_hash_entry list" where
  "page_hashes uploads = map (\<lambda>(token, data). \<lparr>bh_token = token, bh_blockHash = ''h''\<rparr>) uploads"

definition page_deps :: "unit told upload_deps" where
  "page_deps = \<lparr>ud_env = demo_env, ud_resolveMany = (\<lambda>_. areturn []),
     ud_client = \<lparr>uc_fetch = (\<lambda>_. areturn 201), uc_xhr = None, uc_rejectNonOk = True,
       uc_forceFetchPutFallback = False, uc_throttle = (\<lambda>l. l), uc_performance = None,
       uc_head = (\<lambda>_. areturn ())\<rparr>,
     ud_hashes = (\<lambda>uploads _. areturn (page_hashes uploads)), ud_drain = (\<lambda>_ _. areturn []),
     ud_stripe = (\<lambda>cfg w. (stripe_result (run_stripe cfg (\<lambda>_. Inr ())), w)), ud_say = (\<lambda>_ w. w)\<rparr>"

text \<open>A registry whose tokens are all occupied.\<close>

definition page_client :: "unit send_client" where
  "page_client = \<lparr>cl_deps = page_deps,
     cl_workers = \<lparr>we_hasWorker = False, we_hasModuleUrl = False, we_createUploadWorker = None,
       we_createDefault = athrow (ErrorObj []), we_load = (\<lambda>_ _. athrow (ErrorObj []))\<rparr>,
     cl_twelveC = page_twelve,
     cl_registry = \<lparr>rc_reserveUploadBlocks = (\<lambda>_ _. athrow (RegistryTokenOccupiedError [])),
       rc_abandonReplicaPlacements = (\<lambda>_. areturn ())\<rparr>,
     cl_relayMaxBodyBytes = 32 * 1024 * 1024, cl_registryUrl = ''https://r''\<rparr>"

definition page_env :: "unit send_env" where
  "page_env = \<lparr>se_storage = (\<lambda>_. []), se_parse = (\<lambda>_. None), se_random = (\<lambda>m. (\<lambda>n. replicate n 0, m)),
     se_createWorker = athrow (ErrorObj []), se_scriptUrl = ''s'', se_binaryUrl = ''b'',
     se_parseUrl = (\<lambda>_. Some \<lparr>protocol = ''https:'', username = [], password = [], hostname = ''r'', port = [],
       pathname = ''/'', search = [], url_hash = []\<rparr>), se_createQrSvg = (\<lambda>u. Inr u), se_reel = (\<lambda>_. 0), se_ticks = (\<lambda>_. [])\<rparr>"

definition page_view :: send_view where
  "page_view = chooseSendFile (Some (memory_file ''f'' [1], [])) send_start"

lemma page_view_fields:
  "length (slots (credentialDisplay page_view)) = CREDENTIAL_LENGTH"
  "selectedFile page_view = Some (memory_file ''f'' [1], [])"
  by (simp_all add: page_view_def chooseSendFile_def send_start_def clearSendShare_def send_html_def
      new_slot_display_def resetSendPanel_def clearUploadStamp_def resetSendProgress_def setSendUploadStatus_def
      resetSendCredential_def updateSendFilePicker_def updateSendControls_def reset_slots_def)

section \<open>Properties\<close>

text \<open>C13. A send always ends with the panel usable again: the buttons and inputs are enabled and the file is
  still chosen. Either an error is shown, with no stamp, no link and no status; or the shown
  credential is the one under which the file was encrypted in an attempt whose upload succeeded, all
  its slots are settled, it can be copied, and the shown link is the one for this credential and the
  registry the page is connected to at that moment (which the settings panel may have changed since
  the upload began).\<close>

theorem handleSend_outcome:
  assumes "length (slots (credentialDisplay v)) = CREDENTIAL_LENGTH" "selectedFile v = Some (f, mime_type)"
    and "handleSend env (Some client) later (m, v) = (r, m', v')"
  shows "r = Inr () \<and> \<not> sendInProgress v' \<and> \<not> send_disabled v' \<and> \<not> picker_disabled v' \<and> \<not> ttl_disabled v' \<and>
    (case sendError v' of
       Some message \<Rightarrow> share_hidden v' \<and> stamp_hidden v' \<and> upload_status_hidden v'
     | None \<Rightarrow> (\<exists>b c uploads hashes prepared wv0 wv1 u u'.
         prepare_attempt env client f b c wv0 = (Inr (uploads, hashes), wv1) \<and>
         page_upload client uploads (getEffectiveFileTtlSeconds (se_storage env m)) hashes u = (Inr prepared, u') \<and>
         slots_getValue (credentialDisplay v') = c \<and>
         slots (credentialDisplay v') = map (\<lambda>x. (SlotSettled, [x])) c \<and> \<not> copy_disabled v' \<and>
         \<not> stamp_hidden v' \<and> bar_width v' = BarPercent 100 \<and> share_link v' = shown_link env later c))"
proof -
  obtain v1 where v1: "begin_send (Some client) v = (Inr (Some (f, client)), v1)"
    using begin_send_file [OF assms(2), of client] by (elim exE conjE)
  have s1: "sending (selectedFile v) ((m, []), v1)" by (rule begin_send_sending [OF v1 assms(1)])
  let ?ttl = "getEffectiveFileTtlSeconds (se_storage env m)"
  obtain q m2 l v2 where body: "send_body env client later f ?ttl ((m, []), v1) = (q, ((m2, l), v2))"
    by (metis surj_pair)
  note run = assms(3) [unfolded handleSend_def, simplified v1 body prod.case sum.case option.case]
  from send_body_cases [OF s1 body] show ?thesis
  proof (elim disjE exE conjE)
    fix e assume e: "q = Inl e" and s2: "sending (selectedFile v) ((m2, l), v2)"
    then have "r = Inr ()" "v' = send_finally (send_failed e v2)" using run by simp_all
    with s2 assms(2) show ?thesis by (simp add: send_finally_fields send_failed_fields sending_def)
  next
    fix b c assume ok: "q = Inr ()" and sent: "sent_with env client later f b ?ttl (selectedFile v) c v2"
    then have v': "r = Inr ()" "v' = send_finally v2" using run by simp_all
    from sent obtain uploads hashes prepared wv0 wv1 u u' w v3 where
      done1: "prepare_attempt env client f b c wv0 = (Inr (uploads, hashes), wv1)"
        "page_upload client uploads ?ttl hashes u = (Inr prepared, u')" and
      s3: "sending (selectedFile v) ((w :: 'a told), v3)" "revealed c (w, v3)" "\<not> copy_disabled v3" and
      v2: "v2 = show_sent env later c ?ttl uploads (pd_reservation prepared) v3"
      unfolding sent_with_def by blast
    have "sendError v' = None" "\<not> stamp_hidden v'" "slots_getValue (credentialDisplay v') = c"
      "slots (credentialDisplay v') = map (\<lambda>x. (SlotSettled, [x])) c" "\<not> copy_disabled v'"
      "bar_width v' = BarPercent 100" "share_link v' = shown_link env later c"
      "\<not> sendInProgress v' \<and> \<not> send_disabled v' \<and> \<not> picker_disabled v' \<and> \<not> ttl_disabled v'"
      using s3 assms(2) by (simp_all add: v' v2 send_finally_fields show_sent_fields [OF refl] sending_def revealed_def)
    with done1 v'(1) show ?thesis by (simp del: split_paired_Ex) blast
  qed
qed

theorem handleSend_outcome_witness:
  "case handleSend page_env (Some page_client) None ((), page_view) of (r, m', v') \<Rightarrow>
     r = Inr () \<and> \<not> sendInProgress v' \<and> \<not> send_disabled v'"
proof -
  obtain r m' v' where run: "handleSend page_env (Some page_client) None ((), page_view) = (r, m', v')"
    by (metis surj_pair)
  from handleSend_outcome [OF page_view_fields run] run show ?thesis by simp
qed

text \<open>C37. Occupied tokens leave a credential that was never stored: when the encryption works and the
  registry refuses the tokens of every attempt, the handler shows the error of the exhausted attempts,
  but the display still holds the credential of the last attempt: its reel goes on spinning because
  the display is only reset when it holds none, and the button that copies the credential stays
  enabled.\<close>

theorem conflicts_leave_reel:
  assumes "length (slots (credentialDisplay v)) = CREDENTIAL_LENGTH" "selectedFile v = Some (f, mime_type)"
    and "file_size f \<le> V21_WHOLE_FILE_THRESHOLD_BYTES" "file_arrayBuffer f = Inr b"
    and "\<And>m. validateCredentialStyle (getEffectiveCredentialStyle (se_parse env) (se_storage env m)) = None"
    and "\<And>c w. \<exists>uploads w'. prepare_at_once client f b c w = (Inr (uploads, None), w') \<and>
      (\<forall>u. \<exists>occ u'. page_upload client uploads (getEffectiveFileTtlSeconds (se_storage env m)) None u =
         (Inl (RegistryTokenOccupiedError occ), u'))"
    and "handleSend env (Some client) later (m, v) = (r, m', v')"
  shows "\<exists>occ. sendError v' = Some (SendFailed (formatUnknownError (UThrown
      (UploadTokenReservationExhaustedError DEFAULT_MAX_RESERVATION_ATTEMPTS occ)))) \<and>
    slots_getValue (credentialDisplay v') \<noteq> [] \<and> spin_timer (credentialDisplay v') \<and>
    list_all (\<lambda>(c, t). c = SlotSpinning) (slots (credentialDisplay v')) \<and> \<not> copy_disabled v' \<and>
    share_hidden v'"
proof -
  obtain v1 where v1: "begin_send (Some client) v = (Inr (Some (f, client)), v1)"
    using begin_send_file [OF assms(2), of client] by (elim exE conjE)
  let ?ttl = "getEffectiveFileTtlSeconds (se_storage env m)"
  let ?v2 = "setSendUploadStatus (Some ReadingFile) v1"
  let ?v3 = "?v2\<lparr>credentialDisplay := startReelSpinning (se_reel env) (credentialDisplay ?v2)\<rparr>"
  have s1: "sending (selectedFile v) ((m, []), v1)" by (rule begin_send_sending [OF v1 assms(1)])
  then have "sending (selectedFile v) ((m, []), ?v2)" using same_send_status sending_same by blast
  then have s3: "sending (selectedFile v) ((m, []), ?v3)" by (simp add: sending_def startReelSpinning_def)
  have spin: "(\<lambda>attempt maxAttempts occupied (w, v). (w, v\<lparr>credentialDisplay :=
      startReelSpinning (se_reel env) (credentialDisplay v)\<rparr>)) = respin env"
    by (intro ext) (simp add: respin_def)
  have "\<exists>occ w'. send_attempts (generate_for_page env) (send_attempt env client later f (Some b) ?ttl) (respin env)
      DEFAULT_MAX_RESERVATION_ATTEMPTS 1 [] ((m, []), ?v3) =
      (Inl (UploadTokenReservationExhaustedError DEFAULT_MAX_RESERVATION_ATTEMPTS occ),
       respin env DEFAULT_MAX_RESERVATION_ATTEMPTS DEFAULT_MAX_RESERVATION_ATTEMPTS occ w') \<and>
      conflict_left (selectedFile v) w'"
  proof (rule send_attempts_all_conflict [where I = "sending (selectedFile v)"])
    fix wv :: "'a send_world" assume s: "sending (selectedFile v) wv"
    obtain w u where wv: "wv = (w, u)" by (cases wv)
    obtain c w1 where gen: "generate_for_page env (w, u) = (Inr c, (w1, u))" "length c = CREDENTIAL_LENGTH"
      using generate_for_page_valid [OF assms(5)] by blast
    have "sending (selectedFile v) (w1, u)" using s by (simp add: wv sending_def)
    from conflicting_attempt [OF this gen(2) assms(6)] gen(1)
    show "\<exists>c w1 occ w2. generate_for_page env wv = (Inr c, w1) \<and>
        send_attempt env client later f (Some b) ?ttl c w1 = (Inl (RegistryTokenOccupiedError occ), w2) \<and>
        conflict_left (selectedFile v) w2"
      unfolding wv by blast
  next
    fix a occ and wv :: "'a send_world" assume "conflict_left (selectedFile v) wv"
    then show "sending (selectedFile v) (respin env a DEFAULT_MAX_RESERVATION_ATTEMPTS occ wv)"
      by (cases wv) (simp add: conflict_left_def respin_sending)
  qed (use s3 in \<open>simp_all add: DEFAULT_MAX_RESERVATION_ATTEMPTS_def\<close>)
  then obtain occ m2 sts u where
    at: "send_attempts (generate_for_page env) (send_attempt env client later f (Some b) ?ttl) (respin env)
      DEFAULT_MAX_RESERVATION_ATTEMPTS 1 [] ((m, []), ?v3) =
      (Inl (UploadTokenReservationExhaustedError DEFAULT_MAX_RESERVATION_ATTEMPTS occ),
       respin env DEFAULT_MAX_RESERVATION_ATTEMPTS DEFAULT_MAX_RESERVATION_ATTEMPTS occ ((m2, sts), u))"
    and left: "conflict_left (selectedFile v) ((m2, sts), u)" by (metis surj_pair)
  let ?u = "u\<lparr>credentialDisplay := startReelSpinning (se_reel env) (credentialDisplay u)\<rparr>"
  let ?e = "UploadTokenReservationExhaustedError DEFAULT_MAX_RESERVATION_ATTEMPTS occ"
  have body: "send_body env client later f ?ttl ((m, []), v1) = (Inl ?e, ((m2, sts), ?u))"
    using assms(3,4) at unfolding send_body_def Let_def spin
    by (simp add: aseq_def abind_def on_display_def enterReelWhenReady_def rbind_def on_panel_def respin_def)
  note run = assms(7) [unfolded handleSend_def, simplified v1 body prod.case sum.case option.case]
  then have v': "v' = send_finally (send_failed ?e ?u)" by simp
  have "slots_getValue (credentialDisplay ?u) \<noteq> []"
    using left by (simp add: conflict_left_def startReelSpinning_def slots_getValue_def)
  then show ?thesis
    using left by (auto simp: v' send_finally_fields send_failed_fields conflict_left_def sending_def
        startReelSpinning_def list_all_iff)
qed

theorem conflicts_leave_reel_witness:
  "case handleSend page_env (Some page_client) None ((), page_view) of (r, m', v') \<Rightarrow>
     sendError v' \<noteq> None \<and> slots_getValue (credentialDisplay v') \<noteq> [] \<and>
     spin_timer (credentialDisplay v') \<and> \<not> copy_disabled v'"
proof -
  obtain r m' v' where run: "handleSend page_env (Some page_client) None ((), page_view) = (r, m', v')"
    by (metis surj_pair)
  have mem: "file_size (memory_file ''f'' [1]) \<le> V21_WHOLE_FILE_THRESHOLD_BYTES"
    "file_arrayBuffer (memory_file ''f'' [1]) = Inr [1]" by code_simp+
  have style: "validateCredentialStyle (getEffectiveCredentialStyle (se_parse page_env) (se_storage page_env m)) = None"
    for m by code_simp
  have prep: "prepare_at_once page_client (memory_file ''f'' [1]) [1] c w = (Inr ([(c, [1])], None), w)" for c w
    by code_simp
  have conflict: "\<exists>occ u'. page_upload page_client [(c, [1])] t None u = (Inl (RegistryTokenOccupiedError occ), u')" for c t u
    by (cases u) (simp add: page_upload_def page_client_def page_deps_def page_upload_options_def send_options_def
      uploadPrepared_def resolveUploadEndpoints_def reserveAndRegisterUploadBlocks_def page_hashes_def abind_def
      aseq_def Let_def default_to_def DEFAULT_UPLOAD_REPLICATION_POLICY_def DEFAULT_PUT_MAX_ATTEMPTS_def
      UPLOAD_REPLICATION_POLICY_STRIPE_BEFORE_REPLICA_def areturn_def athrow_def amodify_def hear_def)
  have "\<exists>uploads w'. prepare_at_once page_client (memory_file ''f'' [1]) [1] c w = (Inr (uploads, None), w') \<and>
      (\<forall>u. \<exists>occ u'. page_upload page_client uploads t None u = (Inl (RegistryTokenOccupiedError occ), u'))" for c w t
    using prep [of c w] conflict [of c t] by blast
  from conflicts_leave_reel [OF page_view_fields mem style this run] run show ?thesis by auto
qed

end
