(* ===== verification/SettingsPage.thy ===== *)
theory SettingsPage
  imports ReceivePage SendPage Config
begin

text \<open>
  The rest of \<open>client/web/src/app.ts\<close>: the boot screen, the navigation, the settings panel and
  \<open>startApp\<close>. The whole page is one record with the views of the two other panels and \<open>localStorage\<close>,
  which no other tab is taken to change. \<open>toNumber\<close> is \<open>Number\<close> of a string, \<open>print\<close> the printing of the
  numbers that are no integers below \<open>10^21\<close>. Percentages are exact quotients.
\<close>

section \<open>The page\<close>

datatype panel_name = SendPanel | ReceivePanel | SettingsPanel

datatype boot_message =
    LoadingModule
  | ReadingConfig
  | ConnectingRegistry
  | ReconnectingRegistry
  | BootReady
  | BootFailed shown

datatype settings_message =
    TtlMustBePositive
  | TtlUpdated
  | StyleRejected style_error
  | StyleUpdated
  | RegistryUrlEmpty
  | Reconnected
  | ReconnectFailed shown
  | DefaultsRestored

record 'c page =
  runtime :: "'c client_runtime option"
  activePanel :: panel_name
  boot_hidden :: bool
  app_hidden :: bool
  boot_status :: boot_message
  boot_percent :: rat
  registry_label :: "string option"
  registry_input :: string
  ttl_hours :: string
  ttl_minutes :: string
  ttl_seconds :: string
  ttl_current :: ttl_label
  ttl_slider :: string
  ttl_slider_percent :: rat
  ttl_quick :: ttl_label
  ttl_ticks :: "bool list"
  check_uppercase :: bool
  check_lowercase :: bool
  check_hyphen :: bool
  check_word :: bool
  check_last_six :: bool
  check_first_six :: bool
  word_disabled :: bool
  style_current :: "style_label list option"
  settingsError :: "settings_message banner"
  settingsInfo :: "settings_message banner"
  local_storage :: storage
  send_panel :: send_view
  receive_panel_view :: receive_view
  receiveIntentConsumed :: bool

section \<open>Boot screen and navigation\<close>

definition setBootProgress :: "rat \<Rightarrow> boot_message \<Rightarrow> 'c page \<Rightarrow> 'c page" where
  "setBootProgress ratio message p = p\<lparr>boot_status := message, boot_percent := max 0 (min 100 (ratio * 100))\<rparr>"

definition showApp :: "'c page \<Rightarrow> 'c page" where
  "showApp p = p\<lparr>boot_hidden := True, app_hidden := False\<rparr>"

definition switchPanel :: "panel_name \<Rightarrow> 'c page \<Rightarrow> 'c page" where
  "switchPanel name1 p = p\<lparr>activePanel := name1\<rparr>"

definition updateRegistryLabel :: "'c page \<Rightarrow> 'c page" where
  "updateRegistryLabel p = p\<lparr>registry_label := map_option rt_registryUrl (runtime p)\<rparr>"

section \<open>The validity period\<close>

definition applyDurationPartsToInputs :: "DurationParts \<Rightarrow> 'c page \<Rightarrow> 'c page" where
  "applyDurationPartsToInputs parts p = p\<lparr>ttl_hours := dec_int (hours parts),
     ttl_minutes := dec_int (minutes parts), ttl_seconds := dec_int (seconds parts)\<rparr>"

definition updateFileTtlCurrentLabel :: "jsnum \<Rightarrow> 'c page \<Rightarrow> 'c page" where
  "updateFileTtlCurrentLabel total_seconds p = p\<lparr>ttl_current := formatDurationLabel total_seconds\<rparr>"

text \<open>The ticks of \<open>index.html\<close> have the indices 0 to 11, and the slider the maximum 11.\<close>

definition tick_indices :: "nat list" where
  "tick_indices = [0..<12]"

definition slider_max :: nat where
  "slider_max = 11"

definition updateSendTtlTickActive :: "nat \<Rightarrow> 'c page \<Rightarrow> 'c page" where
  "updateSendTtlTickActive index p = p\<lparr>ttl_ticks := map (\<lambda>tickIndex. tickIndex = index) tick_indices\<rparr>"

definition syncSendTtlQuickUi :: "jsnum \<Rightarrow> 'c page \<Rightarrow> 'c page" where
  "syncSendTtlQuickUi total_seconds p =
     (let index = nearestFileTtlPresetIndex total_seconds; maxIndex = max 1 slider_max in
      updateSendTtlTickActive index
        (p\<lparr>ttl_slider := dec index, ttl_slider_percent := of_nat index / of_nat maxIndex * 100,
           ttl_quick := formatFileTtlQuickLabel total_seconds\<rparr>))"

definition applyFileTtlToUi :: "jsnum \<Rightarrow> 'c page \<Rightarrow> 'c page" where
  "applyFileTtlToUi total_seconds p =
     syncSendTtlQuickUi total_seconds (updateFileTtlCurrentLabel total_seconds
       (applyDurationPartsToInputs (durationPartsFromSeconds total_seconds) p))"

definition syncFileTtlSettingsUi :: "'c page \<Rightarrow> 'c page" where
  "syncFileTtlSettingsUi p =
     applyFileTtlToUi (Fin (of_int (getEffectiveFileTtlSeconds (local_storage p)))) p"

definition readDurationInputs :: "(string \<Rightarrow> jsnum) \<Rightarrow> 'c page \<Rightarrow> DurationParts" where
  "readDurationInputs toNumber p =
     clampDurationParts (toNumber (ttl_hours p)) (toNumber (ttl_minutes p)) (toNumber (ttl_seconds p))"

text \<open>An index that is no number gives \<open>undefined\<close>, which counts as \<open>NaN\<close> wherever it is used.\<close>

definition applyFileTtlPresetIndex :: "(rat \<Rightarrow> string) \<Rightarrow> jsnum \<Rightarrow> 'c page \<Rightarrow> 'c page" where
  "applyFileTtlPresetIndex print index p =
     (let total_seconds = (case fileTtlPresetSecondsAt index of Some s \<Rightarrow> Fin (of_int s) | None \<Rightarrow> NaN) in
      applyFileTtlToUi total_seconds
        (p\<lparr>local_storage := saveStoredFileTtlSeconds print total_seconds (local_storage p)\<rparr>))"

definition handleSendTtlSliderInput :: "(rat \<Rightarrow> string) \<Rightarrow> (string \<Rightarrow> jsnum) \<Rightarrow> 'c page \<Rightarrow> 'c page" where
  "handleSendTtlSliderInput print toNumber p = applyFileTtlPresetIndex print (toNumber (ttl_slider p)) p"

text \<open>The click on a tick; a disabled send panel ignores it.\<close>

definition ttl_tick_clicked :: "(rat \<Rightarrow> string) \<Rightarrow> jsnum \<Rightarrow> 'c page \<Rightarrow> 'c page" where
  "ttl_tick_clicked print index p =
     (if sendInProgress (send_panel p) \<or> \<not> num_isFinite index then p
      else applyFileTtlPresetIndex print index p)"

text \<open>What leaving an input does, and what typing does after 200 ms.\<close>

definition normalize_duration_inputs :: "(string \<Rightarrow> jsnum) \<Rightarrow> 'c page \<Rightarrow> 'c page" where
  "normalize_duration_inputs toNumber p = applyDurationPartsToInputs (readDurationInputs toNumber p) p"

definition clear_settings_banners :: "'c page \<Rightarrow> 'c page" where
  "clear_settings_banners p = p\<lparr>settingsError := clearBanner, settingsInfo := clearBanner\<rparr>"

definition handleConfirmFileTtl :: "(rat \<Rightarrow> string) \<Rightarrow> (string \<Rightarrow> jsnum) \<Rightarrow> 'c page \<Rightarrow> 'c page" where
  "handleConfirmFileTtl print toNumber p =
     (let p1 = clear_settings_banners p; parts = readDurationInputs toNumber p1 in
      if totalSeconds parts \<le> 0 then p1\<lparr>settingsError := showBanner TtlMustBePositive\<rparr>
      else
        let secs = Fin (of_int (totalSeconds parts)) in
        (applyFileTtlToUi secs (p1\<lparr>local_storage := saveStoredFileTtlSeconds print secs (local_storage p1)\<rparr>))
          \<lparr>settingsInfo := showBanner TtlUpdated\<rparr>)"

section \<open>The credential style\<close>

definition lettersEnabledForCredentialStyle :: "'c page \<Rightarrow> bool" where
  "lettersEnabledForCredentialStyle p \<longleftrightarrow> check_uppercase p \<or> check_lowercase p"

definition updateWordStyleCheckboxState :: "'c page \<Rightarrow> 'c page" where
  "updateWordStyleCheckboxState p =
     (let enabled = lettersEnabledForCredentialStyle p; p1 = p\<lparr>word_disabled := \<not> enabled\<rparr> in
      if \<not> enabled then p1\<lparr>check_word := False\<rparr> else p1)"

definition readCredentialStyleFromInputs :: "'c page \<Rightarrow> CredentialStyleOptions" where
  "readCredentialStyleFromInputs p =
     (let firstSix = check_first_six p; lastSix = check_last_six p \<and> \<not> firstSix;
          upper = check_uppercase p; lower = check_lowercase p in
      \<lparr>includeUppercase = upper, includeLowercase = lower, allowAtMostOneHyphen = check_hyphen p,
       lettersOnlyLastSix = lastSix, lettersOnlyFirstSix = firstSix,
       wordStyle = check_word p \<and> (upper \<or> lower)\<rparr>)"

definition applyCredentialStyleToInputs :: "CredentialStyleOptions \<Rightarrow> 'c page \<Rightarrow> 'c page" where
  "applyCredentialStyleToInputs options p =
     updateWordStyleCheckboxState
       (p\<lparr>check_uppercase := includeUppercase options, check_lowercase := includeLowercase options,
          check_hyphen := allowAtMostOneHyphen options, check_word := wordStyle options,
          check_last_six := lettersOnlyLastSix options \<and> \<not> lettersOnlyFirstSix options,
          check_first_six := lettersOnlyFirstSix options\<rparr>)"

definition updateCredentialStyleCurrentLabel :: "CredentialStyleOptions \<Rightarrow> 'c page \<Rightarrow> 'c page" where
  "updateCredentialStyleCurrentLabel options p = p\<lparr>style_current := formatCredentialStyleLabel options\<rparr>"

definition syncCredentialStyleSettingsUi :: "(string \<Rightarrow> json option) \<Rightarrow> 'c page \<Rightarrow> 'c page" where
  "syncCredentialStyleSettingsUi parse p =
     (let options = getEffectiveCredentialStyle parse (local_storage p) in
      updateCredentialStyleCurrentLabel options (applyCredentialStyleToInputs options p))"

definition handleConfirmCredentialStyle :: "(json \<Rightarrow> string) \<Rightarrow> 'c page \<Rightarrow> 'c page" where
  "handleConfirmCredentialStyle stringify p =
     (let p1 = clear_settings_banners p; options = readCredentialStyleFromInputs p1 in
      case validateCredentialStyle options of
        Some problem \<Rightarrow> p1\<lparr>settingsError := showBanner (StyleRejected problem)\<rparr>
      | None \<Rightarrow>
          (updateCredentialStyleCurrentLabel options
            (p1\<lparr>local_storage := saveStoredCredentialStyle stringify options (local_storage p1)\<rparr>))
            \<lparr>settingsInfo := showBanner StyleUpdated\<rparr>)"

text \<open>The change handlers of the check boxes, with the change that the browser made.\<close>

datatype style_box = BoxUppercase | BoxLowercase | BoxHyphen | BoxWord | BoxLastSix | BoxFirstSix

definition style_box_changed :: "style_box \<Rightarrow> bool \<Rightarrow> 'c page \<Rightarrow> 'c page" where
  "style_box_changed box b p = (case box of
     BoxUppercase \<Rightarrow> updateWordStyleCheckboxState (p\<lparr>check_uppercase := b\<rparr>)
   | BoxLowercase \<Rightarrow> updateWordStyleCheckboxState (p\<lparr>check_lowercase := b\<rparr>)
   | BoxHyphen \<Rightarrow> p\<lparr>check_hyphen := b\<rparr>
   | BoxWord \<Rightarrow> p\<lparr>check_word := b\<rparr>
   | BoxLastSix \<Rightarrow> (if b then p\<lparr>check_last_six := b, check_first_six := False\<rparr> else p\<lparr>check_last_six := b\<rparr>)
   | BoxFirstSix \<Rightarrow> (if b then p\<lparr>check_first_six := b, check_last_six := False\<rparr> else p\<lparr>check_first_six := b\<rparr>))"

section \<open>Connecting to the registry\<close>

text \<open>What \<open>bootstrapClientRuntime\<close> needs, with the outside world \<open>'w\<close>.\<close>

record ('w, 'c) boot_env =
  bo_print :: "rat \<Rightarrow> string"
  bo_env :: runtime_env
  bo_location_protocol :: string
  bo_bundled :: json
  bo_fetch :: "string \<Rightarrow> ('w, http_response) act"
  bo_configUrl :: string
  bo_loadTwelveC :: "('w, 'c) act"

definition reloadRuntime :: "('w, 'c) boot_env \<Rightarrow> ('w \<times> 'c page, unit) act" where
  "reloadRuntime env wp = (case wp of (w, p) \<Rightarrow>
     let p1 = setBootProgress (35 / 100) ConnectingRegistry p in
     (case bootstrapClientRuntime (bo_print env) (bo_env env) (bo_location_protocol env) (bo_bundled env)
             (bo_fetch env) (bo_configUrl env) (local_storage p1) (bo_loadTwelveC env) w of
        (Inl e, w1) \<Rightarrow> (Inl e, (w1, p1))
      | (Inr rt, w1) \<Rightarrow>
          (Inr (), (w1, (updateRegistryLabel (p1\<lparr>runtime := Some rt\<rparr>))\<lparr>registry_input := rt_registryUrl rt\<rparr>))))"

text \<open>\<open>handleSaveSettings\<close> up to the await; \<open>False\<close> is the early return.\<close>

definition begin_save :: "'c page \<Rightarrow> bool \<times> 'c page" where
  "begin_save p =
     (let p1 = clear_settings_banners p; url = trim (registry_input p1) in
      if url = [] then (False, p1\<lparr>settingsError := showBanner RegistryUrlEmpty\<rparr>)
      else (True, setBootProgress (20 / 100) ReconnectingRegistry
        (p1\<lparr>local_storage := saveStoredRegistryUrl url (local_storage p1), boot_hidden := False, app_hidden := True\<rparr>)))"

definition end_save :: "unit res \<Rightarrow> 'c page \<Rightarrow> 'c page" where
  "end_save outcome p = (case outcome of
     Inr _ \<Rightarrow>
       let p1 = (showApp (p\<lparr>send_panel := clearSendShare (send_panel p)\<rparr>))\<lparr>settingsInfo := showBanner Reconnected\<rparr> in
       if activePanel p1 \<noteq> SettingsPanel then switchPanel SettingsPanel p1 else p1
   | Inl e \<Rightarrow> showApp (p\<lparr>settingsError := showBanner (ReconnectFailed (formatUnknownError (UThrown e)))\<rparr>))"

definition handleSaveSettings :: "('w, 'c) boot_env \<Rightarrow> 'w \<times> 'c page \<Rightarrow> 'w \<times> 'c page" where
  "handleSaveSettings env wp = (case wp of (w, p) \<Rightarrow>
     (case begin_save p of
        (False, p1) \<Rightarrow> (w, p1)
      | (True, p1) \<Rightarrow>
          (case reloadRuntime env (w, p1) of (outcome, (w1, p2)) \<Rightarrow> (w1, end_save outcome p2))))"

text \<open>Nobody catches what \<open>handleResetSettings\<close> throws.\<close>

definition handleResetSettings :: "('w, 'c) boot_env \<Rightarrow> ('w \<times> 'c page, unit) act" where
  "handleResetSettings env wp = (case wp of (w, p) \<Rightarrow>
     let p0 = clear_settings_banners p;
         p1 = p0\<lparr>local_storage := clearStoredRegistryUrl (local_storage p0)\<rparr> in
     (case loadEffectiveConfig (bo_print env) (bo_env env) (bo_location_protocol env) (bo_bundled env)
             (bo_fetch env) (bo_configUrl env) (local_storage p1) w of
        (Inl e, w1) \<Rightarrow> (Inl e, (w1, p1))
      | (Inr config, w1) \<Rightarrow>
          (case resolveRegistryBaseUrl (bo_print env) (bo_env env) (cfg_registry config) of
             Inl e \<Rightarrow> (Inl e, (w1, p1))
           | Inr url \<Rightarrow> (Inr (), (w1, p1\<lparr>registry_input := url, settingsInfo := showBanner DefaultsRestored\<rparr>)))))"

section \<open>Start\<close>

text \<open>The elements as \<open>index.html\<close> has them, with what the browser stored before.\<close>

definition page_html :: "storage \<Rightarrow> 'c page" where
  "page_html store = \<lparr> runtime = None, activePanel = SendPanel, boot_hidden = False, app_hidden = True,
     boot_status = LoadingModule, boot_percent = 0, registry_label = None, registry_input = [],
     ttl_hours = [], ttl_minutes = [], ttl_seconds = [], ttl_current = FullLabel 1 0 0, ttl_slider = ''5'',
     ttl_slider_percent = 0, ttl_quick = HoursLabel 1, ttl_ticks = map (\<lambda>_. False) tick_indices,
     check_uppercase = True, check_lowercase = True, check_hyphen = False, check_word = False,
     check_last_six = False, check_first_six = False, word_disabled = False,
     style_current = Some [LUppercase, LLowercase], settingsError = None, settingsInfo = None,
     local_storage = store, send_panel = send_html, receive_panel_view = receive_html,
     receiveIntentConsumed = False \<rparr>"

text \<open>\<open>startApp\<close> up to the \<open>try\<close>.\<close>

definition start_page :: "(string \<Rightarrow> json option) \<Rightarrow> storage \<Rightarrow> 'c page" where
  "start_page parse store =
     setBootProgress (1 / 10) LoadingModule
       (syncCredentialStyleSettingsUi parse (syncFileTtlSettingsUi
         ((page_html store)\<lparr>send_panel := send_start, receive_panel_view := receive_start\<rparr>)))"

text \<open>
  The \<open>try\<close> of \<open>startApp\<close> up to a download that the link starts, and what is left of the link.
\<close>

definition page_consume_link :: "string \<Rightarrow> 'c page \<Rightarrow> link_action \<times> 'c page" where
  "page_consume_link hash p =
     (case consumeReceiveLinkIntent hash (receiveIntentConsumed p) (receive_panel_view p) of
        (action, consumed, v) \<Rightarrow>
          (action, (if consumed \<and> \<not> receiveIntentConsumed p then switchPanel ReceivePanel p else p)
             \<lparr>receiveIntentConsumed := consumed, receive_panel_view := v\<rparr>))"

definition start_failed :: "thrown \<Rightarrow> 'c page \<Rightarrow> 'c page" where
  "start_failed e p = p\<lparr>boot_status := BootFailed (formatUnknownError (UThrown e)), boot_percent := 0\<rparr>"

definition startApp ::
    "('w, 'c) boot_env \<Rightarrow> (string \<Rightarrow> json option) \<Rightarrow> string \<Rightarrow> storage \<Rightarrow> 'w \<Rightarrow> link_action \<times> 'w \<times> 'c page" where
  "startApp env parse hash store w =
     (case reloadRuntime env (w, setBootProgress (25 / 100) ReadingConfig (start_page parse store)) of
        (Inr _, (w1, p)) \<Rightarrow>
          (case page_consume_link hash (showApp (setBootProgress 1 BootReady p)) of
             (action, p1) \<Rightarrow> (action, w1, p1))
      | (Inl e, (w1, p)) \<Rightarrow> (LinkIgnored, w1, start_failed e p))"

section \<open>The page under every order of events\<close>

text \<open>The send panel: the steps of an upload happen while one runs.\<close>

inductive send_step :: "send_view \<Rightarrow> send_view \<Rightarrow> bool" where
  chosen: "send_step v (chooseSendFile f v)"
| started: "\<not> sendInProgress v \<Longrightarrow> begin_send (rt :: unit option) v = (Inr (Some job), v') \<Longrightarrow> send_step v v'"
| refused: "\<not> sendInProgress v \<Longrightarrow> begin_send (rt :: unit option) v = (Inr None, v') \<Longrightarrow> send_step v v'"
| reported: "sendInProgress v \<Longrightarrow> send_step v (setSendUploadStatus (Some st) v)"
| spun: "sendInProgress v \<Longrightarrow> send_step v (v\<lparr>credentialDisplay := startReelSpinning reel (credentialDisplay v)\<rparr>)"
| revealed: "sendInProgress v \<Longrightarrow> revealSequential ticks c (credentialDisplay v) = Inr d \<Longrightarrow>
    send_step v (v\<lparr>credentialDisplay := d, copy_disabled := False\<rparr>)"
| sent: "sendInProgress v \<Longrightarrow>
    send_step v (send_finally (show_sent (env :: unit send_env) later c ttl uploads reservation v))"
| failed: "sendInProgress v \<Longrightarrow> send_step v (send_finally (send_failed e v))"
| copied: "send_step v (snd (snd (copyCredential write (w :: unit, v))))"
| link_copied: "send_step v (snd (copyReceiveLink writeText execCommand (w :: unit, v)))"
| copy_text_restored: "send_step v (restore_copy_text url v)"
| qr_saved: "send_step v (snd (downloadReceiveQr v))"
| share_cleared: "send_step v (clearSendShare v)"

inductive_cases send_stepE: "send_step v v'"

text \<open>What the send panel shows of its variables.\<close>

definition send_ok :: "send_view \<Rightarrow> bool" where
  "send_ok v \<longleftrightarrow> send_disabled v = (sendInProgress v \<or> selectedFile v = None) \<and>
     picker_disabled v = sendInProgress v \<and> ttl_disabled v = sendInProgress v \<and>
     dropzone_disabled v = sendInProgress v \<and> file_selected_hidden v = (selectedFile v = None) \<and>
     length (slots (credentialDisplay v)) = CREDENTIAL_LENGTH \<and>
     (\<not> copy_disabled v \<longrightarrow> slots_getValue (credentialDisplay v) \<noteq> []) \<and>
     copy_link_disabled v = (sendShareState v = None) \<and> save_qr_disabled v = (sendShareState v = None) \<and>
     share_link v = default_to (sendShareState v) [] \<and> (sendShareState v \<noteq> None \<longrightarrow> \<not> share_hidden v)"

lemma send_ok_status: "send_ok (setSendUploadStatus st v) = send_ok v"
  by (simp add: send_ok_def setSendUploadStatus_def show_preparing_def show_uploading_def
      indeterminate_bar_def Let_def split: option.split upload_phase.split upload_status.split)

lemma send_ok_share:
  assumes "send_ok v"
  shows "send_ok (clearSendShare v)" "send_ok (showSendShare pu qr rt c ttl res v)"
  using assms by (auto simp: send_ok_def clearSendShare_def showSendShare_def Let_def default_to_def split: option.split sum.split)

lemma send_ok_reset:
  "send_ok v \<Longrightarrow> send_ok (resetSendPanel v)"
  unfolding resetSendPanel_def
  by (intro send_ok_share)
    (simp add: send_ok_def clearUploadStamp_def resetSendProgress_def setSendUploadStatus_def resetSendCredential_def
      reset_slots_def stopReelTimer_def slots_getValue_def)

lemma send_ok_picker:
  assumes "send_ok v" shows "send_ok (updateSendFilePicker (v\<lparr>selectedFile := f\<rparr>))"
  using assms by (auto simp: send_ok_def updateSendFilePicker_def updateSendControls_def clearUploadStamp_def split: option.split)

lemma send_ok_banners [simp]:
  "send_ok (v\<lparr>sendError := a, sendInfo := b\<rparr>) = send_ok v" "send_ok (v\<lparr>sendError := a\<rparr>) = send_ok v"
  "send_ok (v\<lparr>sendInfo := b\<rparr>) = send_ok v" "send_ok (v\<lparr>copy_link_done := x\<rparr>) = send_ok v"
  by (simp_all add: send_ok_def)

lemma startBreathing_length:
  "startBreathing d = Inr d' \<Longrightarrow> length (slots d') = CREDENTIAL_LENGTH"
  by (auto simp: startBreathing_def throw_if_def stopReelTimer_def split: if_splits)

lemma send_ok_started:
  assumes "send_ok v"
  shows "send_ok (updateSendControls (v\<lparr>copy_disabled := True, sendInProgress := True\<rparr>))"
    "length (slots d) = CREDENTIAL_LENGTH \<Longrightarrow>
      send_ok (updateSendControls (v\<lparr>copy_disabled := True, sendInProgress := True\<rparr>)\<lparr>credentialDisplay := d\<rparr>)"
  using assms by (auto simp: send_ok_def updateSendControls_def)

lemma send_ok_begin:
  assumes "send_ok v" "begin_send rt v = (r, v')"
  shows "send_ok v'"
proof -
  define v1 where "v1 = resetSendPanel (v\<lparr>sendError := clearBanner, sendInfo := clearBanner\<rparr>)"
  have ok: "send_ok v1" unfolding v1_def using assms(1) by (intro send_ok_reset) simp
  then have len: "length (slots (credentialDisplay v1)) = CREDENTIAL_LENGTH" by (simp add: send_ok_def)
  let ?v2 = "updateSendControls (v1\<lparr>copy_disabled := True, sendInProgress := True\<rparr>)"
  have d: "credentialDisplay ?v2 = credentialDisplay v1" by (simp add: updateSendControls_def)
  show ?thesis
  proof (cases "selectedFile v1")
    case None
    with assms(2) have "v' = v1\<lparr>sendError := showBanner ChooseFile\<rparr>"
      by (simp add: begin_send_def v1_def [symmetric] Let_def)
    with ok show ?thesis by simp
  next
    case (Some fm)
    obtain f mime_type where fm: "fm = (f, mime_type)" by (cases fm)
    show ?thesis
    proof (cases rt)
      case None
      with assms(2) Some fm ok show ?thesis by (simp add: begin_send_def v1_def [symmetric] requireRuntime_def Let_def)
    next
      case rt: (Some client)
      show ?thesis
      proof (cases "startBreathing (credentialDisplay ?v2)")
        case (Inl e)
        with assms(2) Some fm rt have "v' = ?v2" by (simp add: begin_send_def v1_def [symmetric] requireRuntime_def Let_def)
        with send_ok_started(1) [OF ok] show ?thesis by simp
      next
        case (Inr d)
        with assms(2) Some fm rt have "v' = ?v2\<lparr>credentialDisplay := d\<rparr>"
          by (simp add: begin_send_def v1_def [symmetric] requireRuntime_def Let_def)
        with send_ok_started(2) [OF ok] startBreathing_length [OF Inr] show ?thesis by simp
      qed
    qed
  qed
qed

lemma send_ok_finally: "send_ok v \<Longrightarrow> send_ok (send_finally v)"
  by (simp add: send_ok_def send_finally_def updateSendControls_def)

lemma send_ok_failed: "send_ok v \<Longrightarrow> send_ok (send_failed e v)"
  using send_ok_status [of None v]
  by (auto simp: send_failed_def Let_def send_ok_def reset_slots_def stopReelTimer_def slots_getValue_def)

lemma send_ok_bar [simp]:
  "send_ok (v\<lparr>bar_width := b, send_progress_text := t\<rparr>) = send_ok v"
  "send_ok (showUploadStamp v) = send_ok v"
  by (simp_all add: send_ok_def showUploadStamp_def)

lemma send_ok_sent: "send_ok v \<Longrightarrow> send_ok (show_sent env later c ttl uploads reservation v)"
  unfolding show_sent_def Let_def
  by (simp add: send_ok_share(2) send_ok_status split: option.split)

lemma send_ok_step: "send_ok v \<Longrightarrow> send_step v v' \<Longrightarrow> send_ok v'"
proof (elim send_stepE)
  fix f assume "send_ok v" "v' = chooseSendFile f v"
  then show ?thesis by (simp add: chooseSendFile_def send_ok_reset send_ok_picker)
next
  fix reel assume "send_ok v" "v' = v\<lparr>credentialDisplay := startReelSpinning reel (credentialDisplay v)\<rparr>"
  then show ?thesis by (simp add: send_ok_def startReelSpinning_def slots_getValue_def)
next
  fix ticks c d assume ok: "send_ok v" and r: "revealSequential ticks c (credentialDisplay v) = Inr d"
    and v': "v' = v\<lparr>credentialDisplay := d, copy_disabled := False\<rparr>"
  have len: "length (slots (credentialDisplay v)) = CREDENTIAL_LENGTH" using ok by (simp add: send_ok_def)
  have "slots_getValue d \<noteq> []" "length (slots d) = CREDENTIAL_LENGTH"
    using reveal_result [OF r len] by (auto simp: CREDENTIAL_LENGTH_def)
  with ok show ?thesis by (simp add: v' send_ok_def)
qed (auto simp: send_ok_begin send_ok_status send_ok_sent send_ok_finally send_ok_failed send_ok_share
    copyCredential_def copyReceiveLink_def restore_copy_text_def downloadReceiveQr_def Let_def
    split: option.splits sum.splits prod.splits)

interpretation send_panel: safe_system send_step send_ok
  by unfold_locales (rule send_ok_step)

text \<open>
  The whole page with the credential of the download that runs. Controls that are disabled send no
  events. \<open>reconnected\<close> and \<open>reconnect_failed\<close> are the end of \<open>handleSaveSettings\<close>, whatever the runtime is.
\<close>

inductive page_step ::
    "(rat \<Rightarrow> string) \<Rightarrow> (string \<Rightarrow> jsnum) \<Rightarrow> (string \<Rightarrow> json option) \<Rightarrow> (json \<Rightarrow> string) \<Rightarrow>
     'c page \<times> string option \<Rightarrow> 'c page \<times> string option \<Rightarrow> bool"
  for print :: "rat \<Rightarrow> string" and toNumber :: "string \<Rightarrow> jsnum" and parse :: "string \<Rightarrow> json option" and
    stringify :: "json \<Rightarrow> string" where
  slider_moved: "i \<le> slider_max \<Longrightarrow> \<not> ttl_disabled (send_panel p) \<Longrightarrow>
    page_step print toNumber parse stringify (p, job) (handleSendTtlSliderInput print toNumber (p\<lparr>ttl_slider := dec i\<rparr>), job)"
| tick_clicked: "page_step print toNumber parse stringify (p, job) (ttl_tick_clicked print index p, job)"
| ttl_typed: "\<not> ttl_disabled (send_panel p) \<Longrightarrow> page_step print toNumber parse stringify (p, job)
    (p\<lparr>ttl_hours := h, ttl_minutes := m, ttl_seconds := s\<rparr>, job)"
| ttl_normalized: "page_step print toNumber parse stringify (p, job) (normalize_duration_inputs toNumber p, job)"
| ttl_confirmed: "page_step print toNumber parse stringify (p, job) (handleConfirmFileTtl print toNumber p, job)"
| box_changed: "box = BoxWord \<longrightarrow> \<not> word_disabled p \<Longrightarrow>
    page_step print toNumber parse stringify (p, job) (style_box_changed box b p, job)"
| style_confirmed: "page_step print toNumber parse stringify (p, job) (handleConfirmCredentialStyle stringify p, job)"
| registry_typed: "page_step print toNumber parse stringify (p, job) (p\<lparr>registry_input := x\<rparr>, job)"
| saving: "page_step print toNumber parse stringify (p, job) (snd (begin_save p), job)"
| reconnected: "page_step print toNumber parse stringify (p, job)
    (end_save (Inr ()) ((updateRegistryLabel (p\<lparr>runtime := Some rt\<rparr>))\<lparr>registry_input := rt_registryUrl rt\<rparr>), job)"
| reconnect_failed: "page_step print toNumber parse stringify (p, job) (end_save (Inl e) p, job)"
| resetting: "page_step print toNumber parse stringify (p, job)
    ((clear_settings_banners p)\<lparr>local_storage := clearStoredRegistryUrl (local_storage p)\<rparr>, job)"
| defaults_loaded: "page_step print toNumber parse stringify (p, job)
    (p\<lparr>registry_input := x, settingsInfo := showBanner DefaultsRestored\<rparr>, job)"
| panel_switched: "page_step print toNumber parse stringify (p, job) (switchPanel name1 p, job)"
| received: "receive_step (receive_panel_view p, job) (v, job') \<Longrightarrow>
    page_step print toNumber parse stringify (p, job) (p\<lparr>receive_panel_view := v\<rparr>, job')"
| sending: "send_step (send_panel p) v \<Longrightarrow>
    page_step print toNumber parse stringify (p, job) (p\<lparr>send_panel := v\<rparr>, job)"

inductive_cases page_stepE: "page_step print toNumber parse stringify pj pj'"

text \<open>The validity period and the style that are in force are the ones shown.\<close>

definition ttl_shown :: "'c page \<Rightarrow> bool" where
  "ttl_shown p \<longleftrightarrow> (let secs = Fin (of_int (getEffectiveFileTtlSeconds (local_storage p)));
       index = nearestFileTtlPresetIndex secs in
     ttl_current p = formatDurationLabel secs \<and> ttl_quick p = formatFileTtlQuickLabel secs \<and>
     ttl_slider p = dec index \<and> ttl_slider_percent p = of_nat index / of_nat slider_max * 100 \<and>
     ttl_ticks p = map (\<lambda>i. i = index) tick_indices)"

definition style_shown :: "(string \<Rightarrow> json option) \<Rightarrow> 'c page \<Rightarrow> bool" where
  "style_shown parse p \<longleftrightarrow>
     style_current p = formatCredentialStyleLabel (getEffectiveCredentialStyle parse (local_storage p)) \<and>
     \<not> (check_first_six p \<and> check_last_six p) \<and>
     word_disabled p = (\<not> check_uppercase p \<and> \<not> check_lowercase p) \<and> (word_disabled p \<longrightarrow> \<not> check_word p)"

definition page_ok :: "(string \<Rightarrow> json option) \<Rightarrow> 'c page \<times> string option \<Rightarrow> bool" where
  "page_ok parse pj \<longleftrightarrow> (case pj of (p, job) \<Rightarrow> ttl_shown p \<and> style_shown parse p \<and>
     registry_label p = map_option rt_registryUrl (runtime p) \<and>
     receive_ok (receive_panel_view p, job) \<and> send_ok (send_panel p))"

lemma storage_keys:
  "REGISTRY_URL_STORAGE_KEY \<noteq> FILE_TTL_SECONDS_STORAGE_KEY"
  "REGISTRY_URL_STORAGE_KEY \<noteq> CREDENTIAL_STYLE_STORAGE_KEY"
  "FILE_TTL_SECONDS_STORAGE_KEY \<noteq> CREDENTIAL_STYLE_STORAGE_KEY"
  by (simp_all add: REGISTRY_URL_STORAGE_KEY_def FILE_TTL_SECONDS_STORAGE_KEY_def CREDENTIAL_STYLE_STORAGE_KEY_def)

text \<open>Saving one setting leaves the others alone.\<close>

lemma settings_independent [simp]:
  "getEffectiveFileTtlSeconds (saveStoredRegistryUrl u st) = getEffectiveFileTtlSeconds st"
  "getEffectiveFileTtlSeconds (clearStoredRegistryUrl st) = getEffectiveFileTtlSeconds st"
  "getEffectiveFileTtlSeconds (saveStoredCredentialStyle f o1 st) = getEffectiveFileTtlSeconds st"
  "getEffectiveCredentialStyle parse (saveStoredRegistryUrl u st) = getEffectiveCredentialStyle parse st"
  "getEffectiveCredentialStyle parse (clearStoredRegistryUrl st) = getEffectiveCredentialStyle parse st"
  "getEffectiveCredentialStyle parse (saveStoredFileTtlSeconds print secs st) = getEffectiveCredentialStyle parse st"
  using storage_keys storage_keys [symmetric]
  by (simp_all add: getEffectiveFileTtlSeconds_def readStoredFileTtlSeconds_def saveStoredRegistryUrl_def
      clearStoredRegistryUrl_def saveStoredCredentialStyle_def getEffectiveCredentialStyle_def
      readStoredCredentialStyle_def saveStoredFileTtlSeconds_def jm_get_set jm_get_delete)

lemma saved_ttl_effective:
  assumes "1 \<le> k" "k \<le> MAX_FILE_TTL_SECONDS"
  shows "getEffectiveFileTtlSeconds (saveStoredFileTtlSeconds print (Fin (of_int k)) st) = k"
proof -
  have "at_least_one (Fin (of_int k)) = Fin (of_int k)" using assms(1) by (simp add: at_least_one_def)
  from read_saved_ttl [OF assms(1) _ this] assms(2) show ?thesis
    by (simp add: getEffectiveFileTtlSeconds_def MAX_TTL)
qed

lemma preset_range:
  "fileTtlPresetSecondsAt index = Some s \<Longrightarrow> 1 \<le> s \<and> s \<le> MAX_FILE_TTL_SECONDS"
  "num_isFinite index \<Longrightarrow> \<exists>s. fileTtlPresetSecondsAt index = Some s"
proof -
  have all: "FILE_TTL_PRESETS_SECONDS ! i \<in> set FILE_TTL_PRESETS_SECONDS" if "i < 12" for i
    using that by (intro nth_mem) (simp add: presets)
  have range: "1 \<le> FILE_TTL_PRESETS_SECONDS ! i \<and> FILE_TTL_PRESETS_SECONDS ! i \<le> MAX_FILE_TTL_SECONDS" if "i < 12" for i
    using all [OF that] by (auto simp: presets MAX_TTL)
  have len: "int (length FILE_TTL_PRESETS_SECONDS) - 1 = 11" by (simp add: presets)
  show "fileTtlPresetSecondsAt index = Some s \<Longrightarrow> 1 \<le> s \<and> s \<le> MAX_FILE_TTL_SECONDS"
    unfolding fileTtlPresetSecondsAt_def Let_def len
    by (cases index) (use range in \<open>auto simp: nat_less_iff\<close>)
  show "num_isFinite index \<Longrightarrow> \<exists>s. fileTtlPresetSecondsAt index = Some s"
    by (cases index) (auto simp: fileTtlPresetSecondsAt_def)
qed

lemma applied_ttl_shown:
  assumes "getEffectiveFileTtlSeconds (local_storage p) = k"
  shows "ttl_shown (applyFileTtlToUi (Fin (of_int k)) p)"
proof -
  have "local_storage (applyFileTtlToUi (Fin (of_int k)) p) = local_storage p"
    by (simp add: applyFileTtlToUi_def syncSendTtlQuickUi_def updateSendTtlTickActive_def Let_def
        updateFileTtlCurrentLabel_def applyDurationPartsToInputs_def)
  with assms show ?thesis
    by (simp add: ttl_shown_def applyFileTtlToUi_def syncSendTtlQuickUi_def updateSendTtlTickActive_def Let_def
        updateFileTtlCurrentLabel_def applyDurationPartsToInputs_def slider_max_def)
qed

text \<open>The parts of the page that the settings of the validity period leave alone.\<close>

definition same_rest :: "(string \<Rightarrow> json option) \<Rightarrow> 'c page \<Rightarrow> 'c page \<Rightarrow> bool" where
  "same_rest parse p p' \<longleftrightarrow> (style_shown parse p \<longrightarrow> style_shown parse p') \<and> registry_label p' = registry_label p \<and>
     runtime p' = runtime p \<and> receive_panel_view p' = receive_panel_view p \<and> send_panel p' = send_panel p"

lemma page_ok_ttl: "page_ok parse (p, job) \<Longrightarrow> same_rest parse p p' \<Longrightarrow> ttl_shown p' \<Longrightarrow> page_ok parse (p', job)"
  by (simp add: page_ok_def same_rest_def)

lemma same_rest_apply: "same_rest parse p (applyFileTtlToUi secs (p\<lparr>local_storage := saveStoredFileTtlSeconds print secs (local_storage p)\<rparr>))"
  by (simp add: same_rest_def style_shown_def applyFileTtlToUi_def syncSendTtlQuickUi_def updateSendTtlTickActive_def Let_def
        updateFileTtlCurrentLabel_def applyDurationPartsToInputs_def)

lemma preset_applied:
  assumes "num_isFinite index"
  shows "ttl_shown (applyFileTtlPresetIndex print index p)" "same_rest parse p (applyFileTtlPresetIndex print index p)"
proof -
  obtain s where s: "fileTtlPresetSecondsAt index = Some s" using preset_range(2) [OF assms] by blast
  show "ttl_shown (applyFileTtlPresetIndex print index p)"
    using preset_range(1) [OF s] by (simp add: applyFileTtlPresetIndex_def s Let_def applied_ttl_shown saved_ttl_effective)
  show "same_rest parse p (applyFileTtlPresetIndex print index p)"
    by (simp add: applyFileTtlPresetIndex_def s Let_def same_rest_apply)
qed

lemma clamped_range:
  "totalSeconds (clampDurationParts h m s) \<le> MAX_FILE_TTL_SECONDS"
  by (simp add: clampDurationParts_def Let_def)

lemma confirm_ttl:
  assumes "page_ok parse (p, job)"
  shows "page_ok parse (handleConfirmFileTtl print toNumber p, job)"
proof -
  let ?p = "clear_settings_banners p"
  let ?parts = "readDurationInputs toNumber ?p"
  have ok: "page_ok parse (?p, job)"
    using assms by (simp add: page_ok_def clear_settings_banners_def ttl_shown_def style_shown_def)
  show ?thesis
  proof (cases "totalSeconds ?parts \<le> 0")
    case True
    with ok show ?thesis
      by (simp add: handleConfirmFileTtl_def Let_def page_ok_def ttl_shown_def style_shown_def)
  next
    case False
    define secs where "secs = (Fin (of_int (totalSeconds ?parts)) :: jsnum)"
    define q where "q = applyFileTtlToUi secs (?p\<lparr>local_storage := saveStoredFileTtlSeconds print secs (local_storage ?p)\<rparr>)"
    have "totalSeconds ?parts \<le> MAX_FILE_TTL_SECONDS" by (simp add: readDurationInputs_def clamped_range)
    with False have "ttl_shown q" by (simp add: q_def secs_def applied_ttl_shown saved_ttl_effective)
    with same_rest_apply ok have "page_ok parse (q, job)" unfolding q_def by (blast intro: page_ok_ttl)
    moreover have "handleConfirmFileTtl print toNumber p = q\<lparr>settingsInfo := showBanner TtlUpdated\<rparr>"
      using False by (simp add: handleConfirmFileTtl_def q_def secs_def Let_def)
    ultimately show ?thesis by (simp add: page_ok_def ttl_shown_def style_shown_def)
  qed
qed

text \<open>Parts of the page that no invariant speaks of may change.\<close>

lemma page_ok_free [simp]:
  "page_ok parse (p\<lparr>registry_input := x\<rparr>, job) = page_ok parse (p, job)"
  "page_ok parse (p\<lparr>settingsInfo := i\<rparr>, job) = page_ok parse (p, job)"
  "page_ok parse (p\<lparr>settingsError := e\<rparr>, job) = page_ok parse (p, job)"
  "page_ok parse (switchPanel name1 p, job) = page_ok parse (p, job)"
  "page_ok parse (showApp p, job) = page_ok parse (p, job)"
  "page_ok parse (setBootProgress ratio message p, job) = page_ok parse (p, job)"
  "page_ok parse (clear_settings_banners p, job) = page_ok parse (p, job)"
  "page_ok parse (p\<lparr>boot_hidden := b, app_hidden := c\<rparr>, job) = page_ok parse (p, job)"
  "page_ok parse (applyDurationPartsToInputs parts p, job) = page_ok parse (p, job)"
  "page_ok parse (p\<lparr>ttl_hours := h, ttl_minutes := m, ttl_seconds := s\<rparr>, job) = page_ok parse (p, job)"
  by (simp_all add: page_ok_def ttl_shown_def style_shown_def switchPanel_def showApp_def setBootProgress_def
      clear_settings_banners_def applyDurationPartsToInputs_def)

lemma page_ok_store:
  "page_ok parse (p, job) \<Longrightarrow> getEffectiveFileTtlSeconds st = getEffectiveFileTtlSeconds (local_storage p) \<Longrightarrow>
   getEffectiveCredentialStyle parse st = getEffectiveCredentialStyle parse (local_storage p) \<Longrightarrow>
   page_ok parse (p\<lparr>local_storage := st\<rparr>, job)"
  by (simp add: page_ok_def ttl_shown_def style_shown_def)

lemma page_ok_storage:
  "clear_settings_banners p\<lparr>local_storage := st\<rparr> = clear_settings_banners (p\<lparr>local_storage := st\<rparr>)"
  by (simp add: clear_settings_banners_def)

lemma box_ok:
  "page_ok parse (p, job) \<Longrightarrow> box = BoxWord \<longrightarrow> \<not> word_disabled p \<Longrightarrow> page_ok parse (style_box_changed box b p, job)"
  by (cases box)
    (auto simp: style_box_changed_def updateWordStyleCheckboxState_def lettersEnabledForCredentialStyle_def Let_def
      page_ok_def ttl_shown_def style_shown_def)

lemma read_style_consistent:
  "style_shown parse p \<Longrightarrow> readCredentialStyleFromInputs p =
     \<lparr>includeUppercase = check_uppercase p, includeLowercase = check_lowercase p,
      allowAtMostOneHyphen = check_hyphen p, lettersOnlyLastSix = check_last_six p,
      lettersOnlyFirstSix = check_first_six p, wordStyle = check_word p\<rparr>"
  by (auto simp: style_shown_def readCredentialStyleFromInputs_def Let_def)

text \<open>\<open>JSON.parse\<close> undoes \<open>JSON.stringify\<close> on a style.\<close>

definition json_inverse :: "(string \<Rightarrow> json option) \<Rightarrow> (json \<Rightarrow> string) \<Rightarrow> bool" where
  "json_inverse parse stringify \<longleftrightarrow> (\<forall>options. parse (stringify (style_json options)) = Some (style_json options) \<and>
     stringify (style_json options) \<noteq> [])"

lemma saved_style_effective:
  assumes "json_inverse parse stringify" "\<not> (lettersOnlyFirstSix options \<and> lettersOnlyLastSix options)"
  shows "getEffectiveCredentialStyle parse (saveStoredCredentialStyle stringify options st) = options"
proof -
  have "getEffectiveCredentialStyle parse (saveStoredCredentialStyle stringify options st)
      = options\<lparr>lettersOnlyLastSix := lettersOnlyLastSix options \<and> \<not> lettersOnlyFirstSix options\<rparr>"
    using assms(1) by (simp add: json_inverse_def getEffectiveCredentialStyle_def readStoredCredentialStyle_def
        saveStoredCredentialStyle_def jm_get_set style_json_def stored_flag_def Let_def)
  with assms(2) show ?thesis by (cases options) auto
qed

lemma confirm_style_cases:
  assumes "json_inverse parse stringify" "page_ok parse (p, job)"
  shows "page_ok parse (handleConfirmCredentialStyle stringify p, job)"
    "let options = readCredentialStyleFromInputs p; p' = handleConfirmCredentialStyle stringify p in
     case validateCredentialStyle options of
       None \<Rightarrow> getEffectiveCredentialStyle parse (local_storage p') = options \<and>
         settingsInfo p' = Some StyleUpdated \<and> settingsError p' = None
     | Some problem \<Rightarrow> problem = NoValidCredential \<and> local_storage p' = local_storage p \<and>
         settingsError p' = Some (StyleRejected problem)"
proof -
  let ?p = "clear_settings_banners p"
  let ?o = "readCredentialStyleFromInputs p"
  have o: "readCredentialStyleFromInputs ?p = ?o"
    by (simp add: readCredentialStyleFromInputs_def clear_settings_banners_def)
  have style: "style_shown parse p" using assms(2) by (simp add: page_ok_def)
  then have halves: "\<not> (lettersOnlyFirstSix ?o \<and> lettersOnlyLastSix ?o)"
    by (auto simp: read_style_consistent style_shown_def)
  note eff = saved_style_effective [OF assms(1) halves]
  have letters: "wordStyle ?o \<longrightarrow> canUseWordStyle ?o" using style
    by (auto simp: read_style_consistent style_shown_def canUseWordStyle_def)
  have only: "validateCredentialStyle ?o = Some problem \<Longrightarrow> problem = NoValidCredential" for problem
    using halves letters by (auto simp: validateCredentialStyle_def split: if_splits)
  have run: "handleConfirmCredentialStyle stringify p = (case validateCredentialStyle ?o of
      Some problem \<Rightarrow> ?p\<lparr>settingsError := showBanner (StyleRejected problem)\<rparr>
    | None \<Rightarrow> (updateCredentialStyleCurrentLabel ?o
        (?p\<lparr>local_storage := saveStoredCredentialStyle stringify ?o (local_storage ?p)\<rparr>))\<lparr>settingsInfo := showBanner StyleUpdated\<rparr>)"
    by (simp only: handleConfirmCredentialStyle_def Let_def o)
  show "page_ok parse (handleConfirmCredentialStyle stringify p, job)"
  proof (cases "validateCredentialStyle ?o")
    case None
    with assms(2) eff show ?thesis
      by (simp add: run page_ok_def ttl_shown_def style_shown_def updateCredentialStyleCurrentLabel_def
          clear_settings_banners_def)
  next
    case (Some problem)
    with assms(2) show ?thesis by (simp add: run)
  qed
  show "let options = ?o; p' = handleConfirmCredentialStyle stringify p in
     case validateCredentialStyle options of
       None \<Rightarrow> getEffectiveCredentialStyle parse (local_storage p') = options \<and>
         settingsInfo p' = Some StyleUpdated \<and> settingsError p' = None
     | Some problem \<Rightarrow> problem = NoValidCredential \<and> local_storage p' = local_storage p \<and>
         settingsError p' = Some (StyleRejected problem)"
    using eff only
    by (cases "validateCredentialStyle ?o")
      (simp_all add: run Let_def updateCredentialStyleCurrentLabel_def clear_settings_banners_def showBanner_def
        clearBanner_def)
qed

lemma end_save_ok:
  assumes "page_ok parse (p, job)"
  shows "page_ok parse (end_save (Inl e) p, job)"
    "page_ok parse (end_save (Inr ()) ((updateRegistryLabel (p\<lparr>runtime := Some rt\<rparr>))\<lparr>registry_input := x\<rparr>), job)"
proof -
  show "page_ok parse (end_save (Inl e) p, job)" using assms by (simp add: end_save_def)
  have "page_ok parse ((updateRegistryLabel (p\<lparr>runtime := Some rt\<rparr>))\<lparr>registry_input := x,
      send_panel := clearSendShare (send_panel p)\<rparr>, job)"
    using assms by (simp add: page_ok_def ttl_shown_def style_shown_def updateRegistryLabel_def send_ok_share)
  then show "page_ok parse (end_save (Inr ()) ((updateRegistryLabel (p\<lparr>runtime := Some rt\<rparr>))\<lparr>registry_input := x\<rparr>), job)"
    by (simp add: end_save_def Let_def updateRegistryLabel_def)
qed

lemma page_ok_step:
  assumes "json_inverse parse stringify" "\<And>i. i \<le> slider_max \<Longrightarrow> toNumber (dec i) = Fin (of_nat i)"
    and "page_ok parse pj" "page_step print toNumber parse stringify pj pj'"
  shows "page_ok parse pj'"
  using assms(4)
proof (cases rule: page_step.cases)
  case (slider_moved i p job)
  let ?p = "p\<lparr>ttl_slider := dec i\<rparr>"
  have "handleSendTtlSliderInput print toNumber ?p = applyFileTtlPresetIndex print (Fin (of_nat i)) ?p"
    using assms(2) slider_moved by (simp add: handleSendTtlSliderInput_def)
  moreover have "style_shown parse ?p = style_shown parse p" by (simp add: style_shown_def)
  moreover have "ttl_shown (applyFileTtlPresetIndex print (Fin (of_nat i)) ?p)"
      "same_rest parse ?p (applyFileTtlPresetIndex print (Fin (of_nat i)) ?p)"
    by (rule preset_applied; simp)+
  ultimately show ?thesis using assms(3) slider_moved by (simp add: page_ok_def same_rest_def)
next
  case (tick_clicked p job index)
  with assms(3) preset_applied(1) [of index print p] preset_applied(2) [of index parse p print] page_ok_ttl show ?thesis
    by (fastforce simp: ttl_tick_clicked_def)
next
  case (ttl_confirmed p job)
  with assms(3) confirm_ttl show ?thesis by blast
next
  case (ttl_normalized p job)
  with assms(3) show ?thesis by (simp add: normalize_duration_inputs_def)
next
  case (box_changed box p job b)
  with assms(3) box_ok show ?thesis by blast
next
  case (style_confirmed p job)
  with assms(1,3) confirm_style_cases(1) show ?thesis by blast
next
  case (saving p job)
  with assms(3) show ?thesis
    by (auto simp: begin_save_def Let_def intro: page_ok_store)
next
  case (resetting p job)
  with assms(3) show ?thesis by (simp add: page_ok_storage page_ok_store)
next
  case (reconnected p job rt)
  with assms(3) end_save_ok(2) show ?thesis by blast
next
  case (reconnect_failed p job e)
  with assms(3) end_save_ok(1) show ?thesis by blast
next
  case (received p job v job')
  with assms(3) show ?thesis
    by (auto simp: page_ok_def ttl_shown_def style_shown_def dest: receive_panel.inv_step)
next
  case (sending p v job)
  with assms(3) show ?thesis
    by (auto simp: page_ok_def ttl_shown_def style_shown_def dest: send_panel.inv_step)
qed (use assms(3) in simp_all)

lemma send_ok_start: "send_ok send_start"
  by (simp add: send_ok_def send_start_def clearSendShare_def send_html_def new_slot_display_def default_to_def)

lemma effective_style_halves:
  "\<not> (lettersOnlyFirstSix (getEffectiveCredentialStyle parse st) \<and> lettersOnlyLastSix (getEffectiveCredentialStyle parse st))"
  by (simp add: getEffectiveCredentialStyle_def readStoredCredentialStyle_def DEFAULT_CREDENTIAL_STYLE_def Let_def
      split: option.split)

lemma style_synced:
  "style_shown parse (syncCredentialStyleSettingsUi parse p)"
  "ttl_shown (syncCredentialStyleSettingsUi parse p) = ttl_shown p"
  "registry_label (syncCredentialStyleSettingsUi parse p) = registry_label p"
  "runtime (syncCredentialStyleSettingsUi parse p) = runtime p"
  "send_panel (syncCredentialStyleSettingsUi parse p) = send_panel p"
  "receive_panel_view (syncCredentialStyleSettingsUi parse p) = receive_panel_view p"
  using effective_style_halves [of parse "local_storage p"]
  by (auto simp: syncCredentialStyleSettingsUi_def ttl_shown_def style_shown_def Let_def
      updateCredentialStyleCurrentLabel_def applyCredentialStyleToInputs_def updateWordStyleCheckboxState_def
      lettersEnabledForCredentialStyle_def)

lemma ttl_synced:
  "ttl_shown (syncFileTtlSettingsUi p)"
  "registry_label (syncFileTtlSettingsUi p) = registry_label p" "runtime (syncFileTtlSettingsUi p) = runtime p"
  "send_panel (syncFileTtlSettingsUi p) = send_panel p"
  "receive_panel_view (syncFileTtlSettingsUi p) = receive_panel_view p"
  by (simp_all add: syncFileTtlSettingsUi_def applied_ttl_shown)
    (simp_all add: applyFileTtlToUi_def syncSendTtlQuickUi_def updateSendTtlTickActive_def Let_def
      updateFileTtlCurrentLabel_def applyDurationPartsToInputs_def)

lemma page_ok_start: "page_ok parse (start_page parse store, None)"
  using receive_ok_start send_ok_start
  by (simp add: start_page_def) (simp add: page_ok_def style_synced ttl_synced page_html_def)

section \<open>Connections\<close>

lemma trim_idem: "trim (trim s) = trim s"
proof -
  let ?t = "dropWhile is_space s"
  let ?r = "rev (dropWhile is_space (rev ?t))"
  have "\<exists>ys. ?t = ?r @ ys"
    by (intro exI [of _ "rev (takeWhile is_space (rev ?t))"])
      (simp only: rev_append [symmetric] takeWhile_dropWhile_id rev_rev_ident)
  then have "?r = [] \<or> hd ?r = hd ?t" by (metis hd_append2)
  moreover have "?t = [] \<or> \<not> is_space (hd ?t)" using hd_dropWhile by blast
  moreover have "?t = [] \<longrightarrow> ?r = []" by (auto dest: set_dropWhileD)
  ultimately have "dropWhile is_space ?r = ?r" unfolding dropWhile_eq_self_iff by metis
  then show ?thesis by (simp add: trim_def)
qed

lemma saved_url_read:
  "trim u \<noteq> [] \<Longrightarrow> readStoredRegistryUrl (saveStoredRegistryUrl (trim u) st) = Some (trim u)"
  by (simp add: readStoredRegistryUrl_def saveStoredRegistryUrl_def jm_get_set trim_idem)

lemma bootstrap_url:
  assumes "bootstrapClientRuntime print env protocol1 bundled fetchFn assetUrl store load w = (Inr rt, w')"
    and "readStoredRegistryUrl store = Some u" "u \<noteq> []" "readEnv env ''STATELESS_RELAY_REGISTRY_URL'' = None"
  shows "rt_registryUrl rt = normalizeBaseUrl u"
proof -
  have none: "nonempty (Some u) = Some u" using assms(3) by (cases u) simp_all
  show ?thesis
    using assms(1,2,4) none
    by (auto simp: bootstrapClientRuntime_def loadEffectiveConfig_def createClientRuntime_def abind_def alift_def
        areturn_def rbind_def resolveRegistryBaseUrl_def split: prod.splits sum.splits if_splits)
qed
lemma page_reachable_ok:
  assumes "json_inverse parse stringify" "\<And>i. i \<le> slider_max \<Longrightarrow> toNumber (dec i) = Fin (of_nat i)"
    and "(page_step print toNumber parse stringify)\<^sup>*\<^sup>* (start_page parse store, None) pj"
  shows "page_ok parse pj"
  using assms(3)
proof (induction rule: rtranclp_induct)
  case base
  show ?case by (rule page_ok_start)
next
  case (step y z)
  from page_ok_step [OF assms(1,2) step.IH step.hyps(2)] show ?case by blast
qed

text \<open>When the start fails, the page stays behind the boot screen: no panel, and no link, can be used.\<close>

lemma failed_start_stays_hidden:
  assumes "startApp env parse hash store w = (action, w', p)" "runtime p = None"
  shows "app_hidden p \<and> \<not> boot_hidden p \<and> action = LinkIgnored \<and> \<not> receiveIntentConsumed p \<and>
    (\<exists>m. boot_status p = BootFailed m)"
  using assms
  by (auto simp: startApp_def reloadRuntime_def start_failed_def page_consume_link_def showApp_def setBootProgress_def
      switchPanel_def updateRegistryLabel_def start_page_def syncCredentialStyleSettingsUi_def Let_def
      updateCredentialStyleCurrentLabel_def applyCredentialStyleToInputs_def updateWordStyleCheckboxState_def
      lettersEnabledForCredentialStyle_def syncFileTtlSettingsUi_def applyFileTtlToUi_def syncSendTtlQuickUi_def
      updateSendTtlTickActive_def updateFileTtlCurrentLabel_def applyDurationPartsToInputs_def page_html_def
      split: prod.splits sum.splits if_splits)

section \<open>A small page\<close>

definition plain_number :: "string \<Rightarrow> jsnum" where
  "plain_number s = Fin (of_nat (digits_val s))"

lemma plain_number_dec: "i \<le> slider_max \<Longrightarrow> plain_number (dec i) = Fin (of_nat i)"
  by (simp add: plain_number_def)

lemma flags_inverse: "json_inverse flags_parse flags_stringify"
  by (simp add: json_inverse_def flags_parse_def flags_stringify_def style_json_def DEFAULT_CREDENTIAL_STYLE_def)

definition demo_boot :: "(unit, unit) boot_env" where
  "demo_boot = \<lparr>bo_print = (\<lambda>_. []), bo_env = bare_env, bo_location_protocol = ''file:'', bo_bundled = half_limit_json,
     bo_fetch = (\<lambda>_. athrow (ErrorObj [])), bo_configUrl = [], bo_loadTwelveC = areturn ()\<rparr>"

section \<open>Properties\<close>

text \<open>C38. The settings that the page shows are those in force: whatever is clicked, typed, sent, received or
  reconnected in whatever order, after the start with whatever the browser had stored, the label, the
  slider, its ticks and its text show the validity period that the next upload will request, the style label
  the style its credential will have, the registry label the connected registry, the controls of the send
  panel whether an upload runs; and no two boxes are ticked that exclude each other.\<close>

theorem page_settings_consistent:
  assumes "json_inverse parse stringify" "\<And>i. i \<le> slider_max \<Longrightarrow> toNumber (dec i) = Fin (of_nat i)"
    and "(page_step print toNumber parse stringify)\<^sup>*\<^sup>* (start_page parse store, None) (p, job)"
  shows "let secs = Fin (of_int (getEffectiveFileTtlSeconds (local_storage p)));
             index = nearestFileTtlPresetIndex secs;
             options = getEffectiveCredentialStyle parse (local_storage p) in
    ttl_current p = formatDurationLabel secs \<and> ttl_quick p = formatFileTtlQuickLabel secs \<and>
    ttl_slider p = dec index \<and> ttl_ticks p = map (\<lambda>i. i = index) tick_indices \<and>
    style_current p = formatCredentialStyleLabel options \<and>
    \<not> (check_first_six p \<and> check_last_six p) \<and> (check_word p \<longrightarrow> check_uppercase p \<or> check_lowercase p) \<and>
    registry_label p = map_option rt_registryUrl (runtime p) \<and>
    send_disabled (send_panel p) = (sendInProgress (send_panel p) \<or> selectedFile (send_panel p) = None) \<and>
    ttl_disabled (send_panel p) = sendInProgress (send_panel p) \<and>
    copy_link_disabled (send_panel p) = (sendShareState (send_panel p) = None)"
  using page_reachable_ok [OF assms] by (auto simp: page_ok_def ttl_shown_def style_shown_def send_ok_def Let_def)

theorem page_settings_consistent_witness:
  "let p = handleConfirmFileTtl (\<lambda>_. []) plain_number
      ((start_page flags_parse [] :: unit page)\<lparr>ttl_hours := ''2'', ttl_minutes := [], ttl_seconds := ''5''\<rparr>) in
   ttl_current p = formatDurationLabel (Fin (of_int (getEffectiveFileTtlSeconds (local_storage p)))) \<and>
   registry_label p = None"
proof -
  let ?s = "start_page flags_parse [] :: unit page"
  let ?q = "?s\<lparr>ttl_hours := ''2'', ttl_minutes := [], ttl_seconds := ''5''\<rparr>"
  let ?step = "page_step (\<lambda>_. []) plain_number flags_parse flags_stringify"
  have on: "\<not> ttl_disabled (send_panel ?s)"
    by (simp add: start_page_def setBootProgress_def style_synced ttl_synced send_start_def clearSendShare_def send_html_def)
  have "?step (?s, None) (?q, None)" "?step (?q, None) (handleConfirmFileTtl (\<lambda>_. []) plain_number ?q, None)"
    using on by (auto intro: page_step.ttl_typed page_step.ttl_confirmed)
  then have run: "?step\<^sup>*\<^sup>* (?s, None) (handleConfirmFileTtl (\<lambda>_. []) plain_number ?q, None)" by simp
  have "runtime (handleConfirmFileTtl (\<lambda>_. []) plain_number ?q) = None"
    by (simp add: handleConfirmFileTtl_def Let_def clear_settings_banners_def applyFileTtlToUi_def syncSendTtlQuickUi_def
      updateSendTtlTickActive_def updateFileTtlCurrentLabel_def applyDurationPartsToInputs_def start_page_def
      setBootProgress_def style_synced ttl_synced page_html_def)
  with page_settings_consistent [OF flags_inverse plain_number_dec run] show ?thesis by (simp add: Let_def)
qed

text \<open>C39. Reconnecting: an empty URL changes nothing but the messages. Otherwise the trimmed URL is stored, and
  if the runtime can be made, the page is connected to it (without its last slash), shows it, closes the
  link of the previous upload and opens the settings panel; if not, the old runtime, its label and its
  link stay, the error is shown and the page is usable, but the stored URL is the new one, which the
  next start of the page will use.\<close>

theorem handleSaveSettings_outcome:
  assumes "readEnv (bo_env env) ''STATELESS_RELAY_REGISTRY_URL'' = None"
    and "handleSaveSettings env (w, p) = (w', p')"
  shows "if trim (registry_input p) = []
    then w' = w \<and> settingsError p' = Some RegistryUrlEmpty \<and> runtime p' = runtime p \<and> local_storage p' = local_storage p
    else readStoredRegistryUrl (local_storage p') = Some (trim (registry_input p)) \<and>
      \<not> app_hidden p' \<and> boot_hidden p' \<and>
      (case settingsError p' of
         None \<Rightarrow> (\<exists>rt. runtime p' = Some rt \<and> rt_registryUrl rt = normalizeBaseUrl (trim (registry_input p)) \<and>
            registry_label p' = Some (rt_registryUrl rt) \<and> registry_input p' = rt_registryUrl rt \<and>
            sendShareState (send_panel p') = None \<and> activePanel p' = SettingsPanel)
       | Some message \<Rightarrow> runtime p' = runtime p \<and> registry_label p' = registry_label p \<and>
            registry_input p' = registry_input p \<and> send_panel p' = send_panel p \<and> activePanel p' = activePanel p)"
proof (cases "trim (registry_input p) = []")
  case True
  with assms(2) show ?thesis
    by (auto simp: handleSaveSettings_def begin_save_def clear_settings_banners_def Let_def showBanner_def)
next
  case False
  let ?u = "trim (registry_input p)"
  let ?st = "saveStoredRegistryUrl ?u (local_storage p)"
  obtain r w1 where boot: "bootstrapClientRuntime (bo_print env) (bo_env env) (bo_location_protocol env)
      (bo_bundled env) (bo_fetch env) (bo_configUrl env) ?st (bo_loadTwelveC env) w = (r, w1)" by (metis surj_pair)
  note defs = handleSaveSettings_def begin_save_def clear_settings_banners_def Let_def showBanner_def
    reloadRuntime_def setBootProgress_def end_save_def showApp_def switchPanel_def updateRegistryLabel_def clearBanner_def
  show ?thesis
  proof (cases r)
    case (Inl e)
    with assms(2) False boot saved_url_read [OF False] show ?thesis by (auto simp: defs)
  next
    case (Inr rt)
    with bootstrap_url [OF boot [unfolded Inr] saved_url_read [OF False] False assms(1)]
      assms(2) False boot saved_url_read [OF False] show ?thesis
      by (auto simp: defs clearSendShare_def split: if_splits)
  qed
qed

theorem handleSaveSettings_outcome_witness:
  "case handleSaveSettings demo_boot ((), (start_page flags_parse [])\<lparr>registry_input := '' https://x/ ''\<rparr>) of (w', p') \<Rightarrow>
     readStoredRegistryUrl (local_storage p') = Some ''https://x/'' \<and> \<not> app_hidden p'"
proof -
  obtain w' p' where run: "handleSaveSettings demo_boot ((), (start_page flags_parse [])\<lparr>registry_input := '' https://x/ ''\<rparr>)
      = (w', p')" by (metis surj_pair)
  have env: "readEnv (bo_env demo_boot) ''STATELESS_RELAY_REGISTRY_URL'' = None"
    by (simp add: demo_boot_def readEnv_def bare_env_def)
  have url: "trim '' https://x/ '' = ''https://x/''" by code_simp
  show ?thesis using handleSaveSettings_outcome [OF env run] url by (simp add: run)
qed

text \<open>C40. A confirmed credential style is the one in force: the boxes can only be refused for a style that no
  credential has, and then nothing is stored; otherwise the style of the next upload is the one of the
  boxes, it is shown, and generating a credential for it succeeds with a well-formed one.\<close>

theorem confirmed_style_in_force:
  assumes "json_inverse parse stringify" "\<And>i. i \<le> slider_max \<Longrightarrow> toNumber (dec i) = Fin (of_nat i)"
    and "(page_step print toNumber parse stringify)\<^sup>*\<^sup>* (start_page parse store, None) (p, job)"
  shows "let options = readCredentialStyleFromInputs p; p' = handleConfirmCredentialStyle stringify p in
    case settingsError p' of
      Some message \<Rightarrow> message = StyleRejected NoValidCredential \<and> local_storage p' = local_storage p
    | None \<Rightarrow> getEffectiveCredentialStyle parse (local_storage p') = options \<and>
        style_current p' = formatCredentialStyleLabel options \<and> settingsInfo p' = Some StyleUpdated \<and>
        (\<exists>c. generateCredential random (Some options) = Inr c \<and> length c = CREDENTIAL_LENGTH)"
proof -
  have ok: "page_ok parse (p, job)" by (rule page_reachable_ok [OF assms])
  let ?o = "readCredentialStyleFromInputs p"
  have label: "style_current (handleConfirmCredentialStyle stringify p) = formatCredentialStyleLabel
      (getEffectiveCredentialStyle parse (local_storage (handleConfirmCredentialStyle stringify p)))"
    using confirm_style_cases(1) [OF assms(1) ok] by (simp add: page_ok_def style_shown_def)
  show ?thesis
  proof (cases "validateCredentialStyle ?o")
    case None
    with confirm_style_cases(2) [OF assms(1) ok] label valid_style_generates [OF None, of random] show ?thesis
      by (simp add: Let_def generateCredential_def)
  next
    case (Some problem)
    with confirm_style_cases(2) [OF assms(1) ok] show ?thesis by (simp add: Let_def)
  qed
qed

theorem confirmed_style_in_force_witness:
  "let p' = handleConfirmCredentialStyle flags_stringify (start_page flags_parse [] :: unit page) in
   settingsError p' = None \<longrightarrow> getEffectiveCredentialStyle flags_parse (local_storage p') =
     readCredentialStyleFromInputs (start_page flags_parse [] :: unit page)"
proof -
  let ?s = "start_page flags_parse [] :: unit page"
  have "(page_step (\<lambda>_. []) plain_number flags_parse flags_stringify)\<^sup>*\<^sup>* (?s, None) (?s, None)" by simp
  from confirmed_style_in_force [OF flags_inverse plain_number_dec this, of "\<lambda>_. []"]
  show ?thesis by (auto simp: Let_def)
qed

end
