(* ===== verification/Spec2Isabelle.thy ===== *)
theory Spec2Isabelle
  imports Router Systems Progress HashPool Receive Stripe Link Config Wasm Prepare Upload Delivery
    ReceivePage SendPage SettingsPage
begin

text \<open>
  The TypeScript client of the 12C stateless relay transfer system.

  \<^bold>\<open>The program.\<close> A sender encrypts a file into wire blocks, each under a token derived from a twelve
  character credential, asks a registry to place the tokens on relays, and PUTs the blocks; a
  receiver who is told the credential derives the tokens, looks the relays up, GETs the blocks and
  decrypts them. \<open>client/transfer\<close> holds the protocol, \<open>client/app\<close> the credential styles and the
  send and receive entry points, \<open>client/web\<close> the browser front end. The cryptography is C++ compiled
  to WebAssembly, the registry and relays are Python servers; both are parameters here.

  \<^bold>\<open>Modelling conventions\<close> (\<open>Prelude\<close>). A thrown value is a \<open>thrown\<close>, a fallible result \<open>thrown + 'a\<close>,
  an asynchronous operation on the outside world an \<open>act\<close>, which returns a result and the next world
  and keeps the effects done before a throw. A JavaScript \<open>Map\<close> is an association list in insertion
  order. Code whose awaits can interleave is cut at them into transformations of a state record, and
  a step relation lets the pieces happen in any order. \<open>fetch\<close>, \<open>XMLHttpRequest\<close>, timers, random bytes,
  SHA-256, storage and the compiled module are arguments of the definitions that use them. Byte
  counts and indices are unbounded integers: they come out of \<open>toSafeByteLength\<close> or are bounded by
  lengths of arrays.

  \<^bold>\<open>Theories and code.\<close>
  \<^item> \<open>Sizes\<close>: \<open>types.ts\<close>, \<open>segment-policy.ts\<close>, \<open>wire-block-policy.ts\<close>. Credentials, byte lengths, the
    segment code of a file and the size of a wire block.
  \<^item> \<open>Prefetch\<close>: \<open>protocol/receive-plan.ts\<close>, \<open>receive-prefetch-policy.ts\<close>, \<open>received-file-name.ts\<close>.
  \<^item> \<open>Registry\<close>: \<open>router/registry-client.ts\<close>, the parsers, the HTTP client and the coalescing client.
  \<^item> \<open>Router\<close>: \<open>router/relay-router.ts\<close>, \<open>endpoints-from-registry.ts\<close>.
  \<^item> \<open>Progress\<close>: \<open>transport/byte-transfer-progress.ts\<close>, the byte meter and the throttle.
  \<^item> \<open>Resilience\<close>: \<open>resilience/put-with-retry.ts\<close>, \<open>retry-policy.ts\<close>, \<open>stripe-put-concurrency.ts\<close>.
  \<^item> \<open>Bodies\<close>: \<open>transport/get-response-body.ts\<close>, \<open>put-wire-block-body.ts\<close>, \<open>fetch-upload-client.ts\<close>,
    \<open>resilience/get-with-fallbacks.ts\<close>.
  \<^item> \<open>Systems\<close>: the two contracts (locales) of the concurrent parts, an invariant kept by every step,
    and a rank that every step uses up. They are interpreted in \<open>HashPool\<close>, \<open>Receive\<close>, \<open>Stripe\<close> and
    \<open>Upload\<close>.
  \<^item> \<open>HashPool\<close>: \<open>protocol/block-hash-pool.ts\<close>, \<open>block-hash.ts\<close>.
  \<^item> \<open>Receive\<close>: \<open>transport/fetch-receive-transport.ts\<close>.
  \<^item> \<open>Stripe\<close>: \<open>uploadStripePrimaryBlocks\<close> of \<open>session/upload-session.ts\<close>, \<open>upload-status.ts\<close>.
  \<^item> \<open>Wasm\<close>: \<open>wasm/loader.ts\<close>, \<open>twelve-c-client.ts\<close> and the encryption worker with its protocol and client.
  \<^item> \<open>Prepare\<close>: reading and encrypting a file, \<open>prepareUpload\<close> and its streaming variants in
    \<open>session/upload-session.ts\<close>.
  \<^item> \<open>Upload\<close>: \<open>session/upload-registry.ts\<close>, \<open>replica-replication.ts\<close>, \<open>uploadPrepared\<close>, \<open>uploadFile\<close> and
    \<open>client/app/src/upload/send-file.ts\<close>.
  \<^item> \<open>Decrypt\<close>: \<open>session/finalize-receive-decrypt.ts\<close>.
  \<^item> \<open>Download\<close>: \<open>session/download-session.ts\<close>, \<open>download-status.ts\<close>,
    \<open>client/app/src/download/receive-file.ts\<close>, over any transport.
  \<^item> \<open>Delivery\<close>: what a download delivers. The contract of a transport is the locale
    \<open>serving_port\<close>, interpreted on the transport of \<open>Receive\<close>; the download refines \<open>local_receive\<close>, which
    decrypts the blocks without a network.
  \<^item> \<open>Credential\<close>: \<open>client/app/src/credential\<close>. \<open>Settings\<close>, \<open>Link\<close>, \<open>Config\<close>: the stored settings, the
    receive link and credential input, and \<open>transfer.json\<close> with the client stack built from it, in
    \<open>client/web/src\<close> and \<open>client/transfer/src/config\<close>.
  \<^item> \<open>Labels\<close>: the texts of byte counts and statuses in \<open>client/web/src/app.ts\<close>, \<open>banner.ts\<close>,
    \<open>file-type-icon.ts\<close>. \<open>ReceivePage\<close>: the receive panel of \<open>app.ts\<close>, a state record with a step relation of
    everything the user, the browser and the download can do to it. \<open>SendPage\<close>: the send panel with \<open>handleSend\<close>
    run over \<open>Prepare\<close> and \<open>Upload\<close>, and \<open>qr-share.ts\<close>.

  \<^bold>\<open>What the lemmas show.\<close> Invariants under every interleaving: the byte account of the receive
  transport, the stripe workers, the worker protocol, the throttle, the credential boxes, the
  progress of a download. Liveness: the hash pool, the stripe workers and the replica workers come
  to rest with everything done or the first error kept. Refinement: a successful upload stored
  every block, encryption in the worker is encryption in the main thread, pipelined hashes are the
  hashes of the uploaded blocks, a download over honest relays is the local decryption.
  Equivalence: streamed and buffered bodies, the two sinks of the decrypted file. Error behaviour:
  retries end at the first decisive outcome within their limits, expired and unknown tokens, the
  409 document. Round trips: configuration, links, generated credentials. Some properties state
  what goes wrong: a ramp without effect, lost occupied tokens, a concurrency of zero, stale
  hashes, a download window that shrinks. The panels of the page: what the receive panel shows agrees
  with its variables in every reachable state, its progress never runs backwards, a shared link
  downloads its file, and a send ends with an error or with the credential and link of what it stored.

  \<^bold>\<open>Bounds and fuel.\<close> Loops that end by themselves are functions with a measure: attempts left, bytes
  left in a chunk, room left in a buffer. \<open>run_turns\<close> of \<open>Upload\<close> runs the stripe workers with the rank
  \<open>stripe_rank\<close> of the start state as fuel, which every step lowers, so the run always comes to rest
  within it. The worker is created at most twice because the code tries twice. The loop into parts
  of \<open>Decrypt\<close> has no bound in the code and is a partial function.

  \<^bold>\<open>Not modelled.\<close> The boot screen, navigation and settings panel of \<open>client/web/src/app.ts\<close>, \<open>main.ts\<close>, the
  drawing of the QR code and of file icons, the self test, re-exporting modules, the server console's page, the desktop
  shell, build scripts and generated WebAssembly glue: they are DOM code, glue or generated. The
  cryptography (C++) and the servers (Python) are in other languages; what the client relies on is
  a parameter with its hypotheses named where it is used. Callbacks given by the page are taken not
  to throw, and the text of messages that the source gives in Chinese is given in English.
\<close>

end
